(* ===== verification/Prelude.thy ===== *)
theory Prelude
  imports Main "HOL-Library.Word"
begin

text \<open>
  Shared vocabulary of the development: bytes and machine integers, the result type in which
  every Go panic and every exhausted execution bound is a value, the part of Go's
  \<^verbatim>\<open>math/big\<close> that the sources call, and the generic lemmas on lists, words and integers that
  the component theories share. Nothing here models a file of the repository.
\<close>

section \<open>Types\<close>

type_synonym byte = "8 word"
type_synonym bytes = "byte list"
type_synonym uint64 = "64 word"

text \<open>
  \<open>Ok x\<close>: the Go code returned \<open>x\<close>. \<open>Panic\<close>: it panicked (index out of range, nil
  dereference, explicit panic). \<open>NoFuel\<close>: the bound given to an interpreter loop ran out, an
  artefact of the model that the termination theorems exclude.
\<close>

datatype 'a res = Ok 'a | Panic | NoFuel

fun bind_res :: "'a res \<Rightarrow> ('a \<Rightarrow> 'b res) \<Rightarrow> 'b res" where
  "bind_res (Ok x) f = f x"
| "bind_res Panic f = Panic"
| "bind_res NoFuel f = NoFuel"

fun map_res_fst :: "('a \<Rightarrow> 'b) \<Rightarrow> ('a \<times> 'c) res \<Rightarrow> ('b \<times> 'c) res" where
  "map_res_fst f (Ok (x, y)) = Ok (f x, y)"
| "map_res_fst f Panic = Panic"
| "map_res_fst f NoFuel = NoFuel"

named_theorems go_defs \<open>definitions of straight-line Go code, for unfolding\<close>
named_theorems res_simps \<open>inversion of successful and failing results\<close>

lemma bind_res_Ok [res_simps]: "bind_res m f = Ok y \<longleftrightarrow> (\<exists>x. m = Ok x \<and> f x = Ok y)"
  by (cases m) auto

lemma bind_res_Panic [res_simps]:
  "bind_res m f = Panic \<longleftrightarrow> m = Panic \<or> (\<exists>x. m = Ok x \<and> f x = Panic)"
  by (cases m) auto

lemma bind_res_NoFuel [res_simps]:
  "bind_res m f = NoFuel \<longleftrightarrow> m = NoFuel \<or> (\<exists>x. m = Ok x \<and> f x = NoFuel)"
  by (cases m) auto

text \<open>For evaluation: the continuation waits for its argument, and an updated map stays an update.\<close>

lemma bind_res_unfold [code_unfold]:
  "bind_res m f = (case m of Ok x \<Rightarrow> f x | Panic \<Rightarrow> Panic | NoFuel \<Rightarrow> NoFuel)"
  by (cases m) auto

declare fun_upd_apply [code]

lemma bind_res_assoc: "bind_res (bind_res m f) g = bind_res m (\<lambda>x. bind_res (f x) g)"
  by (cases m) auto

lemma bind_res_OkE:
  assumes "bind_res r f = Ok y"
  obtains x where "r = Ok x" "f x = Ok y"
  using assms by (cases r) auto

lemma bind_res_cong [fundef_cong]:
  "m = m' \<Longrightarrow> (\<And>x. m' = Ok x \<Longrightarrow> f x = f' x) \<Longrightarrow> bind_res m f = bind_res m' f'"
  by (cases m') auto

section \<open>Arbitrary precision integers (math/big)\<close>

text \<open>
  A \<^verbatim>\<open>*big.Int\<close> is an \<open>int\<close>. The sources treat the receiver of an operation as a fresh
  value after the call, so the in-place updates are functional updates here.
\<close>

fun bit_count :: "nat \<Rightarrow> nat" where
  "bit_count n = (if n = 0 then 0 else Suc (bit_count (n div 2)))"

declare bit_count.simps [simp del]

text \<open>\<open>x.BitLen()\<close>: the length of the absolute value in bits.\<close>

definition BitLen :: "int \<Rightarrow> nat" where
  "BitLen x = bit_count (nat \<bar>x\<bar>)"

text \<open>\<open>x.Uint64()\<close>: the low 64 bits of the absolute value.\<close>

definition Uint64 :: "int \<Rightarrow> uint64" where
  "Uint64 x = word_of_int \<bar>x\<bar>"

text \<open>\<open>x.Int64()\<close>: those 64 bits, negated where \<open>x\<close> is negative, read in two's complement.\<close>

definition Int64 :: "int \<Rightarrow> int" where
  "Int64 x = sint (if x < 0 then - Uint64 x else Uint64 x)"

text \<open>\<open>x.Bytes()\<close>: the absolute value as big-endian bytes without leading zeros.\<close>

fun nat_bytes :: "nat \<Rightarrow> bytes" where
  "nat_bytes n = (if n = 0 then [] else nat_bytes (n div 256) @ [word_of_nat (n mod 256)])"

declare nat_bytes.simps [simp del]

definition Bytes :: "int \<Rightarrow> bytes" where
  "Bytes x = nat_bytes (nat \<bar>x\<bar>)"

text \<open>\<open>z.SetBytes(bs)\<close>: the bytes read as a big-endian unsigned number.\<close>

definition SetBytes :: "bytes \<Rightarrow> int" where
  "SetBytes bs = foldl (\<lambda>a b. a * 256 + uint b) 0 bs"

text \<open>\<open>x.Bits()\<close>: the absolute value as little-endian 64-bit words without leading zeros.\<close>

fun nat_words :: "nat \<Rightarrow> uint64 list" where
  "nat_words n = (if n = 0 then [] else word_of_nat (n mod 2 ^ 64) # nat_words (n div 2 ^ 64))"

declare nat_words.simps [simp del]

definition Bits :: "int \<Rightarrow> uint64 list" where
  "Bits x = nat_words (nat \<bar>x\<bar>)"

text \<open>The bitwise operations of \<^verbatim>\<open>big.Int\<close> are those of two's complement.\<close>

unbundle bit_operations_syntax

definition bigAnd :: "int \<Rightarrow> int \<Rightarrow> int" where "bigAnd x y = x AND y"
definition bigOr :: "int \<Rightarrow> int \<Rightarrow> int" where "bigOr x y = x OR y"
definition bigXor :: "int \<Rightarrow> int \<Rightarrow> int" where "bigXor x y = x XOR y"
definition bigNot :: "int \<Rightarrow> int" where "bigNot x = NOT x"

definition byteOr :: "byte \<Rightarrow> byte \<Rightarrow> byte" where "byteOr x y = x OR y"
definition byteAnd :: "byte \<Rightarrow> byte \<Rightarrow> byte" where "byteAnd x y = x AND y"
definition byteNot :: "byte \<Rightarrow> byte" where "byteNot x = NOT x"

lemma bigAnd_mask: "bigAnd x (2 ^ n - 1) = x mod 2 ^ n"
  by (simp add: bigAnd_def flip: mask_eq_exp_minus_1 take_bit_eq_mask take_bit_eq_mod)

lemma bigNot_eq: "bigNot x = - x - 1"
  by (simp add: bigNot_def not_int_def)

lemma bit_ops_nonneg:
  "0 \<le> x \<Longrightarrow> 0 \<le> bigAnd x y" "0 \<le> x \<Longrightarrow> 0 \<le> y \<Longrightarrow> 0 \<le> bigOr x y"
  "0 \<le> x \<Longrightarrow> 0 \<le> y \<Longrightarrow> 0 \<le> bigXor x y"
  by (simp_all add: bigAnd_def bigOr_def bigXor_def)

lemma bit_ops_bound:
  assumes "0 \<le> x" "x < 2 ^ n" "0 \<le> y" "y < 2 ^ n"
  shows "bigAnd x y < 2 ^ n" "bigOr x y < 2 ^ n" "bigXor x y < 2 ^ n"
proof -
  have t: "take_bit n x = x" "take_bit n y = y"
    using assms by (simp_all add: take_bit_int_eq_self)
  have "take_bit n (x AND y) = x AND y" "take_bit n (x OR y) = x OR y"
    "take_bit n (x XOR y) = x XOR y"
    by (simp_all add: t)
  then show "bigAnd x y < 2 ^ n" "bigOr x y < 2 ^ n" "bigXor x y < 2 ^ n"
    by (metis bigAnd_def bigOr_def bigXor_def take_bit_int_less_exp)+
qed


section \<open>Laws of the integer conversions\<close>

lemma bit_count_le_iff: "bit_count n \<le> k \<longleftrightarrow> n < 2 ^ k"
proof (induction n arbitrary: k rule: bit_count.induct)
  case (1 n)
  show ?case
  proof (cases "n = 0")
    case True
    then show ?thesis by (simp add: bit_count.simps)
  next
    case False
    then show ?thesis
      using "1" [of "k - 1"] by (cases k) (auto simp: bit_count.simps [of n])
  qed
qed

lemma BitLen_le_iff: "BitLen x \<le> k \<longleftrightarrow> \<bar>x\<bar> < 2 ^ k"
proof -
  have "nat \<bar>x\<bar> < 2 ^ k \<longleftrightarrow> \<bar>x\<bar> < 2 ^ k"
    by (metis abs_ge_zero nat_less_iff of_nat_numeral of_nat_power)
  then show ?thesis by (simp add: BitLen_def bit_count_le_iff)
qed

lemma BitLen_gt_iff: "k < BitLen x \<longleftrightarrow> 2 ^ k \<le> \<bar>x\<bar>"
  using BitLen_le_iff [of x k] by linarith

lemma BitLen_eq_0 [simp]: "BitLen x = 0 \<longleftrightarrow> x = 0"
  using BitLen_le_iff [of x 0] by auto

text \<open>The same recursion on the integer itself, for evaluation.\<close>

lemma BitLen_code [code]: "BitLen x = (if x = 0 then 0 else Suc (BitLen (\<bar>x\<bar> div 2)))"
proof -
  have "nat \<bar>\<bar>x\<bar> div 2\<bar> = nat \<bar>x\<bar> div 2" by (simp add: nat_div_distrib pos_imp_zdiv_nonneg_iff)
  then show ?thesis unfolding BitLen_def by (subst bit_count.simps) simp
qed

lemma unat_Uint64: "0 \<le> x \<Longrightarrow> x < 2 ^ 64 \<Longrightarrow> unat (Uint64 x) = nat x"
  by (simp add: Uint64_def unat_eq_nat_uint uint_word_of_int)

lemma uint_Uint64: "0 \<le> x \<Longrightarrow> x < 2 ^ 64 \<Longrightarrow> uint (Uint64 x) = x"
  by (simp add: Uint64_def uint_word_of_int)

lemma Int64_small: "0 \<le> x \<Longrightarrow> x < 2 ^ 63 \<Longrightarrow> Int64 x = x"
  by (simp add: Int64_def Uint64_def signed_of_int signed_take_bit_int_eq_self)

lemma SetBytes_Nil [simp]: "SetBytes [] = 0"
  by (simp add: SetBytes_def)

lemma SetBytes_snoc [simp]: "SetBytes (bs @ [b]) = SetBytes bs * 256 + uint b"
  by (simp add: SetBytes_def)

lemma SetBytes_nonneg [simp]: "0 \<le> SetBytes bs"
  by (induction bs rule: rev_induct) auto

lemma SetBytes_bound: "SetBytes bs < 256 ^ length bs"
proof (induction bs rule: rev_induct)
  case (snoc b bs)
  have "uint b < 256" using uint_lt2p [of b] by simp
  with snoc show ?case by simp
qed simp

lemma SetBytes_append: "SetBytes (as @ bs) = SetBytes as * 256 ^ length bs + SetBytes bs"
  by (induction bs rule: rev_induct) (simp_all add: algebra_simps flip: append_assoc)

lemma SetBytes_replicate_0 [simp]: "SetBytes (replicate n 0) = 0"
proof (induction n)
  case (Suc n)
  then show ?case by (simp only: replicate_append_same [symmetric] replicate_Suc SetBytes_snoc) simp
qed simp

lemma SetBytes_nat_bytes: "SetBytes (nat_bytes n) = int n"
proof (induction n rule: nat_bytes.induct)
  case (1 n)
  show ?case
  proof (cases "n = 0")
    case True
    then show ?thesis by (simp add: nat_bytes.simps)
  next
    case False
    have "int (n div 256) * 256 + int (n mod 256) = int n"
      by (metis div_mult_mod_eq of_nat_add of_nat_mult of_nat_numeral)
    with False "1" show ?thesis
      by (simp add: nat_bytes.simps [of n] unsigned_of_nat take_bit_nat_eq_self)
  qed
qed

lemma SetBytes_Bytes: "SetBytes (Bytes x) = \<bar>x\<bar>"
  by (simp add: Bytes_def SetBytes_nat_bytes)

section \<open>Machine words\<close>

lemma unat_max64: "unat (- 1 :: uint64) = 2 ^ 64 - 1"
  by (simp add: unsigned_minus_1_eq_mask mask_eq_exp_minus_1)

lemma unat_sub_le: "(y :: uint64) \<le> x \<Longrightarrow> unat (x - y) = unat x - unat y"
  by (simp add: unat_sub_if_size word_le_nat_alt)

lemma unat_add_less: "unat (x :: uint64) + unat y < 2 ^ 64 \<Longrightarrow> unat (x + y) = unat x + unat y"
  by (simp add: unat_plus_if_size word_size)

lemma unat_lt64: "unat (x :: uint64) < 2 ^ 64"
  using unsigned_less [of x] by simp

end
