(* ===== verification/CommonLib.thy ===== *)
theory CommonLib
  imports Prelude
begin

text \<open>
  The packages \<^verbatim>\<open>common\<close> and \<^verbatim>\<open>common/math\<close>: 256-bit arithmetic on big integers, overflow
  checked \<^verbatim>\<open>uint64\<close> arithmetic, byte padding, and the fixed-size byte arrays generated from
  \<^verbatim>\<open>common/types_template.go\<close>. The array length of \<^verbatim>\<open>common.Address\<close> is not in the sources and
  is a parameter wherever it matters; a hash has 32 bytes.
\<close>

section \<open>common/math/integer.go\<close>

definition SafeSub :: "uint64 \<Rightarrow> uint64 \<Rightarrow> uint64 \<times> bool" where
  "SafeSub x y = (x - y, x < y)"

definition SafeAdd :: "uint64 \<Rightarrow> uint64 \<Rightarrow> uint64 \<times> bool" where
  "SafeAdd x y = (x + y, y > - 1 - x)"

definition SafeMul :: "uint64 \<Rightarrow> uint64 \<Rightarrow> uint64 \<times> bool" where
  "SafeMul x y = (if x = 0 \<or> y = 0 then (0, False) else (x * y, y > (- 1) div x))"

section \<open>common/math/big.go\<close>

definition BigPow :: "int \<Rightarrow> int \<Rightarrow> int" where
  "BigPow a b = (if b \<le> 0 then 1 else a ^ nat b)"

definition tt255 :: int where "tt255 = BigPow 2 255"
definition tt256 :: int where "tt256 = BigPow 2 256"
definition tt256m1 :: int where "tt256m1 = tt256 - 1"

definition BigMax :: "int \<Rightarrow> int \<Rightarrow> int" where
  "BigMax x y = (if x < y then y else x)"

definition BigMin :: "int \<Rightarrow> int \<Rightarrow> int" where
  "BigMin x y = (if x > y then y else x)"

text \<open>The loop of \<^verbatim>\<open>FirstBitSet\<close> from index \<open>i\<close> on; \<open>k\<close> counts the iterations left.\<close>

fun FirstBitSetFrom :: "int \<Rightarrow> nat \<Rightarrow> nat \<Rightarrow> nat" where
  "FirstBitSetFrom v 0 i = BitLen v"
| "FirstBitSetFrom v (Suc k) i = (if bit \<bar>v\<bar> i then i else FirstBitSetFrom v k (Suc i))"

definition FirstBitSet :: "int \<Rightarrow> nat" where
  "FirstBitSet v = FirstBitSetFrom v (BitLen v) 0"

text \<open>
  The inner loop of \<^verbatim>\<open>ReadBits\<close> writes the bytes of the word \<open>d\<close> before index \<open>i\<close>, lowest byte
  last, until eight bytes are written or the buffer is full; \<open>k\<close> counts the bytes left.
\<close>

fun ReadWord :: "nat \<Rightarrow> uint64 \<Rightarrow> nat \<times> bytes \<Rightarrow> nat \<times> bytes" where
  "ReadWord 0 d (i, buf) = (i, buf)"
| "ReadWord (Suc k) d (i, buf) =
     (if i > 0 then ReadWord k (drop_bit 8 d) (i - 1, buf[i - 1 := ucast d]) else (i, buf))"

definition ReadBits :: "int \<Rightarrow> bytes \<Rightarrow> bytes" where
  "ReadBits bigint buf = snd (foldl (\<lambda>st d. ReadWord 8 d st) (length buf, buf) (Bits bigint))"

definition PaddedBigBytes :: "int \<Rightarrow> nat \<Rightarrow> bytes" where
  "PaddedBigBytes bigint n =
     (if BitLen bigint div 8 \<ge> n then Bytes bigint else ReadBits bigint (replicate n 0))"

definition bigEndianByteAt :: "int \<Rightarrow> nat \<Rightarrow> byte" where
  "bigEndianByteAt bigint n =
     (let words = Bits bigint; i = n div 8 in
      if i \<ge> length words then 0 else ucast (drop_bit (8 * (n mod 8)) (words ! i)))"

definition Byte :: "int \<Rightarrow> nat \<Rightarrow> nat \<Rightarrow> byte" where
  "Byte bigint padlength n = (if n \<ge> padlength then 0 else bigEndianByteAt bigint (padlength - 1 - n))"

definition U256 :: "int \<Rightarrow> int" where
  "U256 x = bigAnd x tt256m1"

definition S256 :: "int \<Rightarrow> int" where
  "S256 x = (if x < tt255 then x else x - tt256)"

text \<open>
  \<^verbatim>\<open>Exp\<close> squares its argument \<open>base\<close> in place, so the loops carry \<open>(result, base)\<close>. \<open>ExpWord\<close> is
  the loop over the bits of one word, \<open>ExpLoop\<close> the loop over the words of the exponent.
\<close>

fun ExpWord :: "nat \<Rightarrow> uint64 \<Rightarrow> int \<times> int \<Rightarrow> int \<times> int" where
  "ExpWord 0 word (result, base) = (result, base)"
| "ExpWord (Suc k) word (result, base) =
     ExpWord k (drop_bit 1 word)
       (if bit word 0 then U256 (result * base) else result, U256 (base * base))"

fun ExpLoop :: "uint64 list \<Rightarrow> int \<times> int \<Rightarrow> int \<times> int" where
  "ExpLoop [] st = st"
| "ExpLoop (word # words) st = ExpLoop words (ExpWord 64 word st)"

definition Exp :: "int \<Rightarrow> int \<Rightarrow> int" where
  "Exp base exponent = fst (ExpLoop (Bits exponent) (1, base))"

section \<open>common/bytes.go\<close>

text \<open>\<^verbatim>\<open>copy(xs[i:j], v)\<close> for a destination that lies within \<open>xs\<close>.\<close>

definition copyTo :: "bytes \<Rightarrow> nat \<Rightarrow> nat \<Rightarrow> bytes \<Rightarrow> bytes" where
  "copyTo xs i j v = (let w = take (j - i) v in take i xs @ w @ drop (i + length w) xs)"

definition RightPadBytes :: "bytes \<Rightarrow> int \<Rightarrow> bytes" where
  "RightPadBytes slc l =
     (if l \<le> int (length slc) then slc else slc @ replicate (nat l - length slc) 0)"

definition LeftPadBytes :: "bytes \<Rightarrow> int \<Rightarrow> bytes" where
  "LeftPadBytes slc l =
     (if l \<le> int (length slc) then slc else replicate (nat l - length slc) 0 @ slc)"

section \<open>common/types\_template.go\<close>

text \<open>A value of the array type \<^verbatim>\<open>[S]byte\<close> is its list of \<open>S\<close> bytes.\<close>

type_synonym Address = bytes
type_synonym Hash = bytes

definition N_SetBytes :: "nat \<Rightarrow> bytes \<Rightarrow> bytes \<Rightarrow> bytes" where
  "N_SetBytes S h b =
     (let b' = (if length b > S then drop (length b - S) b else b)
      in take (S - length b') h @ b')"

definition BytesToN :: "nat \<Rightarrow> bytes \<Rightarrow> bytes" where
  "BytesToN S b = N_SetBytes S (replicate S 0) b"

definition BigToN :: "nat \<Rightarrow> int \<Rightarrow> bytes" where
  "BigToN S b = BytesToN S (Bytes b)"

definition N_Big :: "bytes \<Rightarrow> int" where
  "N_Big h = SetBytes h"

abbreviation BytesToHash :: "bytes \<Rightarrow> Hash" where "BytesToHash \<equiv> BytesToN 32"
abbreviation BigToHash :: "int \<Rightarrow> Hash" where "BigToHash \<equiv> BigToN 32"
abbreviation zeroHash :: Hash where "zeroHash \<equiv> replicate 32 0"

section \<open>Checked arithmetic\<close>

lemma SafeAdd_overflow: "snd (SafeAdd x y) \<longleftrightarrow> 2 ^ 64 \<le> unat x + unat y"
proof -
  have "unat (- 1 - x) = 2 ^ 64 - 1 - unat x"
    using unat_sub_le [of x "- 1"] unat_max64 by simp
  then show ?thesis
    using unat_lt64 [of x] unat_lt64 [of y] by (auto simp: SafeAdd_def word_less_nat_alt)
qed

lemma SafeAdd_exact:
  "\<not> snd (SafeAdd x y) \<Longrightarrow> unat (fst (SafeAdd x y)) = unat x + unat y"
  using SafeAdd_overflow [of x y] by (simp add: SafeAdd_def unat_plus_if_size word_size)

lemma SafeMul_overflow: "snd (SafeMul x y) \<longleftrightarrow> 2 ^ 64 \<le> unat x * unat y"
proof (cases "x = 0 \<or> y = 0")
  case True
  then show ?thesis by (auto simp: SafeMul_def)
next
  case False
  then have x: "0 < unat x" by (simp add: unat_gt_0)
  have "unat ((- 1) div x) = (2 ^ 64 - 1) div unat x"
    by (simp add: unat_div unat_max64)
  moreover have "(2 ^ 64 - 1) div unat x < unat y \<longleftrightarrow> 2 ^ 64 - 1 < unat y * unat x"
    using x by (simp add: div_less_iff_less_mult)
  ultimately show ?thesis
    using False by (auto simp: SafeMul_def word_less_nat_alt mult.commute)
qed

lemma SafeMul_exact:
  "\<not> snd (SafeMul x y) \<Longrightarrow> unat (fst (SafeMul x y)) = unat x * unat y"
  using SafeMul_overflow [of x y]
  by (auto simp: SafeMul_def unat_mult_lem [THEN iffD1] split: if_splits)

section \<open>Two's complement on 256 bits\<close>

lemma tt_values: "tt255 = 2 ^ 255" "tt256 = 2 ^ 256" "tt256m1 = 2 ^ 256 - 1"
  by (simp_all add: tt255_def tt256_def tt256m1_def BigPow_def)

lemma U256_mod: "U256 x = x mod 2 ^ 256"
  by (simp only: U256_def tt_values bigAnd_mask)

lemma U256_range: "0 \<le> U256 x" "U256 x < 2 ^ 256"
  by (simp_all add: U256_mod)

lemma U256_id: "0 \<le> x \<Longrightarrow> x < 2 ^ 256 \<Longrightarrow> U256 x = x"
  by (simp add: U256_mod)

lemma S256_range:
  assumes "0 \<le> x" "x < 2 ^ 256"
  shows "- (2 ^ 255) \<le> S256 x" "S256 x < 2 ^ 255"
  using assms by (simp_all add: S256_def tt_values)

lemma U256_S256: "0 \<le> x \<Longrightarrow> x < 2 ^ 256 \<Longrightarrow> U256 (S256 x) = x"
  by (simp add: S256_def U256_mod tt_values)

lemma S256_U256:
  assumes "- (2 ^ 255) \<le> x" "x < 2 ^ 255"
  shows "S256 (U256 x) = x"
proof (cases "0 \<le> x")
  case True
  with assms show ?thesis by (simp add: S256_def U256_mod tt_values)
next
  case False
  have "(x + 2 ^ 256) mod 2 ^ 256 = x + 2 ^ 256"
    using False assms by (intro mod_pos_pos_trivial) auto
  with False assms show ?thesis by (simp add: S256_def U256_mod tt_values)
qed

section \<open>Exponentiation by squaring\<close>

definition words_value :: "uint64 list \<Rightarrow> nat" where
  "words_value ws = foldr (\<lambda>w v. unat w + 2 ^ 64 * v) ws 0"

lemma words_value_simps [simp]:
  "words_value [] = 0" "words_value (w # ws) = unat w + 2 ^ 64 * words_value ws"
  by (simp_all add: words_value_def)

lemma words_value_nat_words: "words_value (nat_words n) = n"
proof (induction n rule: nat_words.induct)
  case (1 n)
  show ?case
  proof (cases "n = 0")
    case True
    then show ?thesis by (simp add: nat_words.simps)
  next
    case False
    with "1" show ?thesis
      by (simp add: nat_words.simps [of n] unsigned_of_nat take_bit_nat_eq_self)
  qed
qed

lemma words_value_Bits: "words_value (Bits x) = nat \<bar>x\<bar>"
  by (simp add: Bits_def words_value_nat_words)

lemma mod_mult_right_pow: "(a * (b mod m) ^ k) mod m = (a * b ^ k) mod (m :: int)"
  by (metis mod_mult_right_eq power_mod)

lemma mod_mult_pow: "(a mod m) * (b mod m) ^ k mod m = a * b ^ k mod (m :: int)"
  by (metis mod_mult_left_eq mod_mult_right_pow)

text \<open>One word of the exponent: \<open>base\<close> is raised to it modulo \<open>2 ^ 256\<close>.\<close>

lemma ExpWord_correct:
  "ExpWord k w (r, b) = (r', b') \<Longrightarrow>
     r' mod 2 ^ 256 = r * b ^ (take_bit k (unat w)) mod 2 ^ 256 \<and>
     b' mod 2 ^ 256 = b ^ (2 ^ k) mod 2 ^ 256"
proof (induction k arbitrary: w r b)
  case 0
  then show ?case by simp
next
  case (Suc k)
  let ?r = "if bit w 0 then U256 (r * b) else r"
  have tb: "take_bit (Suc k) (unat w) = of_bool (bit w 0) + 2 * take_bit k (unat (drop_bit 1 w))"
  proof -
    have "unat (drop_bit 1 w) = unat w div 2" "bit w 0 \<longleftrightarrow> odd (unat w)"
      by (simp_all add: drop_bit_Suc unat_div bit_unsigned_iff flip: bit_0)
    then show ?thesis by (simp add: take_bit_Suc odd_iff_mod_2_eq_one)
  qed
  from Suc.prems have IH:
    "r' mod 2 ^ 256 = ?r * U256 (b * b) ^ take_bit k (unat (drop_bit 1 w)) mod 2 ^ 256"
    "b' mod 2 ^ 256 = U256 (b * b) ^ (2 ^ k) mod 2 ^ 256"
    using Suc.IH by fastforce+
  have "?r * (b * b) ^ take_bit k (unat (drop_bit 1 w)) mod 2 ^ 256 =
      r * b ^ take_bit (Suc k) (unat w) mod 2 ^ 256"
    by (auto simp: tb U256_mod power_add power_mult power2_eq_square mod_mult_left_eq mult.assoc)
  moreover have "(b * b) ^ (2 ^ k) = b ^ (2 ^ Suc k)"
    by (simp add: power_mult power2_eq_square)
  ultimately show ?case
    using IH by (simp add: U256_mod mod_mult_right_pow power_mod)
qed

lemma ExpLoop_correct:
  "fst (ExpLoop ws (r, b)) mod 2 ^ 256 = r * b ^ words_value ws mod 2 ^ 256"
proof (induction ws arbitrary: r b)
  case Nil
  then show ?case by simp
next
  case (Cons w ws)
  obtain r' b' where st: "ExpWord 64 w (r, b) = (r', b')" by fastforce
  have tb: "take_bit 64 (unat w) = unat w"
    using unat_lt64 [of w] by (simp add: take_bit_nat_eq_self)
  have r': "r' mod 2 ^ 256 = r * b ^ unat w mod 2 ^ 256"
    using ExpWord_correct [OF st, THEN conjunct1] unfolding tb .
  have b': "b' mod 2 ^ 256 = b ^ 2 ^ 64 mod 2 ^ 256"
    by (rule ExpWord_correct [OF st, THEN conjunct2])
  have "fst (ExpLoop (w # ws) (r, b)) mod 2 ^ 256 = r' * b' ^ words_value ws mod 2 ^ 256"
    unfolding ExpLoop.simps st by (rule Cons.IH)
  also have "\<dots> = (r' mod 2 ^ 256) * (b' mod 2 ^ 256) ^ words_value ws mod 2 ^ 256"
    by (rule mod_mult_pow [symmetric])
  also have "\<dots> = (r * b ^ unat w) * (b ^ 2 ^ 64) ^ words_value ws mod 2 ^ 256"
    unfolding r' b' by (rule mod_mult_pow)
  also have "\<dots> = r * b ^ words_value (w # ws) mod 2 ^ 256"
    by (simp only: words_value_simps power_add power_mult mult.assoc)
  finally show ?case .
qed

lemma ExpWord_range:
  "0 \<le> r \<Longrightarrow> r < 2 ^ 256 \<Longrightarrow>
   0 \<le> fst (ExpWord k w (r, b)) \<and> fst (ExpWord k w (r, b)) < 2 ^ 256"
  by (induction k arbitrary: w r b) (simp_all add: U256_range del: power_numeral)

lemma ExpLoop_range:
  "0 \<le> fst st \<Longrightarrow> fst st < 2 ^ 256 \<Longrightarrow>
   0 \<le> fst (ExpLoop ws st) \<and> fst (ExpLoop ws st) < 2 ^ 256"
proof (induction ws arbitrary: st)
  case (Cons w ws)
  then have "0 \<le> fst (ExpWord 64 w st) \<and> fst (ExpWord 64 w st) < 2 ^ 256"
    using ExpWord_range [of "fst st" 64 w "snd st"] by simp
  with Cons.IH [of "ExpWord 64 w st"] show ?case by simp
qed simp

lemma Exp_range: "0 \<le> Exp b e" "Exp b e < 2 ^ 256"
  using ExpLoop_range [of "(1, b)" "Bits e"] by (simp_all add: Exp_def)

lemma Exp_power: "Exp b e = b ^ nat \<bar>e\<bar> mod 2 ^ 256"
  using ExpLoop_correct [of "Bits e" 1 b] Exp_range [of b e]
  by (simp add: Exp_def words_value_Bits)

section \<open>Big-endian padding\<close>

text \<open>
  The state of \<^verbatim>\<open>ReadBits\<close>: the first \<open>i\<close> bytes are still zero and the rest hold \<open>v\<close>.
\<close>

definition filled :: "nat \<Rightarrow> int \<Rightarrow> nat \<times> bytes \<Rightarrow> bool" where
  "filled N v st \<longleftrightarrow> (case st of (i, buf) \<Rightarrow>
     i \<le> N \<and> (\<exists>hi. buf = replicate i 0 @ hi \<and> length hi = N - i \<and> SetBytes hi = v))"

lemma SetBytes_Cons: "SetBytes (b # bs) = uint b * 256 ^ length bs + SetBytes bs"
  using SetBytes_append [of "[b]" bs] SetBytes_snoc [of "[]" b] by simp

lemma filled_step:
  assumes "filled N v (Suc i, buf)"
  shows "filled N (v + uint b * 256 ^ (N - Suc i)) (i, buf[i := b])"
proof -
  from assms obtain hi where hi: "Suc i \<le> N" "buf = replicate (Suc i) 0 @ hi"
    "length hi = N - Suc i" "SetBytes hi = v" by (auto simp: filled_def)
  have "buf = replicate i 0 @ 0 # hi"
    unfolding hi(2) by (simp add: replicate_app_Cons_same)
  then have "buf[i := b] = replicate i 0 @ b # hi"
    by (simp add: list_update_append)
  with hi show ?thesis
    by (auto simp: filled_def SetBytes_Cons)
qed

lemma ReadWord_filled:
  assumes "filled N v (i, buf)"
  shows "fst (ReadWord k d (i, buf)) = i - k \<and>
    filled N (v + 256 ^ (N - i) * (uint d mod 256 ^ min k i)) (ReadWord k d (i, buf))"
  using assms
proof (induction k arbitrary: d i buf v)
  case 0
  then show ?case by simp
next
  case (Suc k)
  show ?case
  proof (cases i)
    case 0
    with Suc.prems show ?thesis by simp
  next
    case (Suc i')
    let ?v = "v + uint (ucast d :: byte) * 256 ^ (N - Suc i')"
    have *: "filled N ?v (i', buf[i' := ucast d])"
      using Suc.prems Suc by (intro filled_step) simp
    have le: "Suc i' \<le> N" using Suc.prems Suc by (simp add: filled_def)
    have d: "uint (ucast d :: byte) = uint d mod 256" "uint (drop_bit 8 d) = uint d div 256"
      by (simp_all add: unsigned_ucast_eq take_bit_eq_mod drop_bit_eq_div uint_div)
    have "256 ^ (N - i') = (256 :: int) * 256 ^ (N - Suc i')"
      using le by (simp flip: power_Suc add: Suc_diff_Suc)
    moreover have "uint d mod 256 ^ Suc (min k i') =
        uint d mod 256 + 256 * (uint d div 256 mod 256 ^ min k i')"
      using zmod_zmult2_eq [of "256 ^ min k i'" "uint d" 256] by simp
    ultimately have "?v + 256 ^ (N - i') * (uint (drop_bit 8 d) mod 256 ^ min k i') =
        v + 256 ^ (N - i) * (uint d mod 256 ^ min (Suc k) i)"
      using Suc by (simp add: d algebra_simps)
    with Suc.IH [OF *, of "drop_bit 8 d"] Suc show ?thesis by simp
  qed
qed

lemma word_split_mod:
  fixes w :: uint64
  shows "uint w mod 256 ^ min 8 i + 256 ^ min 8 i * (int W mod 256 ^ (i - 8)) * of_bool (8 \<le> i) =
    int (unat w + 2 ^ 64 * W) mod 256 ^ i"
proof (cases "8 \<le> i")
  case True
  have w: "uint w < 2 ^ 64" "0 \<le> uint w" using uint_lt2p [of w] by simp_all
  have "(256 :: int) ^ i = 256 ^ 8 * 256 ^ (i - 8)"
    using True by (metis le_add_diff_inverse power_add)
  moreover have "(uint w + 2 ^ 64 * int W) div 256 ^ 8 = int W" "(uint w + 2 ^ 64 * int W) mod 256 ^ 8 = uint w"
    using w by simp_all
  ultimately show ?thesis
    using True w zmod_zmult2_eq [of "256 ^ (i - 8)" "uint w + 2 ^ 64 * int W" "256 ^ 8"]
    by (simp add: min_absorb1)
next
  case False
  then have "(2 :: int) ^ 64 = 256 ^ i * 256 ^ (8 - i)"
    by (simp flip: power_add)
  then have "(256 :: int) ^ i dvd 2 ^ 64" by (metis dvd_triv_left)
  then have "(256 :: int) ^ i dvd 2 ^ 64 * int W" by (rule dvd_mult2)
  then have "(uint w + 2 ^ 64 * int W) mod 256 ^ i = uint w mod 256 ^ i"
    by (metis add.right_neutral dvd_eq_mod_eq_0 mod_add_right_eq)
  with False show ?thesis by (simp add: min_absorb2)
qed

lemma ReadWords_filled:
  "filled N v st \<Longrightarrow>
   filled N (v + 256 ^ (N - fst st) * (int (words_value ws) mod 256 ^ fst st))
     (foldl (\<lambda>st d. ReadWord 8 d st) st ws)"
proof (induction ws arbitrary: v st)
  case Nil
  then show ?case by simp
next
  case (Cons w ws)
  obtain i buf where st: "st = (i, buf)" by fastforce
  define v' where "v' = v + 256 ^ (N - i) * (uint w mod 256 ^ min 8 i)"
  have i: "i \<le> N" using Cons.prems by (simp add: st filled_def)
  have f: "fst (ReadWord 8 w (i, buf)) = i - 8" "filled N v' (ReadWord 8 w (i, buf))"
    using ReadWord_filled [of N v i buf 8 w] Cons.prems by (simp_all add: st v'_def)
  have "256 ^ (N - (i - 8)) * (int (words_value ws) mod 256 ^ (i - 8)) =
      256 ^ (N - i) * (256 ^ min 8 i * (int (words_value ws) mod 256 ^ (i - 8)) * of_bool (8 \<le> i))"
    using i by (auto simp: min_absorb1 simp flip: power_add mult.assoc)
  then have "v' + 256 ^ (N - (i - 8)) * (int (words_value ws) mod 256 ^ (i - 8)) =
      v + 256 ^ (N - i) * (int (words_value (w # ws)) mod 256 ^ i)"
    unfolding v'_def words_value_simps word_split_mod [symmetric] by (simp only: distrib_left add.assoc)
  with Cons.IH [OF f(2)] show ?case by (simp only: st f fst_conv foldl_Cons)
qed

lemma ReadBits_value:
  "SetBytes (ReadBits x (replicate n 0)) = \<bar>x\<bar> mod 256 ^ n \<and> length (ReadBits x (replicate n 0)) = n"
proof -
  let ?st = "foldl (\<lambda>st d. ReadWord 8 d st) (n, replicate n 0) (Bits x)"
  have "filled n 0 (n, replicate n 0)" by (simp add: filled_def)
  from ReadWords_filled [OF this, of "Bits x"]
  have "filled n (\<bar>x\<bar> mod 256 ^ n) ?st" by (simp add: words_value_Bits)
  then show ?thesis
    by (auto simp: ReadBits_def filled_def SetBytes_append)
qed

lemma length_nat_bytes: "256 ^ k \<le> n \<Longrightarrow> k < length (nat_bytes n)"
proof (induction k arbitrary: n)
  case 0
  then show ?case by (simp add: nat_bytes.simps)
next
  case (Suc k)
  then have "0 < n" "256 ^ k \<le> n div 256"
    using zero_less_power [of "256 :: nat" "Suc k"] by (linarith, simp add: less_eq_div_iff_mult_less_eq mult.commute)
  with Suc.IH show ?case by (simp add: nat_bytes.simps [of n])
qed

lemma PaddedBigBytes_correct:
  "SetBytes (PaddedBigBytes x n) = \<bar>x\<bar> \<and> n \<le> length (PaddedBigBytes x n)"
proof (cases "BitLen x div 8 \<ge> n")
  case True
  have "n \<le> length (Bytes x)"
  proof (cases n)
    case (Suc m)
    with True have "8 * m < BitLen x" by simp
    then have "2 ^ (8 * m) \<le> \<bar>x\<bar>" by (simp add: BitLen_gt_iff)
    then have "256 ^ m \<le> nat \<bar>x\<bar>" by (simp add: power_mult nat_le_iff le_nat_iff)
    then show ?thesis using Suc length_nat_bytes by (simp add: Bytes_def Suc_le_eq)
  qed simp
  with True show ?thesis by (simp add: PaddedBigBytes_def SetBytes_Bytes)
next
  case False
  then have "BitLen x \<le> 8 * n" by simp
  then have "\<bar>x\<bar> < 256 ^ n" by (simp add: BitLen_le_iff power_mult)
  with False show ?thesis by (simp add: PaddedBigBytes_def ReadBits_value)
qed

section \<open>Fixed-size arrays\<close>

lemma length_BytesToN [simp]: "length (BytesToN S b) = S"
  by (simp add: BytesToN_def N_SetBytes_def Let_def)

lemma length_BigToN [simp]: "length (BigToN S x) = S"
  by (simp add: BigToN_def)

lemma BytesToN_id: "length h = S \<Longrightarrow> BytesToN S h = h"
  by (simp add: BytesToN_def N_SetBytes_def)

lemma SetBytes_drop_mod: "SetBytes (drop k b) = SetBytes b mod 256 ^ (length b - k)"
proof (cases "k \<le> length b")
  case True
  have "SetBytes b = SetBytes (take k b) * 256 ^ (length b - k) + SetBytes (drop k b)"
    using SetBytes_append [of "take k b" "drop k b"] by simp
  moreover have "SetBytes (drop k b) < 256 ^ (length b - k)"
    using SetBytes_bound [of "drop k b"] by simp
  ultimately show ?thesis by simp
qed simp

lemma N_Big_BytesToN: "N_Big (BytesToN S b) = SetBytes b mod 256 ^ S"
proof (cases "length b > S")
  case True
  then show ?thesis
    by (simp add: N_Big_def BytesToN_def N_SetBytes_def SetBytes_drop_mod)
next
  case False
  then have "SetBytes b < 256 ^ S"
    using SetBytes_bound [of b] power_increasing [of "length b" S "256 :: int"] by linarith
  with False show ?thesis
    by (simp add: N_Big_def BytesToN_def N_SetBytes_def SetBytes_append)
qed

lemma N_Big_BigToN: "N_Big (BigToN S x) = \<bar>x\<bar> mod 256 ^ S"
  by (simp add: BigToN_def N_Big_BytesToN SetBytes_Bytes)

section \<open>Byte extraction\<close>

lemma nat_words_0 [simp]: "nat_words 0 = []"
  by (simp add: nat_words.simps)

lemma nth_nat_words:
  "i < length (nat_words n) \<Longrightarrow> unat (nat_words n ! i) = n div 2 ^ (64 * i) mod 2 ^ 64"
  "length (nat_words n) \<le> i \<Longrightarrow> n div 2 ^ (64 * i) = 0"
proof (induction n arbitrary: i rule: nat_words.induct)
  case (1 n)
  {
    case 1
    then have n: "n \<noteq> 0" by (cases "n = 0") auto
    show ?case
    proof (cases i)
      case 0
      with n show ?thesis by (simp add: nat_words.simps [of n] unsigned_of_nat take_bit_eq_mod)
    next
      case (Suc j)
      with "1" n have "unat (nat_words (n div 2 ^ 64) ! j) = n div 2 ^ 64 div 2 ^ (64 * j) mod 2 ^ 64"
        using "1.IH"(1) [OF n, of j] by (simp add: nat_words.simps [of n])
      with Suc n show ?thesis
        by (simp add: nat_words.simps [of n] power_add flip: div_mult2_eq)
    qed
  next
    case 2
    show ?case
    proof (cases "n = 0")
      case False
      with 2 obtain j where j: "i = Suc j" "length (nat_words (n div 2 ^ 64)) \<le> j"
        by (cases i) (auto simp: nat_words.simps [of n])
      from "1.IH"(2) [OF False j(2)] show ?thesis
        by (simp add: j(1) power_add flip: div_mult2_eq)
    qed simp
  }
qed

lemma byte_of_word_nat:
  assumes "k < 8"
  shows "(a :: nat) mod 2 ^ 64 div 2 ^ (8 * k) mod 256 = a div 2 ^ (8 * k) mod 256"
proof -
  have "take_bit 8 (drop_bit (8 * k) (take_bit 64 a)) = take_bit 8 (drop_bit (8 * k) a)"
    using assms by (simp add: drop_bit_take_bit)
  then show ?thesis by (simp add: take_bit_eq_mod drop_bit_eq_div)
qed

lemma unat_drop_bit: "unat (drop_bit k (w :: uint64)) = unat w div 2 ^ k"
  unfolding unsigned_drop_bit_eq
  using unat_lt64 [of w] by (simp add: drop_bit_eq_div take_bit_nat_eq_self)

lemma bigEndianByteAt_nat: "unat (bigEndianByteAt x n) = nat \<bar>x\<bar> div 256 ^ n mod 256"
proof -
  let ?m = "nat \<bar>x\<bar>" and ?i = "n div 8" and ?r = "n mod 8"
  have "8 * n = 64 * ?i + 8 * ?r" by presburger
  then have "(2 :: nat) ^ (8 * n) = 2 ^ (64 * ?i) * 2 ^ (8 * ?r)" by (metis power_add)
  then have n: "(256 :: nat) ^ n = 2 ^ (64 * ?i) * 2 ^ (8 * ?r)" by (simp add: power_mult)
  show ?thesis
  proof (cases "?i < length (nat_words ?m)")
    case True
    have "unat (bigEndianByteAt x n) = unat (nat_words ?m ! ?i) div 2 ^ (8 * ?r) mod 256"
      using True
      by (simp add: bigEndianByteAt_def Bits_def unsigned_ucast_eq unat_drop_bit take_bit_eq_mod)
    also have "\<dots> = ?m div 2 ^ (64 * ?i) div 2 ^ (8 * ?r) mod 256"
      unfolding nth_nat_words(1) [OF True] by (rule byte_of_word_nat) simp
    finally show ?thesis unfolding n by (simp only: div_mult2_eq)
  next
    case False
    then show ?thesis
      using nth_nat_words(2) [of ?m ?i] by (simp add: bigEndianByteAt_def Bits_def n div_mult2_eq)
  qed
qed

lemma Byte_nat:
  "n < padlength \<Longrightarrow> unat (Byte x padlength n) = nat \<bar>x\<bar> div 256 ^ (padlength - 1 - n) mod 256"
  by (simp add: Byte_def bigEndianByteAt_nat)

end
