(* ===== verification/ChainParams.thy ===== *)
theory ChainParams
  imports CommonLib
begin

text \<open>
  The package \<^verbatim>\<open>params\<close>: the protocol constants the virtual machine charges by, the gas tables
  of the three price phases, and the chain configuration with its fork rules and the check that
  a stored configuration may be replaced by a new one.
\<close>

section \<open>params/protocol\_params.go\<close>

abbreviation (input) CallValueTransferGas :: uint64 where "CallValueTransferGas \<equiv> 9000"
abbreviation (input) CallNewAccountGas :: uint64 where "CallNewAccountGas \<equiv> 25000"
abbreviation (input) TxGas :: uint64 where "TxGas \<equiv> 21000"
abbreviation (input) TxGasContractCreation :: uint64 where "TxGasContractCreation \<equiv> 53000"
abbreviation (input) TxDataZeroGas :: uint64 where "TxDataZeroGas \<equiv> 4"
abbreviation (input) TxDataNonZeroGas :: uint64 where "TxDataNonZeroGas \<equiv> 68"
abbreviation (input) QuadCoeffDiv :: uint64 where "QuadCoeffDiv \<equiv> 512"
abbreviation (input) SstoreSetGas :: uint64 where "SstoreSetGas \<equiv> 20000"
abbreviation (input) SstoreResetGas :: uint64 where "SstoreResetGas \<equiv> 5000"
abbreviation (input) SstoreClearGas :: uint64 where "SstoreClearGas \<equiv> 5000"
abbreviation (input) SstoreRefundGas :: uint64 where "SstoreRefundGas \<equiv> 15000"
abbreviation (input) SuicideRefundGas :: uint64 where "SuicideRefundGas \<equiv> 24000"
abbreviation (input) LogGas :: uint64 where "LogGas \<equiv> 375"
abbreviation (input) LogTopicGas :: uint64 where "LogTopicGas \<equiv> 375"
abbreviation (input) LogDataGas :: uint64 where "LogDataGas \<equiv> 8"
abbreviation (input) CallStipend :: uint64 where "CallStipend \<equiv> 2300"
abbreviation (input) Sha3Gas :: uint64 where "Sha3Gas \<equiv> 30"
abbreviation (input) Sha3WordGas :: uint64 where "Sha3WordGas \<equiv> 6"
abbreviation (input) JumpdestGas :: uint64 where "JumpdestGas \<equiv> 1"
abbreviation (input) CreateDataGas :: uint64 where "CreateDataGas \<equiv> 200"
abbreviation (input) CreateGas :: uint64 where "CreateGas \<equiv> 32000"
abbreviation (input) CopyGas :: uint64 where "CopyGas \<equiv> 3"
abbreviation (input) MemoryGas :: uint64 where "MemoryGas \<equiv> 3"
abbreviation (input) StackLimit :: nat where "StackLimit \<equiv> 1024"
abbreviation (input) CallCreateDepth :: int where "CallCreateDepth \<equiv> 1024"
abbreviation (input) MaxCodeSize :: nat where "MaxCodeSize \<equiv> 24576"
abbreviation (input) EcrecoverGas :: uint64 where "EcrecoverGas \<equiv> 3000"
abbreviation (input) Sha256BaseGas :: uint64 where "Sha256BaseGas \<equiv> 60"
abbreviation (input) Sha256PerWordGas :: uint64 where "Sha256PerWordGas \<equiv> 12"
abbreviation (input) Ripemd160BaseGas :: uint64 where "Ripemd160BaseGas \<equiv> 600"
abbreviation (input) Ripemd160PerWordGas :: uint64 where "Ripemd160PerWordGas \<equiv> 120"
abbreviation (input) IdentityBaseGas :: uint64 where "IdentityBaseGas \<equiv> 15"
abbreviation (input) IdentityPerWordGas :: uint64 where "IdentityPerWordGas \<equiv> 3"
abbreviation (input) ModExpQuadCoeffDiv :: uint64 where "ModExpQuadCoeffDiv \<equiv> 20"
abbreviation (input) Bn256AddGas :: uint64 where "Bn256AddGas \<equiv> 500"
abbreviation (input) Bn256ScalarMulGas :: uint64 where "Bn256ScalarMulGas \<equiv> 40000"
abbreviation (input) Bn256PairingBaseGas :: uint64 where "Bn256PairingBaseGas \<equiv> 100000"
abbreviation (input) Bn256PairingPerPointGas :: uint64 where "Bn256PairingPerPointGas \<equiv> 80000"

section \<open>params/gas\_table.go\<close>

record GasTable =
  ExtcodeSize :: uint64
  ExtcodeCopy :: uint64
  gt_Balance :: uint64
  SLoad :: uint64
  Calls :: uint64
  gt_Suicide :: uint64
  ExpByte :: uint64
  CreateBySuicide :: uint64

definition GasTableHomestead :: GasTable where
  "GasTableHomestead = \<lparr>ExtcodeSize = 20, ExtcodeCopy = 20, gt_Balance = 20, SLoad = 50, Calls = 40,
     gt_Suicide = 0, ExpByte = 10, CreateBySuicide = 0\<rparr>"

definition GasTableEIP150 :: GasTable where
  "GasTableEIP150 = \<lparr>ExtcodeSize = 700, ExtcodeCopy = 700, gt_Balance = 400, SLoad = 200, Calls = 700,
     gt_Suicide = 5000, ExpByte = 10, CreateBySuicide = 25000\<rparr>"

definition GasTableEIP158 :: GasTable where
  "GasTableEIP158 = \<lparr>ExtcodeSize = 700, ExtcodeCopy = 700, gt_Balance = 400, SLoad = 200, Calls = 700,
     gt_Suicide = 5000, ExpByte = 50, CreateBySuicide = 25000\<rparr>"

section \<open>params/config.go\<close>

text \<open>A nil block number is \<open>None\<close>: the fork is not scheduled.\<close>

record ChainConfig =
  ChainId :: "int option"
  HomesteadBlock :: "int option"
  DAOForkBlock :: "int option"
  DAOForkSupport :: bool
  EIP150Block :: "int option"
  EIP150Hash :: Hash
  EIP155Block :: "int option"
  EIP158Block :: "int option"
  ByzantiumBlock :: "int option"

fun isForked :: "int option \<Rightarrow> int option \<Rightarrow> bool" where
  "isForked (Some s) (Some head) = (s \<le> head)"
| "isForked _ _ = False"

fun configNumEqual :: "int option \<Rightarrow> int option \<Rightarrow> bool" where
  "configNumEqual None y = (y = None)"
| "configNumEqual (Some x) None = False"
| "configNumEqual (Some x) (Some y) = (x = y)"

definition isForkIncompatible :: "int option \<Rightarrow> int option \<Rightarrow> int option \<Rightarrow> bool" where
  "isForkIncompatible s1 s2 head = ((isForked s1 head \<or> isForked s2 head) \<and> \<not> configNumEqual s1 s2)"

definition IsHomestead :: "ChainConfig \<Rightarrow> int option \<Rightarrow> bool" where
  "IsHomestead c num = isForked (HomesteadBlock c) num"
definition IsDAOFork :: "ChainConfig \<Rightarrow> int option \<Rightarrow> bool" where
  "IsDAOFork c num = isForked (DAOForkBlock c) num"
definition IsEIP150 :: "ChainConfig \<Rightarrow> int option \<Rightarrow> bool" where
  "IsEIP150 c num = isForked (EIP150Block c) num"
definition IsEIP155 :: "ChainConfig \<Rightarrow> int option \<Rightarrow> bool" where
  "IsEIP155 c num = isForked (EIP155Block c) num"
definition IsEIP158 :: "ChainConfig \<Rightarrow> int option \<Rightarrow> bool" where
  "IsEIP158 c num = isForked (EIP158Block c) num"
definition IsByzantium :: "ChainConfig \<Rightarrow> int option \<Rightarrow> bool" where
  "IsByzantium c num = isForked (ByzantiumBlock c) num"

definition chainGasTable :: "ChainConfig \<Rightarrow> int option \<Rightarrow> GasTable" where
  "chainGasTable c num =
     (if num = None then GasTableHomestead
      else if IsEIP158 c num then GasTableEIP158
      else if IsEIP150 c num then GasTableEIP150
      else GasTableHomestead)"

record Rules =
  r_ChainId :: int
  r_IsHomestead :: bool
  r_IsEIP150 :: bool
  r_IsEIP155 :: bool
  r_IsEIP158 :: bool
  r_IsByzantium :: bool

definition configRules :: "ChainConfig \<Rightarrow> int option \<Rightarrow> Rules" where
  "configRules c num =
     \<lparr>r_ChainId = (case ChainId c of None \<Rightarrow> 0 | Some i \<Rightarrow> i),
      r_IsHomestead = IsHomestead c num, r_IsEIP150 = IsEIP150 c num, r_IsEIP155 = IsEIP155 c num,
      r_IsEIP158 = IsEIP158 c num, r_IsByzantium = IsByzantium c num\<rparr>"

record ConfigCompatError =
  What :: string
  StoredConfig :: "int option"
  NewConfig :: "int option"
  RewindTo :: uint64

definition compatRewind :: "int option \<Rightarrow> int option \<Rightarrow> int option" where
  "compatRewind storedblock newblock =
     (case storedblock of
        None \<Rightarrow> newblock
      | Some s \<Rightarrow> (case newblock of None \<Rightarrow> storedblock
                      | Some n \<Rightarrow> if s < n then storedblock else newblock))"

definition newCompatError :: "string \<Rightarrow> int option \<Rightarrow> int option \<Rightarrow> ConfigCompatError" where
  "newCompatError what storedblock newblock =
     \<lparr>What = what, StoredConfig = storedblock, NewConfig = newblock,
      RewindTo = (case compatRewind storedblock newblock of
                    None \<Rightarrow> 0 | Some r \<Rightarrow> if 0 < r then Uint64 r - 1 else 0)\<rparr>"

definition checkCompatible :: "ChainConfig \<Rightarrow> ChainConfig \<Rightarrow> int \<Rightarrow> ConfigCompatError option" where
  "checkCompatible c newcfg h =
     (let head = Some h in
      if isForkIncompatible (HomesteadBlock c) (HomesteadBlock newcfg) head
      then Some (newCompatError ''Homestead fork block'' (HomesteadBlock c) (HomesteadBlock newcfg))
      else if isForkIncompatible (DAOForkBlock c) (DAOForkBlock newcfg) head
      then Some (newCompatError ''DAO fork block'' (DAOForkBlock c) (DAOForkBlock newcfg))
      else if IsDAOFork c head \<and> DAOForkSupport c \<noteq> DAOForkSupport newcfg
      then Some (newCompatError ''DAO fork support flag'' (DAOForkBlock c) (DAOForkBlock newcfg))
      else if isForkIncompatible (EIP150Block c) (EIP150Block newcfg) head
      then Some (newCompatError ''EIP150 fork block'' (EIP150Block c) (EIP150Block newcfg))
      else if isForkIncompatible (EIP155Block c) (EIP155Block newcfg) head
      then Some (newCompatError ''EIP155 fork block'' (EIP155Block c) (EIP155Block newcfg))
      else if isForkIncompatible (EIP158Block c) (EIP158Block newcfg) head
      then Some (newCompatError ''EIP158 fork block'' (EIP158Block c) (EIP158Block newcfg))
      else if IsEIP158 c head \<and> \<not> configNumEqual (ChainId c) (ChainId newcfg)
      then Some (newCompatError ''EIP158 chain ID'' (EIP158Block c) (EIP158Block newcfg))
      else if isForkIncompatible (ByzantiumBlock c) (ByzantiumBlock newcfg) head
      then Some (newCompatError ''Byzantium fork block'' (ByzantiumBlock c) (ByzantiumBlock newcfg))
      else None)"

text \<open>
  An incompatibility found at \<open>head\<close> asks for a rewind below it, or to the genesis block.
\<close>

lemma newCompatError_rewind:
  fixes h :: uint64
  assumes "isForked s1 (Some (uint h)) \<or> isForked s2 (Some (uint h))"
  shows "unat (RewindTo (newCompatError w s1 s2)) < unat h \<or> RewindTo (newCompatError w s1 s2) = 0"
proof -
  have *: "unat (Uint64 r - 1) < unat h" if "0 < r" "r \<le> uint h" for r
  proof -
    have r: "uint (Uint64 r) = r" using that uint_lt2p [of h] by (intro uint_Uint64) auto
    then have "unat (Uint64 r - 1) = unat (Uint64 r) - 1"
      using that by (intro unat_minus_one) (auto simp: word_uint_eq_iff)
    moreover have "unat (Uint64 r) \<le> unat h" "0 < unat (Uint64 r)"
      using that r by (simp_all only: unat_eq_nat_uint nat_le_eq_zle zero_less_nat_eq)
    ultimately show ?thesis by simp
  qed
  from assms obtain r where "compatRewind s1 s2 = Some r" "r \<le> uint h"
    by (cases s1; cases s2; cases "the s1 < the s2") (auto simp: compatRewind_def)
  then show ?thesis by (simp add: newCompatError_def *)
qed

lemma checkCompatible_rewind:
  fixes h :: uint64
  assumes "checkCompatible c newcfg (uint h) = Some err"
  shows "unat (RewindTo err) < unat h \<or> RewindTo err = 0"
proof -
  have "\<exists>w s1 s2. err = newCompatError w s1 s2 \<and>
      (isForked s1 (Some (uint h)) \<or> isForked s2 (Some (uint h)))"
    using assms
    by (auto simp: checkCompatible_def Let_def isForkIncompatible_def IsDAOFork_def IsEIP158_def
        split: if_splits)
  then show ?thesis using newCompatError_rewind by blast
qed

text \<open>
  The loop of \<^verbatim>\<open>CheckCompatible\<close>. \<open>bhead\<close> only ever holds the height or a \<^verbatim>\<open>RewindTo\<close> value, so it
  stays a \<^verbatim>\<open>uint64\<close>.
\<close>

function CheckCompatibleLoop ::
  "ChainConfig \<Rightarrow> ChainConfig \<Rightarrow> uint64 \<Rightarrow> ConfigCompatError option \<Rightarrow> ConfigCompatError option" where
  "CheckCompatibleLoop c newcfg bhead lasterr =
     (case checkCompatible c newcfg (uint bhead) of
        None \<Rightarrow> lasterr
      | Some err \<Rightarrow>
          (if (case lasterr of None \<Rightarrow> False | Some l \<Rightarrow> RewindTo err = RewindTo l) then lasterr
           else CheckCompatibleLoop c newcfg (RewindTo err) (Some err)))"
  by pat_completeness auto
termination
proof (relation "measure (\<lambda>(c, n, bhead, lasterr). 2 * unat bhead +
    (case lasterr of None \<Rightarrow> 1 | Some l \<Rightarrow> if RewindTo l = bhead then 0 else 1))", goal_cases)
  case (2 c newcfg bhead lasterr err)
  from checkCompatible_rewind [OF 2(1)] 2(2) show ?case
    by (auto simp: unat_gt_0 split: option.splits)
qed simp

declare CheckCompatibleLoop.simps [simp del]

definition CheckCompatible :: "ChainConfig \<Rightarrow> ChainConfig \<Rightarrow> uint64 \<Rightarrow> ConfigCompatError option" where
  "CheckCompatible c newcfg height = CheckCompatibleLoop c newcfg height None"

lemma CheckCompatibleLoop_fixpoint:
  "CheckCompatibleLoop c newcfg bhead lasterr = Some e \<Longrightarrow>
   (\<forall>l. lasterr = Some l \<longrightarrow> RewindTo l = bhead) \<Longrightarrow>
   case checkCompatible c newcfg (uint (RewindTo e)) of
     None \<Rightarrow> True | Some e' \<Rightarrow> RewindTo e' = RewindTo e"
proof (induction c newcfg bhead lasterr rule: CheckCompatibleLoop.induct)
  case (1 c newcfg bhead lasterr)
  show ?case
  proof (cases "checkCompatible c newcfg (uint bhead)")
    case None
    with "1.prems" show ?thesis by (simp add: CheckCompatibleLoop.simps [of c newcfg bhead lasterr])
  next
    case (Some err)
    show ?thesis
    proof (cases "\<exists>l. lasterr = Some l \<and> RewindTo err = RewindTo l")
      case True
      with Some "1.prems" show ?thesis
        by (auto simp: CheckCompatibleLoop.simps [of c newcfg bhead lasterr])
    next
      case False
      then have new: "\<not> (case lasterr of None \<Rightarrow> False | Some l \<Rightarrow> RewindTo err = RewindTo l)"
        by (auto split: option.splits)
      with "1.prems"(1) Some have "CheckCompatibleLoop c newcfg (RewindTo err) (Some err) = Some e"
        by (simp add: CheckCompatibleLoop.simps [of c newcfg bhead lasterr])
      from "1.IH" [OF Some new this] show ?thesis by simp
    qed
  qed
qed

lemma CheckCompatibleLoop_None:
  "CheckCompatibleLoop c newcfg bhead lasterr = None \<longleftrightarrow>
   lasterr = None \<and> checkCompatible c newcfg (uint bhead) = None"
proof (induction c newcfg bhead lasterr rule: CheckCompatibleLoop.induct)
  case (1 c newcfg bhead lasterr)
  then show ?case
    by (auto simp: CheckCompatibleLoop.simps [of c newcfg bhead lasterr] split: option.splits)
qed

end
