(* ===== verification/WorldState.thy ===== *)
theory WorldState
  imports ChainParams
begin

text \<open>
  The package \<^verbatim>\<open>core/state\<close>: state objects, the change journal and the journalled state database.
  A \<^verbatim>\<open>*stateObject\<close> is only reached through the map \<^verbatim>\<open>stateObjects\<close>, so an object method takes the
  object and the database and returns both, and its caller writes the object back. A callback
  \<^verbatim>\<open>onDirty\<close> is always \<^verbatim>\<open>MarkStateObjectDirty\<close> of the owning database, so only whether it is still
  set is kept. What the package takes from other code (Keccak, the database behind the tries, RLP,
  the length of an address) is the record \<open>Ext\<close>.
\<close>

section \<open>Code outside the package\<close>

type_synonym dberror = string

text \<open>A \<^verbatim>\<open>Trie\<close> is seen through \<^verbatim>\<open>TryGet\<close>.\<close>

type_synonym Trie = "bytes \<Rightarrow> bytes \<times> dberror option"

record Account =
  Nonce :: uint64
  Balance :: int
  Root :: Hash
  CodeHash :: bytes

record Ext =
  AddressLength :: nat
  Keccak256 :: "bytes \<Rightarrow> bytes"
  DbOpenTrie :: "Hash \<Rightarrow> dberror + Trie"
  DbOpenStorageTrie :: "Hash \<Rightarrow> Hash \<Rightarrow> dberror + Trie"
  ContractCode :: "Hash \<Rightarrow> Hash \<Rightarrow> bytes \<times> dberror option"
  TryUpdate :: "Trie \<Rightarrow> bytes \<Rightarrow> bytes \<Rightarrow> Trie \<times> dberror option"
  TryDelete :: "Trie \<Rightarrow> bytes \<Rightarrow> Trie \<times> dberror option"
  TrieHash :: "Trie \<Rightarrow> Hash"
  encodeAccount :: "Account \<Rightarrow> bytes"
  decodeAccount :: "bytes \<Rightarrow> Account option"
  rlpSplit :: "bytes \<Rightarrow> bytes \<times> dberror option"
  rlpEncodeBytes :: "bytes \<Rightarrow> bytes"

abbreviation BytesToAddress :: "Ext \<Rightarrow> bytes \<Rightarrow> Address" where
  "BytesToAddress X \<equiv> BytesToN (AddressLength X)"

abbreviation BigToAddress :: "Ext \<Rightarrow> int \<Rightarrow> Address" where
  "BigToAddress X \<equiv> BigToN (AddressLength X)"

definition emptyCodeHash :: "Ext \<Rightarrow> bytes" where
  "emptyCodeHash X = Keccak256 X []"

text \<open>Opening a trie at the zero root reads nothing from the database and cannot fail.\<close>

definition emptyTrie :: Trie where
  "emptyTrie = (\<lambda>key. ([], None))"

definition OpenStorageTrie :: "Ext \<Rightarrow> Hash \<Rightarrow> Hash \<Rightarrow> dberror + Trie" where
  "OpenStorageTrie X addrHash root =
     (if root = zeroHash then Inr emptyTrie else DbOpenStorageTrie X addrHash root)"

definition ContractCodeSize :: "Ext \<Rightarrow> Hash \<Rightarrow> Hash \<Rightarrow> int \<times> dberror option" where
  "ContractCodeSize X addrHash codeHash =
     (case ContractCode X addrHash codeHash of (code, err) \<Rightarrow> (int (length code), err))"

section \<open>Data\<close>

record Log =
  lg_Address :: Address
  lg_Topics :: "Hash list"
  lg_Data :: bytes
  lg_BlockNumber :: uint64
  lg_TxHash :: Hash
  lg_TxIndex :: uint64
  lg_BlockHash :: Hash
  lg_Index :: uint64
  lg_Removed :: bool

type_synonym Storage = "Hash \<rightharpoonup> Hash"

record stateObject =
  so_address :: Address
  so_addrHash :: Hash
  so_data :: Account
  so_dbErr :: "dberror option"
  so_trie :: "Trie option"
  so_code :: "bytes option"
  cachedStorage :: Storage
  dirtyStorage :: Storage
  dirtyCode :: bool
  suicided :: bool
  touched :: bool
  deleted :: bool
  onDirty :: bool

datatype journalEntry =
    CreateObjectChange Address
  | ResetObjectChange stateObject
  | SuicideChange Address bool int
  | BalanceChange Address int
  | NonceChange Address uint64
  | StorageChange Address Hash Hash
  | CodeChange Address "bytes option" bytes
  | RefundChange int
  | AddLogChange Hash
  | AddPreimageChange Hash
  | TouchChange Address bool bool

record revision =
  rev_id :: nat
  journalIndex :: nat

record StateDB =
  sd_trie :: Trie
  stateObjects :: "Address \<rightharpoonup> stateObject"
  stateObjectsDirty :: "Address set"
  sd_dbErr :: "dberror option"
  refund :: int
  thash :: Hash
  bhash :: Hash
  txIndex :: int
  logs :: "Hash \<rightharpoonup> Log list"
  logSize :: uint64
  preimages :: "Hash \<rightharpoonup> bytes"
  journal :: "journalEntry list"
  validRevisions :: "revision list"
  nextRevisionId :: nat

section \<open>state\_object.go\<close>

text \<open>\<^verbatim>\<open>Account{}\<close> with the defaults that \<^verbatim>\<open>newObject\<close> fills in for nil fields.\<close>

definition zeroAccount :: "Ext \<Rightarrow> Account" where
  "zeroAccount X = \<lparr>Nonce = 0, Balance = 0, Root = zeroHash, CodeHash = emptyCodeHash X\<rparr>"

definition newObject :: "Ext \<Rightarrow> Address \<Rightarrow> Account \<Rightarrow> stateObject" where
  "newObject X address data =
     \<lparr>so_address = address, so_addrHash = Keccak256 X address, so_data = data, so_dbErr = None,
      so_trie = None, so_code = None, cachedStorage = Map.empty, dirtyStorage = Map.empty,
      dirtyCode = False, suicided = False, touched = False, deleted = False, onDirty = True\<rparr>"

definition so_empty :: "Ext \<Rightarrow> stateObject \<Rightarrow> bool" where
  "so_empty X s \<longleftrightarrow> Nonce (so_data s) = 0 \<and> Balance (so_data s) = 0 \<and>
     CodeHash (so_data s) = emptyCodeHash X"

definition so_setError :: "stateObject \<Rightarrow> dberror option \<Rightarrow> stateObject" where
  "so_setError self err = (if so_dbErr self = None then self\<lparr>so_dbErr := err\<rparr> else self)"

text \<open>\<open>if onDirty != nil { onDirty(Address()); onDirty = nil }\<close>\<close>

definition callOnDirty :: "StateDB \<Rightarrow> stateObject \<Rightarrow> StateDB \<times> stateObject" where
  "callOnDirty s self =
     (if onDirty self
      then (s\<lparr>stateObjectsDirty := insert (so_address self) (stateObjectsDirty s)\<rparr>, self\<lparr>onDirty := False\<rparr>)
      else (s, self))"

definition journalAppend :: "StateDB \<Rightarrow> journalEntry \<Rightarrow> StateDB" where
  "journalAppend s e = s\<lparr>journal := journal s @ [e]\<rparr>"

definition markSuicided :: "StateDB \<Rightarrow> stateObject \<Rightarrow> StateDB \<times> stateObject" where
  "markSuicided s self = callOnDirty s (self\<lparr>suicided := True\<rparr>)"

definition so_touch :: "StateDB \<Rightarrow> stateObject \<Rightarrow> StateDB \<times> stateObject" where
  "so_touch s c =
     (case callOnDirty (journalAppend s (TouchChange (so_address c) (touched c) (\<not> onDirty c))) c of
        (s', c') \<Rightarrow> (s', c'\<lparr>touched := True\<rparr>))"

definition so_getTrie :: "Ext \<Rightarrow> stateObject \<Rightarrow> Trie \<times> stateObject" where
  "so_getTrie X c =
     (case so_trie c of
        Some t \<Rightarrow> (t, c)
      | None \<Rightarrow>
          (case OpenStorageTrie X (so_addrHash c) (Root (so_data c)) of
             Inr t \<Rightarrow> (t, c\<lparr>so_trie := Some t\<rparr>)
           | Inl err \<Rightarrow>
               (emptyTrie, so_setError (c\<lparr>so_trie := Some emptyTrie\<rparr>) (Some err))))"

definition so_GetState :: "Ext \<Rightarrow> stateObject \<Rightarrow> Hash \<Rightarrow> Hash \<times> stateObject" where
  "so_GetState X self key =
     (case cachedStorage self key of
        Some value \<Rightarrow> (value, self)
      | None \<Rightarrow>
          (case so_getTrie X self of (t, self1) \<Rightarrow>
           (case t key of (enc, err) \<Rightarrow>
              if err \<noteq> None then (zeroHash, so_setError self1 err)
              else
                (let (value, self2) =
                   (if 0 < length enc
                    then (case rlpSplit X enc of (content, err') \<Rightarrow>
                           (N_SetBytes 32 zeroHash content,
                            if err' \<noteq> None then so_setError self1 err' else self1))
                    else (zeroHash, self1))
                 in (value,
                     if value \<noteq> zeroHash
                     then self2\<lparr>cachedStorage := (cachedStorage self2)(key \<mapsto> value)\<rparr>
                     else self2)))))"

definition so_setState :: "StateDB \<Rightarrow> stateObject \<Rightarrow> Hash \<Rightarrow> Hash \<Rightarrow> StateDB \<times> stateObject" where
  "so_setState s self key value =
     callOnDirty s (self\<lparr>cachedStorage := (cachedStorage self)(key \<mapsto> value),
                         dirtyStorage := (dirtyStorage self)(key \<mapsto> value)\<rparr>)"

definition so_SetState ::
  "Ext \<Rightarrow> StateDB \<Rightarrow> stateObject \<Rightarrow> Hash \<Rightarrow> Hash \<Rightarrow> StateDB \<times> stateObject" where
  "so_SetState X s self key value =
     (case so_GetState X self key of (prev, self1) \<Rightarrow>
        so_setState (journalAppend s (StorageChange (so_address self) key prev)) self1 key value)"

text \<open>
  \<^verbatim>\<open>updateTrie\<close> ranges over the map \<^verbatim>\<open>dirtyStorage\<close>; \<open>keys\<close> is the order Go picks.
\<close>

fun so_updateTrieLoop :: "Ext \<Rightarrow> Hash list \<Rightarrow> Trie \<Rightarrow> stateObject \<Rightarrow> Trie \<times> stateObject" where
  "so_updateTrieLoop X [] tr self = (tr, self)"
| "so_updateTrieLoop X (key # keys) tr self =
     (case dirtyStorage self key of
        None \<Rightarrow> so_updateTrieLoop X keys tr self
      | Some value \<Rightarrow>
          (let self1 = self\<lparr>dirtyStorage := (dirtyStorage self)(key := None)\<rparr>;
               (tr1, err) =
                 (if value = zeroHash then TryDelete X tr key
                  else TryUpdate X tr key (rlpEncodeBytes X (dropWhile (\<lambda>b. b = 0) value)))
           in so_updateTrieLoop X keys tr1 (so_setError self1 err)))"

definition so_updateTrie :: "Ext \<Rightarrow> Hash list \<Rightarrow> stateObject \<Rightarrow> stateObject" where
  "so_updateTrie X keys self =
     (case so_getTrie X self of (tr, self1) \<Rightarrow>
      (case so_updateTrieLoop X keys tr self1 of (tr', self2) \<Rightarrow> self2\<lparr>so_trie := Some tr'\<rparr>))"

definition so_updateRoot :: "Ext \<Rightarrow> Hash list \<Rightarrow> stateObject \<Rightarrow> stateObject" where
  "so_updateRoot X keys self =
     (let self1 = so_updateTrie X keys self
      in self1\<lparr>so_data := (so_data self1)\<lparr>Root :=
           TrieHash X (case so_trie self1 of Some t \<Rightarrow> t | None \<Rightarrow> emptyTrie)\<rparr>\<rparr>)"

definition so_setBalance :: "StateDB \<Rightarrow> stateObject \<Rightarrow> int \<Rightarrow> StateDB \<times> stateObject" where
  "so_setBalance s self amount = callOnDirty s (self\<lparr>so_data := (so_data self)\<lparr>Balance := amount\<rparr>\<rparr>)"

definition so_SetBalance :: "StateDB \<Rightarrow> stateObject \<Rightarrow> int \<Rightarrow> StateDB \<times> stateObject" where
  "so_SetBalance s self amount =
     so_setBalance (journalAppend s (BalanceChange (so_address self) (Balance (so_data self)))) self amount"

definition so_AddBalance :: "Ext \<Rightarrow> StateDB \<Rightarrow> stateObject \<Rightarrow> int \<Rightarrow> StateDB \<times> stateObject" where
  "so_AddBalance X s c amount =
     (if amount = 0 then (if so_empty X c then so_touch s c else (s, c))
      else so_SetBalance s c (Balance (so_data c) + amount))"

definition so_SubBalance :: "StateDB \<Rightarrow> stateObject \<Rightarrow> int \<Rightarrow> StateDB \<times> stateObject" where
  "so_SubBalance s c amount =
     (if amount = 0 then (s, c) else so_SetBalance s c (Balance (so_data c) - amount))"

definition so_Code :: "Ext \<Rightarrow> stateObject \<Rightarrow> bytes option \<times> stateObject" where
  "so_Code X self =
     (case so_code self of
        Some c \<Rightarrow> (Some c, self)
      | None \<Rightarrow>
          (if CodeHash (so_data self) = emptyCodeHash X then (None, self)
           else (case ContractCode X (so_addrHash self) (BytesToHash (CodeHash (so_data self))) of
                   (code, None) \<Rightarrow> (Some code, self\<lparr>so_code := Some code\<rparr>)
                 | (code, Some err) \<Rightarrow> (None, so_setError self (Some err)))))"

definition so_setCode :: "StateDB \<Rightarrow> stateObject \<Rightarrow> Hash \<Rightarrow> bytes option \<Rightarrow> StateDB \<times> stateObject" where
  "so_setCode s self codeHash code =
     callOnDirty s (self\<lparr>so_code := code, so_data := (so_data self)\<lparr>CodeHash := codeHash\<rparr>,
                         dirtyCode := True\<rparr>)"

definition so_SetCode ::
  "Ext \<Rightarrow> StateDB \<Rightarrow> stateObject \<Rightarrow> Hash \<Rightarrow> bytes option \<Rightarrow> StateDB \<times> stateObject" where
  "so_SetCode X s self codeHash code =
     (case so_Code X self of (prevcode, self1) \<Rightarrow>
        so_setCode (journalAppend s (CodeChange (so_address self) prevcode (CodeHash (so_data self1))))
          self1 codeHash code)"

definition so_setNonce :: "StateDB \<Rightarrow> stateObject \<Rightarrow> uint64 \<Rightarrow> StateDB \<times> stateObject" where
  "so_setNonce s self nonce = callOnDirty s (self\<lparr>so_data := (so_data self)\<lparr>Nonce := nonce\<rparr>\<rparr>)"

definition so_SetNonce :: "StateDB \<Rightarrow> stateObject \<Rightarrow> uint64 \<Rightarrow> StateDB \<times> stateObject" where
  "so_SetNonce s self nonce =
     so_setNonce (journalAppend s (NonceChange (so_address self) (Nonce (so_data self)))) self nonce"

definition so_deepCopy :: "Ext \<Rightarrow> stateObject \<Rightarrow> bool \<Rightarrow> stateObject" where
  "so_deepCopy X self onDirtySet =
     (newObject X (so_address self) (so_data self))
       \<lparr>so_trie := so_trie self, so_code := so_code self, dirtyStorage := dirtyStorage self,
        cachedStorage := dirtyStorage self, suicided := suicided self,
        dirtyCode := dirtyCode self, deleted := deleted self, onDirty := onDirtySet\<rparr>"

section \<open>statedb.go: reading\<close>

definition sd_setError :: "StateDB \<Rightarrow> dberror option \<Rightarrow> StateDB" where
  "sd_setError self err = (if sd_dbErr self = None then self\<lparr>sd_dbErr := err\<rparr> else self)"

definition setStateObject :: "StateDB \<Rightarrow> stateObject \<Rightarrow> StateDB" where
  "setStateObject self obj = self\<lparr>stateObjects := (stateObjects self)(so_address obj \<mapsto> obj)\<rparr>"

definition getStateObject :: "Ext \<Rightarrow> StateDB \<Rightarrow> Address \<Rightarrow> stateObject option \<times> StateDB" where
  "getStateObject X self addr =
     (case stateObjects self addr of
        Some obj \<Rightarrow> (if deleted obj then (None, self) else (Some obj, self))
      | None \<Rightarrow>
          (case sd_trie self addr of (enc, err) \<Rightarrow>
             if length enc = 0 then (None, sd_setError self err)
             else (case decodeAccount X enc of
                     None \<Rightarrow> (None, self)
                   | Some data \<Rightarrow>
                       (let obj = newObject X addr data in (Some obj, setStateObject self obj)))))"

definition Exist :: "Ext \<Rightarrow> StateDB \<Rightarrow> Address \<Rightarrow> bool \<times> StateDB" where
  "Exist X self addr = (case getStateObject X self addr of (o', s) \<Rightarrow> (o' \<noteq> None, s))"

definition Empty :: "Ext \<Rightarrow> StateDB \<Rightarrow> Address \<Rightarrow> bool \<times> StateDB" where
  "Empty X self addr =
     (case getStateObject X self addr of
        (None, s) \<Rightarrow> (True, s) | (Some so, s) \<Rightarrow> (so_empty X so, s))"

definition GetBalance :: "Ext \<Rightarrow> StateDB \<Rightarrow> Address \<Rightarrow> int \<times> StateDB" where
  "GetBalance X self addr =
     (case getStateObject X self addr of
        (None, s) \<Rightarrow> (0, s) | (Some so, s) \<Rightarrow> (Balance (so_data so), s))"

definition GetNonce :: "Ext \<Rightarrow> StateDB \<Rightarrow> Address \<Rightarrow> uint64 \<times> StateDB" where
  "GetNonce X self addr =
     (case getStateObject X self addr of
        (None, s) \<Rightarrow> (0, s) | (Some so, s) \<Rightarrow> (Nonce (so_data so), s))"

definition GetCode :: "Ext \<Rightarrow> StateDB \<Rightarrow> Address \<Rightarrow> bytes \<times> StateDB" where
  "GetCode X self addr =
     (case getStateObject X self addr of
        (None, s) \<Rightarrow> ([], s)
      | (Some so, s) \<Rightarrow>
          (case so_Code X so of (code, so') \<Rightarrow>
             ((case code of None \<Rightarrow> [] | Some c \<Rightarrow> c), setStateObject s so')))"

definition GetCodeSize :: "Ext \<Rightarrow> StateDB \<Rightarrow> Address \<Rightarrow> int \<times> StateDB" where
  "GetCodeSize X self addr =
     (case getStateObject X self addr of
        (None, s) \<Rightarrow> (0, s)
      | (Some so, s) \<Rightarrow>
          (case so_code so of
             Some c \<Rightarrow> (int (length c), s)
           | None \<Rightarrow>
               (case ContractCodeSize X (so_addrHash so) (BytesToHash (CodeHash (so_data so))) of
                  (size', err) \<Rightarrow> (size', if err \<noteq> None then sd_setError s err else s))))"

definition GetCodeHash :: "Ext \<Rightarrow> StateDB \<Rightarrow> Address \<Rightarrow> Hash \<times> StateDB" where
  "GetCodeHash X self addr =
     (case getStateObject X self addr of
        (None, s) \<Rightarrow> (zeroHash, s) | (Some so, s) \<Rightarrow> (BytesToHash (CodeHash (so_data so)), s))"

definition GetState :: "Ext \<Rightarrow> StateDB \<Rightarrow> Address \<Rightarrow> Hash \<Rightarrow> Hash \<times> StateDB" where
  "GetState X self a b =
     (case getStateObject X self a of
        (None, s) \<Rightarrow> (zeroHash, s)
      | (Some so, s) \<Rightarrow> (case so_GetState X so b of (v, so') \<Rightarrow> (v, setStateObject s so')))"

definition HasSuicided :: "Ext \<Rightarrow> StateDB \<Rightarrow> Address \<Rightarrow> bool \<times> StateDB" where
  "HasSuicided X self addr =
     (case getStateObject X self addr of
        (None, s) \<Rightarrow> (False, s) | (Some so, s) \<Rightarrow> (suicided so, s))"

definition GetLogs :: "StateDB \<Rightarrow> Hash \<Rightarrow> Log list" where
  "GetLogs self hash = (case logs self hash of None \<Rightarrow> [] | Some l \<Rightarrow> l)"

definition GetRefund :: "StateDB \<Rightarrow> int" where
  "GetRefund self = refund self"

section \<open>statedb.go: writing\<close>

definition AddLog :: "StateDB \<Rightarrow> Log \<Rightarrow> StateDB" where
  "AddLog self log =
     (let s = journalAppend self (AddLogChange (thash self));
          log' = log\<lparr>lg_TxHash := thash s, lg_BlockHash := bhash s,
                     lg_TxIndex := word_of_int (txIndex s), lg_Index := logSize s\<rparr>
      in s\<lparr>logs := (logs s)(thash s \<mapsto> GetLogs s (thash s) @ [log']), logSize := logSize s + 1\<rparr>)"

definition AddPreimage :: "StateDB \<Rightarrow> Hash \<Rightarrow> bytes \<Rightarrow> StateDB" where
  "AddPreimage self hash preimage =
     (case preimages self hash of
        Some _ \<Rightarrow> self
      | None \<Rightarrow> (journalAppend self (AddPreimageChange hash))
                  \<lparr>preimages := (preimages self)(hash \<mapsto> preimage)\<rparr>)"

definition AddRefund :: "StateDB \<Rightarrow> int \<Rightarrow> StateDB" where
  "AddRefund self gas =
     (journalAppend self (RefundChange (refund self)))\<lparr>refund := refund self + gas\<rparr>"

definition createObject :: "Ext \<Rightarrow> StateDB \<Rightarrow> Address \<Rightarrow> (stateObject \<times> stateObject option) \<times> StateDB" where
  "createObject X self addr =
     (case getStateObject X self addr of (prev, s) \<Rightarrow>
      (case so_setNonce s (newObject X addr (zeroAccount X)) 0 of (s1, newobj) \<Rightarrow>
         (let s2 = journalAppend s1 (case prev of None \<Rightarrow> CreateObjectChange addr
                                     | Some p \<Rightarrow> ResetObjectChange p)
          in ((newobj, prev), setStateObject s2 newobj))))"

definition GetOrNewStateObject :: "Ext \<Rightarrow> StateDB \<Rightarrow> Address \<Rightarrow> stateObject \<times> StateDB" where
  "GetOrNewStateObject X self addr =
     (case getStateObject X self addr of
        (Some so, s) \<Rightarrow>
          (if deleted so then (case createObject X s addr of ((new, _), s') \<Rightarrow> (new, s')) else (so, s))
      | (None, s) \<Rightarrow> (case createObject X s addr of ((new, _), s') \<Rightarrow> (new, s')))"

text \<open>Run an object method on the object of \<open>addr\<close> and write the object back.\<close>

definition withObject ::
  "Ext \<Rightarrow> StateDB \<Rightarrow> Address \<Rightarrow> (StateDB \<Rightarrow> stateObject \<Rightarrow> StateDB \<times> stateObject) \<Rightarrow> StateDB" where
  "withObject X self addr f =
     (case GetOrNewStateObject X self addr of (so, s) \<Rightarrow>
      (case f s so of (s', so') \<Rightarrow> setStateObject s' so'))"

definition AddBalance :: "Ext \<Rightarrow> StateDB \<Rightarrow> Address \<Rightarrow> int \<Rightarrow> StateDB" where
  "AddBalance X self addr amount = withObject X self addr (\<lambda>s so. so_AddBalance X s so amount)"

definition SubBalance :: "Ext \<Rightarrow> StateDB \<Rightarrow> Address \<Rightarrow> int \<Rightarrow> StateDB" where
  "SubBalance X self addr amount = withObject X self addr (\<lambda>s so. so_SubBalance s so amount)"

definition SetBalance :: "Ext \<Rightarrow> StateDB \<Rightarrow> Address \<Rightarrow> int \<Rightarrow> StateDB" where
  "SetBalance X self addr amount = withObject X self addr (\<lambda>s so. so_SetBalance s so amount)"

definition SetNonce :: "Ext \<Rightarrow> StateDB \<Rightarrow> Address \<Rightarrow> uint64 \<Rightarrow> StateDB" where
  "SetNonce X self addr nonce = withObject X self addr (\<lambda>s so. so_SetNonce s so nonce)"

text \<open>The code slice is nil when it is empty: the EVM returns nil for no output.\<close>

definition SetCode :: "Ext \<Rightarrow> StateDB \<Rightarrow> Address \<Rightarrow> bytes \<Rightarrow> StateDB" where
  "SetCode X self addr code =
     withObject X self addr
       (\<lambda>s so. so_SetCode X s so (Keccak256 X code) (if code = [] then None else Some code))"

definition SetState :: "Ext \<Rightarrow> StateDB \<Rightarrow> Address \<Rightarrow> Hash \<Rightarrow> Hash \<Rightarrow> StateDB" where
  "SetState X self addr key value = withObject X self addr (\<lambda>s so. so_SetState X s so key value)"

definition CreateAccount :: "Ext \<Rightarrow> StateDB \<Rightarrow> Address \<Rightarrow> StateDB" where
  "CreateAccount X self addr =
     (case createObject X self addr of
        ((new, None), s) \<Rightarrow> s
      | ((new, Some prev), s) \<Rightarrow>
          (case so_setBalance s new (Balance (so_data prev)) of (s', new') \<Rightarrow> setStateObject s' new'))"

definition Suicide :: "Ext \<Rightarrow> StateDB \<Rightarrow> Address \<Rightarrow> bool \<times> StateDB" where
  "Suicide X self addr =
     (case getStateObject X self addr of
        (None, s) \<Rightarrow> (False, s)
      | (Some so, s) \<Rightarrow>
          (case markSuicided (journalAppend s (SuicideChange addr (suicided so) (Balance (so_data so)))) so of
             (s', so') \<Rightarrow> (True, setStateObject s' (so'\<lparr>so_data := (so_data so')\<lparr>Balance := 0\<rparr>\<rparr>))))"

section \<open>journal.go\<close>

definition ripemd :: "Ext \<Rightarrow> Address" where
  "ripemd X = BytesToAddress X (replicate 19 0 @ [3])"

text \<open>Run an object method on an object that must exist; a nil object panics.\<close>

definition onObject ::
  "Ext \<Rightarrow> StateDB \<Rightarrow> Address \<Rightarrow> (StateDB \<Rightarrow> stateObject \<Rightarrow> StateDB \<times> stateObject) \<Rightarrow> StateDB res" where
  "onObject X s addr f =
     (case getStateObject X s addr of
        (None, s1) \<Rightarrow> Panic
      | (Some so, s1) \<Rightarrow> (case f s1 so of (s2, so') \<Rightarrow> Ok (setStateObject s2 so')))"

fun undo :: "Ext \<Rightarrow> StateDB \<Rightarrow> journalEntry \<Rightarrow> StateDB res" where
  "undo X s (CreateObjectChange account) =
     Ok (s\<lparr>stateObjects := (stateObjects s)(account := None),
           stateObjectsDirty := stateObjectsDirty s - {account}\<rparr>)"
| "undo X s (ResetObjectChange prev) = Ok (setStateObject s prev)"
| "undo X s (SuicideChange account prev prevbalance) =
     (case getStateObject X s account of
        (None, s1) \<Rightarrow> Ok s1
      | (Some obj, s1) \<Rightarrow>
          (case so_setBalance s1 (obj\<lparr>suicided := prev\<rparr>) prevbalance of
             (s2, obj') \<Rightarrow> Ok (setStateObject s2 obj')))"
| "undo X s (TouchChange account prev prevDirty) =
     (if \<not> prev \<and> account \<noteq> ripemd X
      then bind_res (onObject X s account (\<lambda>s1 obj. (s1, obj\<lparr>touched := prev\<rparr>)))
             (\<lambda>s2. Ok (if \<not> prevDirty
                       then s2\<lparr>stateObjectsDirty := stateObjectsDirty s2 - {account}\<rparr> else s2))
      else Ok s)"
| "undo X s (BalanceChange account prev) = onObject X s account (\<lambda>s1 obj. so_setBalance s1 obj prev)"
| "undo X s (NonceChange account prev) = onObject X s account (\<lambda>s1 obj. so_setNonce s1 obj prev)"
| "undo X s (CodeChange account prevcode prevhash) =
     onObject X s account (\<lambda>s1 obj. so_setCode s1 obj (BytesToHash prevhash) prevcode)"
| "undo X s (StorageChange account key prevalue) =
     onObject X s account (\<lambda>s1 obj. so_setState s1 obj key prevalue)"
| "undo X s (RefundChange prev) = Ok (s\<lparr>refund := prev\<rparr>)"
| "undo X s (AddLogChange txhash) =
     (let ls = GetLogs s txhash in
      if length ls = 1 then Ok (s\<lparr>logs := (logs s)(txhash := None), logSize := logSize s - 1\<rparr>)
      else if length ls = 0 then Panic
      else Ok (s\<lparr>logs := (logs s)(txhash \<mapsto> butlast ls), logSize := logSize s - 1\<rparr>))"
| "undo X s (AddPreimageChange hash) = Ok (s\<lparr>preimages := (preimages s)(hash := None)\<rparr>)"

section \<open>statedb.go: snapshots\<close>

definition Snapshot :: "StateDB \<Rightarrow> nat \<times> StateDB" where
  "Snapshot self =
     (let i = nextRevisionId self in
      (i, self\<lparr>nextRevisionId := i + 1,
              validRevisions := validRevisions self @ [\<lparr>rev_id = i, journalIndex = length (journal self)\<rparr>]\<rparr>))"

text \<open>\<^verbatim>\<open>sort.Search\<close>: bisection for the least index in \<open>[i, j)\<close> where \<open>f\<close> holds.\<close>

function sortSearch :: "(nat \<Rightarrow> bool) \<Rightarrow> nat \<Rightarrow> nat \<Rightarrow> nat" where
  "sortSearch f i j =
     (if i < j then (let h = (i + j) div 2 in
        if \<not> f h then sortSearch f (h + 1) j else sortSearch f i h) else i)"
  by pat_completeness auto
termination
  by (relation "measure (\<lambda>(f, i, j). j - i)") auto

declare sortSearch.simps [simp del]

text \<open>The replay loop; the entries come last one first.\<close>

fun undoAll :: "Ext \<Rightarrow> journalEntry list \<Rightarrow> StateDB \<Rightarrow> StateDB res" where
  "undoAll X [] s = Ok s"
| "undoAll X (e # es) s = bind_res (undo X s e) (undoAll X es)"

definition RevertToSnapshot :: "Ext \<Rightarrow> StateDB \<Rightarrow> nat \<Rightarrow> StateDB res" where
  "RevertToSnapshot X self revid =
     (let revs = validRevisions self;
          idx = sortSearch (\<lambda>i. revid \<le> rev_id (revs ! i)) 0 (length revs)
      in if idx = length revs \<or> rev_id (revs ! idx) \<noteq> revid then Panic
         else
           (let snapshot = journalIndex (revs ! idx) in
            bind_res (undoAll X (rev (drop snapshot (journal self))) self)
              (\<lambda>s. Ok (s\<lparr>journal := take snapshot (journal s), validRevisions := take idx revs\<rparr>))))"

section \<open>statedb.go: transaction boundaries\<close>

definition clearJournalAndRefund :: "StateDB \<Rightarrow> StateDB" where
  "clearJournalAndRefund s = s\<lparr>journal := [], validRevisions := [], refund := 0\<rparr>"

definition updateStateObject :: "Ext \<Rightarrow> StateDB \<Rightarrow> stateObject \<Rightarrow> StateDB" where
  "updateStateObject X self so =
     (case TryUpdate X (sd_trie self) (so_address so) (encodeAccount X (so_data so)) of
        (t, err) \<Rightarrow> sd_setError (self\<lparr>sd_trie := t\<rparr>) err)"

definition deleteStateObject :: "Ext \<Rightarrow> StateDB \<Rightarrow> stateObject \<Rightarrow> StateDB" where
  "deleteStateObject X self so =
     (case TryDelete X (sd_trie self) (so_address so) of
        (t, err) \<Rightarrow> sd_setError ((setStateObject self (so\<lparr>deleted := True\<rparr>))\<lparr>sd_trie := t\<rparr>) err)"

text \<open>
  \<^verbatim>\<open>Finalise\<close> ranges over the map \<^verbatim>\<open>stateObjectsDirty\<close>; \<open>order\<close> lists its keys in the order Go
  picks, and \<open>keys a\<close> those of the dirty storage of \<open>a\<close>.
\<close>

fun FinaliseLoop :: "Ext \<Rightarrow> (Address \<Rightarrow> Hash list) \<Rightarrow> bool \<Rightarrow> Address list \<Rightarrow> StateDB \<Rightarrow> StateDB res" where
  "FinaliseLoop X keys deleteEmptyObjects [] s = Ok s"
| "FinaliseLoop X keys deleteEmptyObjects (addr # order) s =
     (case stateObjects s addr of
        None \<Rightarrow> Panic
      | Some so \<Rightarrow>
          FinaliseLoop X keys deleteEmptyObjects order
            (if suicided so \<or> (deleteEmptyObjects \<and> so_empty X so) then deleteStateObject X s so
             else (let so' = so_updateRoot X (keys addr) so
                   in updateStateObject X (setStateObject s so') so')))"

definition Finalise ::
  "Ext \<Rightarrow> (Address \<Rightarrow> Hash list) \<Rightarrow> Address list \<Rightarrow> bool \<Rightarrow> StateDB \<Rightarrow> StateDB res" where
  "Finalise X keys order deleteEmptyObjects s =
     bind_res (FinaliseLoop X keys deleteEmptyObjects order s) (\<lambda>s'. Ok (clearJournalAndRefund s'))"

definition IntermediateRoot ::
  "Ext \<Rightarrow> (Address \<Rightarrow> Hash list) \<Rightarrow> Address list \<Rightarrow> bool \<Rightarrow> StateDB \<Rightarrow> (Hash \<times> StateDB) res" where
  "IntermediateRoot X keys order deleteEmptyObjects s =
     bind_res (Finalise X keys order deleteEmptyObjects s) (\<lambda>s'. Ok (TrieHash X (sd_trie s'), s'))"

definition Prepare :: "StateDB \<Rightarrow> Hash \<Rightarrow> Hash \<Rightarrow> int \<Rightarrow> StateDB" where
  "Prepare self th bh ti = self\<lparr>thash := th, bhash := bh, txIndex := ti\<rparr>"

definition NewStateDB :: "Ext \<Rightarrow> Hash \<Rightarrow> dberror + StateDB" where
  "NewStateDB X root =
     (case DbOpenTrie X root of
        Inl err \<Rightarrow> Inl err
      | Inr tr \<Rightarrow>
          Inr \<lparr>sd_trie = tr, stateObjects = Map.empty, stateObjectsDirty = {}, sd_dbErr = None, refund = 0,
               thash = zeroHash, bhash = zeroHash, txIndex = 0, logs = Map.empty, logSize = 0,
               preimages = Map.empty, journal = [], validRevisions = [], nextRevisionId = 0\<rparr>)"

definition ResetStateDB :: "Ext \<Rightarrow> StateDB \<Rightarrow> Hash \<Rightarrow> dberror option \<times> StateDB" where
  "ResetStateDB X self root =
     (case DbOpenTrie X root of
        Inl err \<Rightarrow> (Some err, self)
      | Inr tr \<Rightarrow>
          (None, clearJournalAndRefund
             (self\<lparr>sd_trie := tr, stateObjects := Map.empty, stateObjectsDirty := {}, thash := zeroHash,
                   bhash := zeroHash, txIndex := 0, logs := Map.empty, logSize := 0,
                   preimages := Map.empty\<rparr>)))"

fun DeleteSuicidesLoop :: "Address list \<Rightarrow> StateDB \<Rightarrow> StateDB res" where
  "DeleteSuicidesLoop [] s = Ok s"
| "DeleteSuicidesLoop (addr # order) s =
     (case stateObjects s addr of
        None \<Rightarrow> Panic
      | Some so \<Rightarrow>
          (let s1 = (if suicided so then setStateObject s (so\<lparr>deleted := True\<rparr>) else s)
           in DeleteSuicidesLoop order (s1\<lparr>stateObjectsDirty := stateObjectsDirty s1 - {addr}\<rparr>)))"

definition DeleteSuicides :: "Address list \<Rightarrow> StateDB \<Rightarrow> StateDB res" where
  "DeleteSuicides order s = DeleteSuicidesLoop order (clearJournalAndRefund s)"

definition CopyStateDB :: "Ext \<Rightarrow> StateDB \<Rightarrow> StateDB res" where
  "CopyStateDB X self =
     (if \<exists>a \<in> stateObjectsDirty self. stateObjects self a = None then Panic
      else Ok \<lparr>sd_trie = sd_trie self,
         stateObjects = (\<lambda>a. if a \<in> stateObjectsDirty self
                             then map_option (\<lambda>so. so_deepCopy X so True) (stateObjects self a) else None),
         stateObjectsDirty = stateObjectsDirty self, sd_dbErr = None, refund = refund self,
         thash = zeroHash, bhash = zeroHash, txIndex = 0, logs = logs self, logSize = logSize self,
         preimages = preimages self, journal = [], validRevisions = [], nextRevisionId = 0\<rparr>)"

end
