(* ===== verification/StateRefine.thy ===== *)
theory StateRefine
  imports WorldState
begin

text \<open>
  What the state database promises its clients. The abstract state \<open>World\<close> holds what the getters
  can see: for every address the account, if there is one, and the refund counter, the logs and
  the preimages. Live objects, caches, dirty flags and memoized errors are below this level.
  The journal is given a meaning on \<open>World\<close> (\<open>aundo\<close>), the concrete \<open>undo\<close> is shown to simulate it,
  and every operation is shown to be \<open>journalled\<close>: undoing the entries it appends gives back the
  world it started from. Snapshots and reverts follow from these two facts alone.
\<close>

section \<open>Abstract state\<close>

record AcctView =
  v_nonce :: uint64
  v_balance :: int
  v_codehash :: bytes
  v_code :: bytes
  v_storage :: "Hash \<Rightarrow> Hash"
  v_suicided :: bool

record World =
  w_acct :: "Address \<Rightarrow> AcctView option"
  w_refund :: int
  w_logs :: "Hash \<Rightarrow> Log list"
  w_logSize :: uint64
  w_preimages :: "Hash \<rightharpoonup> bytes"

definition obj_view :: "Ext \<Rightarrow> stateObject \<Rightarrow> AcctView" where
  "obj_view X so =
     \<lparr>v_nonce = Nonce (so_data so), v_balance = Balance (so_data so), v_codehash = CodeHash (so_data so),
      v_code = (case fst (so_Code X so) of None \<Rightarrow> [] | Some c \<Rightarrow> c),
      v_storage = (\<lambda>k. fst (so_GetState X so k)), v_suicided = suicided so\<rparr>"

definition loadObject :: "Ext \<Rightarrow> Trie \<Rightarrow> Address \<Rightarrow> stateObject option" where
  "loadObject X tr a =
     (case tr a of (enc, err) \<Rightarrow>
        if length enc = 0 then None else map_option (newObject X a) (decodeAccount X enc))"

definition lookupObject :: "Ext \<Rightarrow> StateDB \<Rightarrow> Address \<Rightarrow> stateObject option" where
  "lookupObject X s a =
     (case stateObjects s a of
        Some so \<Rightarrow> (if deleted so then None else Some so)
      | None \<Rightarrow> loadObject X (sd_trie s) a)"

definition world :: "Ext \<Rightarrow> StateDB \<Rightarrow> World" where
  "world X s =
     \<lparr>w_acct = (\<lambda>a. map_option (obj_view X) (lookupObject X s a)), w_refund = refund s,
      w_logs = GetLogs s, w_logSize = logSize s, w_preimages = preimages s\<rparr>"

section \<open>Well-formed databases\<close>

definition ext_ok :: "Ext \<Rightarrow> bool" where
  "ext_ok X \<longleftrightarrow> (\<forall>b. length (Keccak256 X b) = 32)"

definition obj_ok :: "Ext \<Rightarrow> Address \<Rightarrow> stateObject \<Rightarrow> bool" where
  "obj_ok X a so \<longleftrightarrow> so_address so = a \<and> so_addrHash so = Keccak256 X a \<and> length (CodeHash (so_data so)) = 32"

definition wf_state :: "Ext \<Rightarrow> StateDB \<Rightarrow> bool" where
  "wf_state X s \<longleftrightarrow> ext_ok X \<and>
     (\<forall>a so. stateObjects s a = Some so \<longrightarrow>
        obj_ok X a so \<and> (deleted so \<longrightarrow> loadObject X (sd_trie s) a = None)) \<and>
     (\<forall>a so. loadObject X (sd_trie s) a = Some so \<longrightarrow> obj_ok X a so)"

definition rev_ok :: "StateDB \<Rightarrow> bool" where
  "rev_ok s \<longleftrightarrow> (\<forall>r \<in> set (validRevisions s). rev_id r < nextRevisionId s)"

text \<open>Fields of the database that no operation of the EVM interface writes.\<close>

definition same_frame :: "StateDB \<Rightarrow> StateDB \<Rightarrow> bool" where
  "same_frame s s' \<longleftrightarrow> sd_trie s' = sd_trie s \<and> thash s' = thash s \<and> bhash s' = bhash s \<and> txIndex s' = txIndex s"

lemma same_frame_refl [simp]: "same_frame s s"
  by (simp add: same_frame_def)

lemma same_frame_trans: "same_frame s t \<Longrightarrow> same_frame t u \<Longrightarrow> same_frame s u"
  by (simp add: same_frame_def)

section \<open>Objects\<close>

lemma callOnDirty_eq:
  "callOnDirty s so =
     (s\<lparr>stateObjectsDirty := (if onDirty so then insert (so_address so) (stateObjectsDirty s)
                              else stateObjectsDirty s)\<rparr>, so\<lparr>onDirty := False\<rparr>)"
  by (cases so; cases s) (simp add: callOnDirty_def)

lemmas object_writes =
  so_setBalance_def so_setNonce_def so_setCode_def so_setState_def so_SetBalance_def so_SetNonce_def
  so_SubBalance_def markSuicided_def callOnDirty_eq journalAppend_def

text \<open>What an object shows of its storage trie and of its code.\<close>

definition trieView :: "Ext \<Rightarrow> Hash \<Rightarrow> Hash \<Rightarrow> Trie option \<Rightarrow> Trie" where
  "trieView X ah root tr =
     (case tr of Some t \<Rightarrow> t
      | None \<Rightarrow> (case OpenStorageTrie X ah root of Inr t \<Rightarrow> t | Inl _ \<Rightarrow> emptyTrie))"

definition storedValue :: "Ext \<Rightarrow> Trie \<Rightarrow> Hash \<Rightarrow> Hash" where
  "storedValue X t key =
     (case t key of (enc, err) \<Rightarrow>
        if err \<noteq> None \<or> length enc = 0 then zeroHash else N_SetBytes 32 zeroHash (fst (rlpSplit X enc)))"

definition codeView :: "Ext \<Rightarrow> Hash \<Rightarrow> bytes \<Rightarrow> bytes option \<Rightarrow> bytes" where
  "codeView X ah hash code =
     (case code of Some c \<Rightarrow> c
      | None \<Rightarrow> if hash = emptyCodeHash X then []
                 else (case ContractCode X ah (BytesToHash hash) of (c, None) \<Rightarrow> c | (c, Some _) \<Rightarrow> []))"

lemma so_GetState_view:
  "fst (so_GetState X so k) =
     (case cachedStorage so k of Some v \<Rightarrow> v
      | None \<Rightarrow> storedValue X (trieView X (so_addrHash so) (Root (so_data so)) (so_trie so)) k)"
  by (auto simp: so_GetState_def so_getTrie_def storedValue_def trieView_def Let_def
      split: option.splits sum.splits prod.splits)

lemma so_Code_view:
  "(case fst (so_Code X so) of None \<Rightarrow> [] | Some c \<Rightarrow> c) =
     codeView X (so_addrHash so) (CodeHash (so_data so)) (so_code so)"
  by (auto simp: so_Code_def codeView_def split: option.splits prod.splits)

lemma obj_view_eq:
  "obj_view X so =
     \<lparr>v_nonce = Nonce (so_data so), v_balance = Balance (so_data so), v_codehash = CodeHash (so_data so),
      v_code = codeView X (so_addrHash so) (CodeHash (so_data so)) (so_code so),
      v_storage = (\<lambda>k. case cachedStorage so k of Some v \<Rightarrow> v
        | None \<Rightarrow> storedValue X (trieView X (so_addrHash so) (Root (so_data so)) (so_trie so)) k),
      v_suicided = suicided so\<rparr>"
  by (simp add: obj_view_def so_Code_view so_GetState_view)

text \<open>Reading through an object fills its caches and leaves the rest alone.\<close>

definition read_only :: "Ext \<Rightarrow> stateObject \<Rightarrow> stateObject \<Rightarrow> bool" where
  "read_only X so so' \<longleftrightarrow> obj_view X so' = obj_view X so \<and> so_address so' = so_address so \<and>
     so_addrHash so' = so_addrHash so \<and> so_data so' = so_data so \<and> deleted so' = deleted so \<and>
     suicided so' = suicided so \<and> onDirty so' = onDirty so \<and> touched so' = touched so"

lemma read_only_obj_ok: "read_only X so so' \<Longrightarrow> obj_ok X a so' = obj_ok X a so"
  by (simp add: read_only_def obj_ok_def)

lemma so_setError_fields [simp]:
  "so_address (so_setError so e) = so_address so" "so_addrHash (so_setError so e) = so_addrHash so"
  "so_data (so_setError so e) = so_data so" "deleted (so_setError so e) = deleted so"
  "suicided (so_setError so e) = suicided so" "onDirty (so_setError so e) = onDirty so"
  "touched (so_setError so e) = touched so" "so_code (so_setError so e) = so_code so"
  "so_trie (so_setError so e) = so_trie so" "cachedStorage (so_setError so e) = cachedStorage so"
  by (simp_all add: so_setError_def)

lemma so_getTrie_snd:
  "snd (so_getTrie X so) = so \<or>
   (\<exists>e. snd (so_getTrie X so) =
      so_setError (so\<lparr>so_trie := Some (trieView X (so_addrHash so) (Root (so_data so)) (so_trie so))\<rparr>) e)"
proof -
  have "so_setError so' None = so'" for so'
    by (cases so') (simp add: so_setError_def)
  then show ?thesis
    by (auto simp: so_getTrie_def trieView_def split: option.splits sum.splits) metis
qed

lemma trieView_Some [simp]: "trieView X h r (Some t) = t"
  by (simp add: trieView_def)

lemma so_getTrie_read_only: "read_only X so (snd (so_getTrie X so))"
  using so_getTrie_snd [of X so]
  by (auto simp: read_only_def obj_view_eq fun_eq_iff split: option.split)

lemma read_only_trans: "read_only X o1 o2 \<Longrightarrow> read_only X o2 o3 \<Longrightarrow> read_only X o1 o3"
  by (simp add: read_only_def)

lemma so_setError_read_only: "read_only X so (so_setError so e)"
  by (simp add: read_only_def obj_view_eq fun_eq_iff split: option.split)

lemma cache_read_only:
  "fst (so_GetState X so k) = v \<Longrightarrow> read_only X so (so\<lparr>cachedStorage := (cachedStorage so)(k \<mapsto> v)\<rparr>)"
  by (auto simp: read_only_def obj_view_eq so_GetState_view fun_eq_iff split: option.split)

lemma read_only_GetState:
  "read_only X so so' \<Longrightarrow> fst (so_GetState X so' k) = fst (so_GetState X so k)"
proof -
  assume "read_only X so so'"
  then have "v_storage (obj_view X so') k = v_storage (obj_view X so) k" by (simp add: read_only_def)
  then show ?thesis by (simp add: obj_view_def)
qed

lemma read_only_cached:
  assumes "read_only X so so'" "fst (so_GetState X so k) = v"
  shows "read_only X so (so'\<lparr>cachedStorage := (cachedStorage so')(k \<mapsto> v)\<rparr>)"
  using read_only_trans [OF assms(1) cache_read_only] read_only_GetState [OF assms(1)] assms(2) by metis

lemma so_GetState_read_only: "read_only X so (snd (so_GetState X so k))"
proof (cases "cachedStorage so k")
  case (Some v)
  then show ?thesis by (simp add: so_GetState_def read_only_def)
next
  case None
  obtain t so1 where t: "so_getTrie X so = (t, so1)" by fastforce
  obtain enc err where e: "t k = (enc, err)" by fastforce
  obtain content err' where r: "rlpSplit X enc = (content, err')" by fastforce
  have 1: "read_only X so so1" using so_getTrie_read_only [of X so] by (simp add: t)
  have 2: "read_only X so (so_setError so1 e)" for e
    by (rule read_only_trans [OF 1 so_setError_read_only])
  show ?thesis
    by (auto simp: so_GetState_def None t e r Let_def 1 2
        intro!: read_only_cached read_only_cached [where so' = "so_setError so1 _", simplified])
qed

lemma so_Code_read_only: "read_only X so (snd (so_Code X so))"
  by (auto simp: so_Code_def read_only_def obj_view_eq codeView_def
      split: option.splits prod.splits)

section \<open>The database and its world\<close>

text \<open>Fields that hold no account.\<close>

lemma lookupObject_upd [simp]:
  "lookupObject X (s\<lparr>stateObjectsDirty := v_0\<rparr>) = lookupObject X s"
  "lookupObject X (s\<lparr>sd_dbErr := v_1\<rparr>) = lookupObject X s"
  "lookupObject X (s\<lparr>refund := v_2\<rparr>) = lookupObject X s"
  "lookupObject X (s\<lparr>logs := v_3\<rparr>) = lookupObject X s"
  "lookupObject X (s\<lparr>logSize := v_4\<rparr>) = lookupObject X s"
  "lookupObject X (s\<lparr>preimages := v_5\<rparr>) = lookupObject X s"
  "lookupObject X (s\<lparr>journal := v_6\<rparr>) = lookupObject X s"
  "lookupObject X (s\<lparr>validRevisions := v_7\<rparr>) = lookupObject X s"
  "lookupObject X (s\<lparr>nextRevisionId := v_8\<rparr>) = lookupObject X s"
  by (simp_all add: lookupObject_def fun_eq_iff cong: option.case_cong)

lemma wf_state_upd [simp]:
  "wf_state X (s\<lparr>stateObjectsDirty := v_0\<rparr>) = wf_state X s"
  "wf_state X (s\<lparr>sd_dbErr := v_1\<rparr>) = wf_state X s"
  "wf_state X (s\<lparr>refund := v_2\<rparr>) = wf_state X s"
  "wf_state X (s\<lparr>logs := v_3\<rparr>) = wf_state X s"
  "wf_state X (s\<lparr>logSize := v_4\<rparr>) = wf_state X s"
  "wf_state X (s\<lparr>preimages := v_5\<rparr>) = wf_state X s"
  "wf_state X (s\<lparr>journal := v_6\<rparr>) = wf_state X s"
  "wf_state X (s\<lparr>validRevisions := v_7\<rparr>) = wf_state X s"
  "wf_state X (s\<lparr>nextRevisionId := v_8\<rparr>) = wf_state X s"
  by (simp_all add: wf_state_def)

lemma world_upd [simp]:
  "world X (s\<lparr>stateObjectsDirty := v_0\<rparr>) = world X s"
  "world X (s\<lparr>sd_dbErr := v_1\<rparr>) = world X s"
  "world X (s\<lparr>refund := v_2\<rparr>) = (world X s)\<lparr>w_refund := v_2\<rparr>"
  "world X (s\<lparr>logs := v_3\<rparr>) = (world X s)\<lparr>w_logs := (\<lambda>h. case v_3 h of None \<Rightarrow> [] | Some l \<Rightarrow> l)\<rparr>"
  "world X (s\<lparr>logSize := v_4\<rparr>) = (world X s)\<lparr>w_logSize := v_4\<rparr>"
  "world X (s\<lparr>preimages := v_5\<rparr>) = (world X s)\<lparr>w_preimages := v_5\<rparr>"
  "world X (s\<lparr>journal := v_6\<rparr>) = world X s"
  "world X (s\<lparr>validRevisions := v_7\<rparr>) = world X s"
  "world X (s\<lparr>nextRevisionId := v_8\<rparr>) = world X s"
  by (simp_all add: world_def GetLogs_def [abs_def])

lemma world_fields [simp]:
  "w_refund (world X s) = refund s" "w_logs (world X s) = GetLogs s"
  "w_logSize (world X s) = logSize s" "w_preimages (world X s) = preimages s"
  by (simp_all add: world_def)

definition putAcct :: "Address \<Rightarrow> AcctView \<Rightarrow> World \<Rightarrow> World" where
  "putAcct a v w = w\<lparr>w_acct := (w_acct w)(a \<mapsto> v)\<rparr>"

text \<open>Writing an object back is an update of the world at its address.\<close>

lemma world_setStateObject:
  "\<not> deleted so \<Longrightarrow> world X (setStateObject s so) = putAcct (so_address so) (obj_view X so) (world X s)"
  by (simp add: world_def setStateObject_def putAcct_def lookupObject_def GetLogs_def fun_eq_iff
      cong: option.case_cong)

lemma wf_setStateObject:
  "wf_state X s \<Longrightarrow> obj_ok X a so \<Longrightarrow> \<not> deleted so \<Longrightarrow> wf_state X (setStateObject s so)"
  by (auto simp: wf_state_def setStateObject_def obj_ok_def)

lemma setStateObject_fields [simp]:
  "sd_trie (setStateObject s so) = sd_trie s" "journal (setStateObject s so) = journal s"
  "validRevisions (setStateObject s so) = validRevisions s"
  "nextRevisionId (setStateObject s so) = nextRevisionId s"
  "refund (setStateObject s so) = refund s" "thash (setStateObject s so) = thash s"
  "bhash (setStateObject s so) = bhash s" "txIndex (setStateObject s so) = txIndex s"
  "logs (setStateObject s so) = logs s" "logSize (setStateObject s so) = logSize s"
  "preimages (setStateObject s so) = preimages s"
  by (simp_all add: setStateObject_def)

lemma lookup_setStateObject:
  "lookupObject X (setStateObject s so) a =
     (if a = so_address so then (if deleted so then None else Some so) else lookupObject X s a)"
  by (simp add: lookupObject_def setStateObject_def cong: option.case_cong)

lemma putAcct_same: "w_acct w a = Some v \<Longrightarrow> putAcct a v w = w"
  by (cases w) (simp add: putAcct_def fun_upd_idem)

lemma putAcct_acct [simp]: "w_acct (putAcct a v w) b = (if b = a then Some v else w_acct w b)"
  by (simp add: putAcct_def)

lemma putAcct_putAcct [simp]: "putAcct a v (putAcct a v' w) = putAcct a v w"
  by (simp add: putAcct_def)

text \<open>Steps that a client cannot see: caches, memoized errors.\<close>

definition quiet :: "Ext \<Rightarrow> StateDB \<Rightarrow> StateDB \<Rightarrow> bool" where
  "quiet X s s' \<longleftrightarrow> world X s' = world X s \<and> same_frame s s' \<and> journal s' = journal s \<and>
     validRevisions s' = validRevisions s \<and> nextRevisionId s' = nextRevisionId s \<and>
     (wf_state X s \<longrightarrow> wf_state X s')"

lemma quiet_refl [simp]: "quiet X s s"
  by (simp add: quiet_def)

lemma quiet_trans: "quiet X s t \<Longrightarrow> quiet X t u \<Longrightarrow> quiet X s u"
  by (auto simp: quiet_def dest: same_frame_trans)

lemma quiet_setError [simp]: "quiet X s (sd_setError s e)"
  by (simp add: quiet_def sd_setError_def same_frame_def)

lemma lookup_ok:
  "wf_state X s \<Longrightarrow> lookupObject X s a = Some so \<Longrightarrow> obj_ok X a so \<and> \<not> deleted so"
  by (auto simp: wf_state_def lookupObject_def loadObject_def newObject_def
      split: option.splits if_splits prod.splits)

lemma world_acct: "w_acct (world X s) a = map_option (obj_view X) (lookupObject X s a)"
  by (simp add: world_def)

lemma quiet_put:
  assumes "lookupObject X s a = Some so" "wf_state X s" "obj_view X so' = obj_view X so"
    and "obj_ok X a so'" "\<not> deleted so'"
  shows "quiet X s (setStateObject s so')"
proof -
  have "so_address so' = a" using assms(4) by (simp add: obj_ok_def)
  with assms have "world X (setStateObject s so') = world X s"
    by (simp add: world_setStateObject putAcct_same world_acct)
  then show ?thesis
    using assms by (simp add: quiet_def same_frame_def wf_setStateObject)
qed

text \<open>\<^verbatim>\<open>getStateObject\<close> finds what the world shows, and only fills the cache.\<close>

lemma getStateObject_spec:
  assumes "wf_state X s"
  shows "\<exists>s1. getStateObject X s a = (lookupObject X s a, s1) \<and> quiet X s s1 \<and> wf_state X s1 \<and>
    lookupObject X s1 a = lookupObject X s a"
proof (cases "stateObjects s a")
  case (Some so)
  then show ?thesis using assms by (simp add: getStateObject_def lookupObject_def)
next
  case None
  obtain enc err where e: "sd_trie s a = (enc, err)" by fastforce
  have l: "lookupObject X s a = loadObject X (sd_trie s) a" using None by (simp add: lookupObject_def)
  have q: "wf_state X (sd_setError s err)" using assms by (simp add: sd_setError_def)
  have lq: "lookupObject X (sd_setError s err) = lookupObject X s" by (simp add: sd_setError_def)
  show ?thesis
  proof (cases "loadObject X (sd_trie s) a")
    case None
    with l \<open>stateObjects s a = None\<close> assms q lq show ?thesis
      by (auto simp: getStateObject_def e loadObject_def split: option.splits if_splits)
  next
    case (Some so)
    with l have lo: "lookupObject X s a = Some so" by simp
    note ok = lookup_ok [OF assms lo]
    then have "quiet X s (setStateObject s so)" by (intro quiet_put [OF lo assms]) simp_all
    moreover have "getStateObject X s a = (Some so, setStateObject s so)"
      using Some \<open>stateObjects s a = None\<close>
      by (auto simp: getStateObject_def e loadObject_def Let_def split: option.splits if_splits)
    moreover have "so_address so = a" using ok by (simp add: obj_ok_def)
    ultimately show ?thesis
      using assms ok lo by (simp add: quiet_def lookup_setStateObject)
  qed
qed

lemma getStateObject_None:
  assumes "wf_state X s" "lookupObject X s a = None"
  obtains s1 where "getStateObject X s a = (None, s1)" "quiet X s s1" "wf_state X s1"
    "lookupObject X s1 a = None"
  using getStateObject_spec [OF assms(1), of a] assms(2) by auto

lemma getStateObject_Some:
  assumes "wf_state X s" "lookupObject X s a = Some so"
  obtains s1 where "getStateObject X s a = (Some so, s1)" "quiet X s s1" "wf_state X s1"
    "lookupObject X s1 a = Some so" "obj_ok X a so" "\<not> deleted so" "so_address so = a"
  using getStateObject_spec [OF assms(1), of a] assms lookup_ok [OF assms] by (auto simp: obj_ok_def)

section \<open>Undoing a journal entry, abstractly\<close>

definition modAcct :: "Address \<Rightarrow> (AcctView \<Rightarrow> AcctView) \<Rightarrow> World \<Rightarrow> World option" where
  "modAcct a f w = map_option (\<lambda>v. putAcct a (f v) w) (w_acct w a)"

fun aundo :: "Ext \<Rightarrow> journalEntry \<Rightarrow> World \<Rightarrow> World option" where
  "aundo X (CreateObjectChange a) w = Some (w\<lparr>w_acct := (w_acct w)(a := None)\<rparr>)"
| "aundo X (ResetObjectChange p) w = Some (putAcct (so_address p) (obj_view X p) w)"
| "aundo X (SuicideChange a prev bal) w =
     (if w_acct w a = None then Some w
      else modAcct a (\<lambda>v. v\<lparr>v_suicided := prev, v_balance := bal\<rparr>) w)"
| "aundo X (BalanceChange a bal) w = modAcct a (\<lambda>v. v\<lparr>v_balance := bal\<rparr>) w"
| "aundo X (NonceChange a n) w = modAcct a (\<lambda>v. v\<lparr>v_nonce := n\<rparr>) w"
| "aundo X (StorageChange a k x) w = modAcct a (\<lambda>v. v\<lparr>v_storage := (v_storage v)(k := x)\<rparr>) w"
| "aundo X (CodeChange a c h) w =
     modAcct a (\<lambda>v. v\<lparr>v_codehash := BytesToHash h,
       v_code := codeView X (Keccak256 X a) (BytesToHash h) c\<rparr>) w"
| "aundo X (RefundChange r) w = Some (w\<lparr>w_refund := r\<rparr>)"
| "aundo X (AddLogChange h) w =
     (if w_logs w h = [] then None
      else Some (w\<lparr>w_logs := (w_logs w)(h := butlast (w_logs w h)), w_logSize := w_logSize w - 1\<rparr>))"
| "aundo X (AddPreimageChange h) w = Some (w\<lparr>w_preimages := (w_preimages w)(h := None)\<rparr>)"
| "aundo X (TouchChange a prev prevDirty) w =
     (if \<not> prev \<and> a \<noteq> ripemd X \<and> w_acct w a = None then None else Some w)"

fun entry_ok :: "Ext \<Rightarrow> Trie \<Rightarrow> journalEntry \<Rightarrow> bool" where
  "entry_ok X tr (CreateObjectChange a) = (loadObject X tr a = None)"
| "entry_ok X tr (ResetObjectChange p) = (obj_ok X (so_address p) p \<and> \<not> deleted p)"
| "entry_ok X tr e = True"

definition undone :: "Ext \<Rightarrow> StateDB \<Rightarrow> StateDB \<Rightarrow> bool" where
  "undone X s s' \<longleftrightarrow> wf_state X s' \<and> same_frame s s' \<and> journal s' = journal s \<and>
     validRevisions s' = validRevisions s \<and> nextRevisionId s' = nextRevisionId s"

lemma undone_refl: "wf_state X s \<Longrightarrow> undone X s s"
  by (simp add: undone_def)

lemma undone_trans: "undone X s t \<Longrightarrow> undone X t u \<Longrightarrow> undone X s u"
  by (auto simp: undone_def dest: same_frame_trans)

lemma quiet_undone: "quiet X s t \<Longrightarrow> wf_state X s \<Longrightarrow> undone X s t"
  by (simp add: quiet_def undone_def)

text \<open>A method that changes an object as \<open>g\<close> says and, of the database, the dirty set only.\<close>

definition writes ::
  "Ext \<Rightarrow> Address \<Rightarrow> (StateDB \<Rightarrow> stateObject \<Rightarrow> StateDB \<times> stateObject) \<Rightarrow> (AcctView \<Rightarrow> AcctView) \<Rightarrow> bool" where
  "writes X a f g \<longleftrightarrow> (\<forall>s so. obj_ok X a so \<longrightarrow> \<not> deleted so \<longrightarrow>
     (\<exists>d so'. f s so = (s\<lparr>stateObjectsDirty := d\<rparr>, so') \<and> obj_ok X a so' \<and> \<not> deleted so' \<and>
        obj_view X so' = g (obj_view X so)))"

lemma obj_view_flags [simp]:
  "obj_view X (so\<lparr>onDirty := x\<rparr>) = obj_view X so" "obj_view X (so\<lparr>touched := x\<rparr>) = obj_view X so"
  by (simp_all add: obj_view_eq cong: option.case_cong)

lemma obj_ok_flags [simp]:
  "obj_ok X a (so\<lparr>onDirty := x\<rparr>) = obj_ok X a so" "obj_ok X a (so\<lparr>touched := x\<rparr>) = obj_ok X a so"
  by (simp_all add: obj_ok_def)

lemma writes_callOnDirty:
  assumes "\<And>so. obj_ok X a so \<Longrightarrow> \<not> deleted so \<Longrightarrow>
    obj_ok X a (h so) \<and> \<not> deleted (h so) \<and> obj_view X (h so) = g (obj_view X so)"
  shows "writes X a (\<lambda>s so. callOnDirty s (h so)) g"
  unfolding writes_def callOnDirty_eq using assms by fastforce

lemma writes_setBalance: "writes X a (\<lambda>s so. so_setBalance s so b) (\<lambda>v. v\<lparr>v_balance := b\<rparr>)"
  unfolding so_setBalance_def
  by (rule writes_callOnDirty) (simp add: obj_ok_def obj_view_eq cong: option.case_cong)

lemma writes_setNonce: "writes X a (\<lambda>s so. so_setNonce s so n) (\<lambda>v. v\<lparr>v_nonce := n\<rparr>)"
  unfolding so_setNonce_def
  by (rule writes_callOnDirty) (simp add: obj_ok_def obj_view_eq cong: option.case_cong)

lemma writes_setState:
  "writes X a (\<lambda>s so. so_setState s so k x) (\<lambda>v. v\<lparr>v_storage := (v_storage v)(k := x)\<rparr>)"
  unfolding so_setState_def
  by (rule writes_callOnDirty) (simp add: obj_ok_def obj_view_eq fun_eq_iff cong: option.case_cong)

lemma writes_setCode:
  "length h = 32 \<Longrightarrow> writes X a (\<lambda>s so. so_setCode s so h c)
     (\<lambda>v. v\<lparr>v_codehash := h, v_code := codeView X (Keccak256 X a) h c\<rparr>)"
  unfolding so_setCode_def
  by (rule writes_callOnDirty) (simp add: obj_ok_def obj_view_eq cong: option.case_cong)

lemma writes_suicided:
  "writes X a (\<lambda>s so. so_setBalance s (so\<lparr>suicided := x\<rparr>) b) (\<lambda>v. v\<lparr>v_suicided := x, v_balance := b\<rparr>)"
  unfolding so_setBalance_def
  by (rule writes_callOnDirty) (simp add: obj_ok_def obj_view_eq cong: option.case_cong)

lemma writes_touched: "writes X a (\<lambda>s so. (s, so\<lparr>touched := x\<rparr>)) (\<lambda>v. v)"
  unfolding writes_def
proof (intro allI impI)
  fix s so
  assume "obj_ok X a so" "\<not> deleted so"
  then show "\<exists>d so'. (s, so\<lparr>touched := x\<rparr>) = (s\<lparr>stateObjectsDirty := d\<rparr>, so') \<and> obj_ok X a so' \<and>
      \<not> deleted so' \<and> obj_view X so' = obj_view X so"
    by (intro exI [of _ "stateObjectsDirty s"]) simp
qed

lemma put_undone:
  assumes "writes X a f g" "quiet X s s1" "wf_state X s1" "obj_ok X a so" "\<not> deleted so"
  obtains s2 so' where "f s1 so = (s2, so')" "undone X s (setStateObject s2 so')"
    "world X (setStateObject s2 so') = putAcct a (g (obj_view X so)) (world X s)"
proof -
  obtain d so' where f: "f s1 so = (s1\<lparr>stateObjectsDirty := d\<rparr>, so')" "obj_ok X a so'" "\<not> deleted so'"
      "obj_view X so' = g (obj_view X so)"
    using assms(1,4,5) unfolding writes_def by blast
  then have "so_address so' = a" by (simp add: obj_ok_def)
  moreover have "wf_state X (setStateObject (s1\<lparr>stateObjectsDirty := d\<rparr>) so')"
    using f(2,3) assms(3) by (intro wf_setStateObject) simp_all
  ultimately show ?thesis
    using f assms(2) by (intro that [OF f(1)])
      (simp_all add: undone_def quiet_def same_frame_def world_setStateObject)
qed

lemma onObject_sim:
  assumes "writes X a f g" "wf_state X s" "modAcct a g (world X s) = Some w'"
  shows "\<exists>s'. onObject X s a f = Ok s' \<and> undone X s s' \<and> world X s' = w'"
proof -
  obtain so where so: "lookupObject X s a = Some so"
    using assms(3) by (auto simp: modAcct_def world_acct)
  obtain s1 where s1: "getStateObject X s a = (Some so, s1)" "quiet X s s1" "wf_state X s1"
      "obj_ok X a so" "\<not> deleted so"
    using getStateObject_Some [OF assms(2) so] by blast
  obtain s2 so' where "f s1 so = (s2, so')" "undone X s (setStateObject s2 so')"
      "world X (setStateObject s2 so') = putAcct a (g (obj_view X so)) (world X s)"
    using put_undone [OF assms(1) s1(2-5)] by blast
  then show ?thesis
    using assms(3) by (auto simp: onObject_def s1(1) modAcct_def world_acct so)
qed

text \<open>The code's \<^verbatim>\<open>undo\<close> methods implement \<open>aundo\<close>.\<close>

lemma undo_create:
  assumes "wf_state X s" "loadObject X (sd_trie s) a = None"
  shows "\<exists>s'. undo X s (CreateObjectChange a) = Ok s' \<and> undone X s s' \<and>
    world X s' = (world X s)\<lparr>w_acct := (w_acct (world X s))(a := None)\<rparr>"
  using assms
  by (auto simp: undone_def same_frame_def wf_state_def world_def lookupObject_def GetLogs_def fun_eq_iff
      cong: option.case_cong)

lemma undo_suicide:
  assumes "wf_state X s" "aundo X (SuicideChange a prev bal) (world X s) = Some w'"
  shows "\<exists>s'. undo X s (SuicideChange a prev bal) = Ok s' \<and> undone X s s' \<and> world X s' = w'"
proof (cases "lookupObject X s a")
  case None
  then obtain s1 where "getStateObject X s a = (None, s1)" "quiet X s s1"
    using getStateObject_None [OF assms(1)] by blast
  then show ?thesis
    using assms None quiet_undone by (auto simp: world_acct quiet_def)
next
  case (Some so)
  then obtain s1 where s1: "getStateObject X s a = (Some so, s1)" "quiet X s s1" "wf_state X s1"
      "obj_ok X a so" "\<not> deleted so"
    using getStateObject_Some [OF assms(1)] by blast
  obtain s2 so' where "so_setBalance s1 (so\<lparr>suicided := prev\<rparr>) bal = (s2, so')"
      "undone X s (setStateObject s2 so')"
      "world X (setStateObject s2 so') =
         putAcct a ((obj_view X so)\<lparr>v_suicided := prev, v_balance := bal\<rparr>) (world X s)"
    using put_undone [OF writes_suicided s1(2-5)] by blast
  then show ?thesis
    using assms(2) by (auto simp: s1(1) modAcct_def world_acct Some)
qed

lemma undo_touch:
  assumes "wf_state X s" "aundo X (TouchChange a prev pd) (world X s) = Some w'"
  shows "\<exists>s'. undo X s (TouchChange a prev pd) = Ok s' \<and> undone X s s' \<and> world X s' = w'"
proof (cases "\<not> prev \<and> a \<noteq> ripemd X")
  case False
  then show ?thesis using assms by (auto simp: undone_refl)
next
  case True
  with assms(2) have "w_acct (world X s) a \<noteq> None" and w': "w' = world X s"
    by (simp_all split: if_splits)
  then have "modAcct a (\<lambda>v. v) (world X s) = Some (world X s)"
    by (auto simp: modAcct_def putAcct_same)
  from onObject_sim [OF writes_touched [of X a prev] assms(1) this]
  obtain s' where "onObject X s a (\<lambda>s so. (s, so\<lparr>touched := prev\<rparr>)) = Ok s'" "undone X s s'"
      "world X s' = world X s"
    by blast
  then show ?thesis
    using True w' by (auto simp: undone_def same_frame_def)
qed

lemma undo_addlog:
  assumes "wf_state X s" "aundo X (AddLogChange h) (world X s) = Some w'"
  shows "\<exists>s'. undo X s (AddLogChange h) = Ok s' \<and> undone X s s' \<and> world X s' = w'"
proof -
  have ls: "GetLogs s h \<noteq> []" and w': "w' = (world X s)\<lparr>w_logs := (GetLogs s)(h := butlast (GetLogs s h)),
      w_logSize := logSize s - 1\<rparr>"
    using assms(2) by (simp_all split: if_splits)
  have "length (GetLogs s h) = 1 \<Longrightarrow> butlast (GetLogs s h) = []"
    by (simp add: length_Suc_conv) auto
  then have v: "(\<lambda>h'. case ((logs s)(h := if length (GetLogs s h) = 1 then None else Some (butlast (GetLogs s h)))) h'
      of None \<Rightarrow> [] | Some l \<Rightarrow> l) = (GetLogs s)(h := butlast (GetLogs s h))"
    by (auto simp: GetLogs_def fun_eq_iff)
  show ?thesis
    using assms(1) ls v [symmetric]
    by (cases "length (GetLogs s h) = 1") (simp_all add: Let_def w' undone_def same_frame_def)
qed

lemma undo_sim:
  assumes "wf_state X s" "entry_ok X (sd_trie s) e" "aundo X e (world X s) = Some w'"
  shows "\<exists>s'. undo X s e = Ok s' \<and> undone X s s' \<and> world X s' = w'"
proof (cases e)
  case (CreateObjectChange a)
  then show ?thesis using undo_create [OF assms(1)] assms by auto
next
  case (ResetObjectChange p)
  then show ?thesis
    using assms by (auto simp: undone_def same_frame_def world_setStateObject intro: wf_setStateObject)
next
  case (SuicideChange a prev bal)
  then show ?thesis using undo_suicide assms by blast
next
  case (CodeChange a c h)
  then show ?thesis
    using onObject_sim [OF writes_setCode assms(1)] assms(3) by (simp add: length_BytesToN)
next
  case (AddLogChange h)
  then show ?thesis using undo_addlog assms by blast
next
  case (TouchChange a prev pd)
  then show ?thesis using undo_touch assms by blast
next
  case (BalanceChange a b)
  then show ?thesis using onObject_sim [OF writes_setBalance assms(1)] assms(3) by simp
next
  case (NonceChange a n)
  then show ?thesis using onObject_sim [OF writes_setNonce assms(1)] assms(3) by simp
next
  case (StorageChange a k x)
  then show ?thesis using onObject_sim [OF writes_setState assms(1)] assms(3) by simp
qed (use assms in \<open>auto simp: undone_def same_frame_def\<close>)

fun aundoAll :: "Ext \<Rightarrow> journalEntry list \<Rightarrow> World \<Rightarrow> World option" where
  "aundoAll X [] w = Some w"
| "aundoAll X (e # es) w = (case aundo X e w of None \<Rightarrow> None | Some w' \<Rightarrow> aundoAll X es w')"

lemma aundoAll_append:
  "aundoAll X (es @ fs) w = (case aundoAll X es w of None \<Rightarrow> None | Some w' \<Rightarrow> aundoAll X fs w')"
  by (induction es arbitrary: w) (auto split: option.split)

lemma undoAll_sim:
  assumes "wf_state X s" "\<forall>e \<in> set es. entry_ok X (sd_trie s) e" "aundoAll X es (world X s) = Some w'"
  shows "\<exists>s'. undoAll X es s = Ok s' \<and> undone X s s' \<and> world X s' = w'"
  using assms
proof (induction es arbitrary: s)
  case Nil
  then show ?case by (simp add: undone_refl)
next
  case (Cons e es)
  then obtain w1 where w1: "aundo X e (world X s) = Some w1" "aundoAll X es w1 = Some w'"
    by (auto split: option.splits)
  then obtain s1 where s1: "undo X s e = Ok s1" "undone X s s1" "world X s1 = w1"
    using undo_sim [OF Cons.prems(1)] Cons.prems(2) by force
  moreover have "sd_trie s1 = sd_trie s" "wf_state X s1"
    using s1(2) by (simp_all add: undone_def same_frame_def)
  ultimately obtain s2 where "undoAll X es s1 = Ok s2" "undone X s1 s2" "world X s2 = w'"
    using Cons.IH [of s1] Cons.prems(2) w1(2) by auto
  then show ?case using s1 undone_trans by (auto simp: res_simps)
qed

section \<open>Journalled changes\<close>

definition journalled :: "Ext \<Rightarrow> StateDB \<Rightarrow> StateDB \<Rightarrow> bool" where
  "journalled X s s' \<longleftrightarrow> wf_state X s' \<and> same_frame s s' \<and> nextRevisionId s \<le> nextRevisionId s' \<and>
     (\<exists>es. journal s' = journal s @ es \<and> (\<forall>e \<in> set es. entry_ok X (sd_trie s) e) \<and>
        aundoAll X (rev es) (world X s') = Some (world X s)) \<and>
     (\<exists>rs. validRevisions s' = validRevisions s @ rs \<and>
        (\<forall>r \<in> set rs. nextRevisionId s \<le> rev_id r \<and> rev_id r < nextRevisionId s'))"

lemma journalled_wf: "journalled X s s' \<Longrightarrow> wf_state X s'"
  by (simp add: journalled_def)

lemma journalled_rev_ok: "journalled X s s' \<Longrightarrow> rev_ok s \<Longrightarrow> rev_ok s'"
  by (fastforce simp: journalled_def rev_ok_def)

lemma journalled_refl: "wf_state X s \<Longrightarrow> journalled X s s"
  by (simp add: journalled_def)

lemma quiet_journalled: "quiet X s s' \<Longrightarrow> wf_state X s \<Longrightarrow> journalled X s s'"
  by (simp add: journalled_def quiet_def)

lemma journalled_trans:
  assumes "journalled X s t" "journalled X t u"
  shows "journalled X s u"
proof -
  obtain es rs where 1: "journal t = journal s @ es" "\<forall>e \<in> set es. entry_ok X (sd_trie s) e"
      "aundoAll X (rev es) (world X t) = Some (world X s)" "validRevisions t = validRevisions s @ rs"
      "\<forall>r \<in> set rs. nextRevisionId s \<le> rev_id r \<and> rev_id r < nextRevisionId t"
    using assms(1) unfolding journalled_def by blast
  obtain es' rs' where 2: "journal u = journal t @ es'" "\<forall>e \<in> set es'. entry_ok X (sd_trie t) e"
      "aundoAll X (rev es') (world X u) = Some (world X t)" "validRevisions u = validRevisions t @ rs'"
      "\<forall>r \<in> set rs'. nextRevisionId t \<le> rev_id r \<and> rev_id r < nextRevisionId u"
    using assms(2) unfolding journalled_def by blast
  have f: "wf_state X u" "same_frame s u" "sd_trie t = sd_trie s"
      "nextRevisionId s \<le> nextRevisionId t" "nextRevisionId t \<le> nextRevisionId u"
    using assms same_frame_trans by (auto simp: journalled_def same_frame_def)
  have "aundoAll X (rev (es @ es')) (world X u) = Some (world X s)"
    using 1(3) 2(3) by (simp add: aundoAll_append)
  moreover have "\<forall>r \<in> set (rs @ rs'). nextRevisionId s \<le> rev_id r \<and> rev_id r < nextRevisionId u"
    using 1(5) 2(5) f(4,5) by (auto intro: le_trans less_le_trans)
  moreover have "journal u = journal s @ (es @ es')" "validRevisions u = validRevisions s @ (rs @ rs')"
    using 1 2 by simp_all
  moreover have "\<forall>e \<in> set (es @ es'). entry_ok X (sd_trie s) e"
    using 1(2) 2(2) f(3) by auto
  ultimately show ?thesis
    using f unfolding journalled_def by (meson le_trans)
qed

lemma quiet_then: "quiet X s t \<Longrightarrow> journalled X t u \<Longrightarrow> wf_state X s \<Longrightarrow> journalled X s u"
  using quiet_journalled journalled_trans by blast

lemma journalledI:
  assumes "wf_state X s'" "same_frame s s'" "journal s' = journal s @ es"
    "\<forall>e \<in> set es. entry_ok X (sd_trie s) e" "aundoAll X (rev es) (world X s') = Some (world X s)"
    "validRevisions s' = validRevisions s" "nextRevisionId s' = nextRevisionId s"
  shows "journalled X s s'"
  using assms by (auto simp: journalled_def)

section \<open>Snapshots\<close>

text \<open>\<^verbatim>\<open>sort.Search\<close> finds the boundary of a predicate that is false, then true.\<close>

lemma sortSearch_boundary:
  "i \<le> n \<Longrightarrow> n \<le> j \<Longrightarrow> (\<And>k. i \<le> k \<Longrightarrow> k < n \<Longrightarrow> \<not> f k) \<Longrightarrow> (\<And>k. n \<le> k \<Longrightarrow> k < j \<Longrightarrow> f k) \<Longrightarrow>
   sortSearch f i j = n"
proof (induction f i j rule: sortSearch.induct)
  case (1 f i j)
  show ?case
  proof (cases "i < j")
    case True
    let ?h = "(i + j) div 2"
    have h: "i \<le> ?h" "?h < j" using True by auto
    show ?thesis
    proof (cases "f ?h")
      case fh: True
      with "1.prems"(3) [of ?h] h have "n \<le> ?h" by force
      then have "sortSearch f i ?h = n" using "1.IH"(2) [OF True refl] fh "1.prems" h by force
      with True fh show ?thesis by (subst sortSearch.simps) (simp add: Let_def)
    next
      case fh: False
      with "1.prems"(4) [of ?h] h have "?h + 1 \<le> n" by force
      then have "sortSearch f (?h + 1) j = n" using "1.IH"(1) [OF True refl] fh "1.prems" h by force
      with True fh show ?thesis by (subst sortSearch.simps) (simp add: Let_def)
    qed
  next
    case False
    with "1.prems" show ?thesis by (subst sortSearch.simps) simp
  qed
qed

text \<open>
  Reverting to a snapshot taken at \<open>s\<close> after any journalled activity: no panic, and the world, the
  journal and the open revisions are those of \<open>s\<close>.
\<close>

lemma revert_snapshot:
  assumes "wf_state X s" "rev_ok s" "Snapshot s = (i, s1)" "journalled X s1 s2"
  shows "\<exists>s3. RevertToSnapshot X s2 i = Ok s3 \<and> world X s3 = world X s \<and> wf_state X s3 \<and>
    same_frame s s3 \<and> journal s3 = journal s \<and> validRevisions s3 = validRevisions s \<and>
    nextRevisionId s < nextRevisionId s3"
proof -
  have s1: "i = nextRevisionId s" "s1 = s\<lparr>nextRevisionId := i + 1,
      validRevisions := validRevisions s @ [\<lparr>rev_id = i, journalIndex = length (journal s)\<rparr>]\<rparr>"
    using assms(3) by (auto simp: Snapshot_def Let_def)
  obtain es rs where 1: "journal s2 = journal s @ es" "\<forall>e \<in> set es. entry_ok X (sd_trie s2) e"
      "aundoAll X (rev es) (world X s2) = Some (world X s)" "\<forall>r \<in> set rs. i + 1 \<le> rev_id r"
      "validRevisions s2 = validRevisions s @ \<lparr>rev_id = i, journalIndex = length (journal s)\<rparr> # rs"
    using assms(4) unfolding journalled_def same_frame_def s1(2) by auto
  let ?n = "length (validRevisions s)" and ?revs = "validRevisions s2"
  have "sortSearch (\<lambda>k. i \<le> rev_id (?revs ! k)) 0 (length ?revs) = ?n"
  proof (rule sortSearch_boundary)
    fix k assume "k < ?n"
    then show "\<not> i \<le> rev_id (?revs ! k)"
      using assms(2) s1(1) by (simp add: 1(5) nth_append rev_ok_def not_le)
  next
    fix k assume k: "?n \<le> k" "k < length ?revs"
    have "k = ?n \<or> k - Suc ?n < length rs" using k by (auto simp: 1(5))
    then have "k = ?n \<or> i + 1 \<le> rev_id (rs ! (k - Suc ?n))" using 1(4) nth_mem by blast
    then show "i \<le> rev_id (?revs ! k)"
      using k by (auto simp: 1(5) nth_append nth_Cons')
  qed (simp_all add: 1(5))
  moreover obtain s3 where s3: "undoAll X (rev es) s2 = Ok s3" "undone X s2 s3" "world X s3 = world X s"
    using undoAll_sim [of X s2 "rev es" "world X s"] 1(2,3) journalled_wf [OF assms(4)] by auto
  moreover have "same_frame s s2" "i < nextRevisionId s2"
    using assms(4) by (auto simp: journalled_def same_frame_def s1(2))
  ultimately show ?thesis
    using 1(1,5) s1(1)
    by (auto simp: RevertToSnapshot_def Let_def res_simps undone_def same_frame_def nth_append)
qed

lemma Snapshot_journalled: "wf_state X s \<Longrightarrow> Snapshot s = (i, s1) \<Longrightarrow> journalled X s s1"
  by (auto simp: Snapshot_def Let_def journalled_def same_frame_def)

lemma Snapshot_world [simp]: "world X (snd (Snapshot s)) = world X s"
  by (simp add: Snapshot_def Let_def)

lemma revert_journalled:
  assumes "wf_state X s" "rev_ok s" "Snapshot s = (i, s1)" "journalled X s1 s2"
    "RevertToSnapshot X s2 i = Ok s3"
  shows "journalled X s s3" "world X s3 = world X s"
  using revert_snapshot [OF assms(1-4)] assms(5) by (auto simp: journalled_def)

end
