(* ===== verification/StateOps.thy ===== *)
theory StateOps
  imports StateRefine
begin

text \<open>
  The operations of \<^verbatim>\<open>StateDB\<close> against the abstract state: every writer is shown to change the world
  as its specification says and to be journalled, every getter to read the world and to be
  invisible. The \<^verbatim>\<open>locale\<close> \<open>snapshots\<close> states the contract the EVM relies on, and is interpreted on
  the database.
\<close>

section \<open>Writing one account\<close>

definition emptyView :: "Ext \<Rightarrow> AcctView" where
  "emptyView X = \<lparr>v_nonce = 0, v_balance = 0, v_codehash = emptyCodeHash X, v_code = [],
     v_storage = (\<lambda>_. zeroHash), v_suicided = False\<rparr>"

definition acctOr :: "Ext \<Rightarrow> World \<Rightarrow> Address \<Rightarrow> AcctView" where
  "acctOr X w a = (case w_acct w a of None \<Rightarrow> emptyView X | Some v \<Rightarrow> v)"

definition updAcct :: "Ext \<Rightarrow> Address \<Rightarrow> (AcctView \<Rightarrow> AcctView) \<Rightarrow> World \<Rightarrow> World" where
  "updAcct X a f w = putAcct a (f (acctOr X w a)) w"

lemma newObject_view: "obj_view X (newObject X a (zeroAccount X)) = emptyView X"
  by (simp add: obj_view_eq newObject_def zeroAccount_def emptyView_def codeView_def trieView_def
      OpenStorageTrie_def storedValue_def emptyTrie_def)

lemma newObject_ok:
  "ext_ok X \<Longrightarrow> obj_ok X a (newObject X a (zeroAccount X)) \<and> \<not> deleted (newObject X a (zeroAccount X))"
  by (simp add: obj_ok_def newObject_def zeroAccount_def emptyCodeHash_def ext_ok_def)

text \<open>The object \<^verbatim>\<open>createObject\<close> makes; its \<^verbatim>\<open>onDirty\<close> callback has been used up.\<close>

abbreviation freshObject :: "Ext \<Rightarrow> Address \<Rightarrow> stateObject" where
  "freshObject X a \<equiv> (newObject X a (zeroAccount X))\<lparr>onDirty := False\<rparr>"

lemma createObject_eq:
  assumes "getStateObject X s a = (prev, s1)"
  shows "createObject X s a = ((freshObject X a, prev),
    setStateObject (s1\<lparr>stateObjectsDirty := insert a (stateObjectsDirty s1),
        journal := journal s1 @ [case prev of None \<Rightarrow> CreateObjectChange a | Some p \<Rightarrow> ResetObjectChange p]\<rparr>)
      (freshObject X a))"
proof -
  have "so_setNonce s1 (newObject X a (zeroAccount X)) 0 =
      (s1\<lparr>stateObjectsDirty := insert a (stateObjectsDirty s1)\<rparr>, freshObject X a)"
    by (simp add: so_setNonce_def callOnDirty_def newObject_def zeroAccount_def)
  then show ?thesis by (simp add: createObject_def assms journalAppend_def Let_def)
qed

lemma lookup_None_load: "wf_state X s \<Longrightarrow> lookupObject X s a = None \<Longrightarrow> loadObject X (sd_trie s) a = None"
  by (auto simp: lookupObject_def wf_state_def split: option.splits if_splits)

lemma ext_ok_wf: "wf_state X s \<Longrightarrow> ext_ok X"
  by (simp add: wf_state_def)

lemma acctOr_lookup:
  "acctOr X (world X s) a = (case lookupObject X s a of None \<Rightarrow> emptyView X | Some so \<Rightarrow> obj_view X so)"
  by (simp add: acctOr_def world_acct split: option.split)

lemma createObject_spec:
  assumes "wf_state X s"
  shows "\<exists>s2 e. createObject X s a = ((freshObject X a, lookupObject X s a), s2) \<and> journalled X s s2 \<and>
    world X s2 = putAcct a (emptyView X) (world X s) \<and> lookupObject X s2 a = Some (freshObject X a) \<and>
    journal s2 = journal s @ [e] \<and> entry_ok X (sd_trie s) e \<and>
    (\<forall>v. aundo X e (putAcct a v (world X s)) = Some (world X s)) \<and>
    validRevisions s2 = validRevisions s \<and> nextRevisionId s2 = nextRevisionId s"
proof -
  obtain s1 where s1: "getStateObject X s a = (lookupObject X s a, s1)" "quiet X s s1" "wf_state X s1"
      "lookupObject X s1 a = lookupObject X s a"
    using getStateObject_spec [OF assms] by blast
  let ?e = "case lookupObject X s a of None \<Rightarrow> CreateObjectChange a | Some p \<Rightarrow> ResetObjectChange p"
  let ?s = "s1\<lparr>stateObjectsDirty := insert a (stateObjectsDirty s1), journal := journal s1 @ [?e]\<rparr>"
  let ?o = "freshObject X a"
  have o: "obj_ok X a ?o" "\<not> deleted ?o" "so_address ?o = a"
    using newObject_ok [OF ext_ok_wf [OF assms], of a] by (simp_all add: newObject_def obj_ok_def)
  have w: "world X (setStateObject ?s ?o) = putAcct a (emptyView X) (world X s)"
    using s1(2) o by (simp add: world_setStateObject newObject_view quiet_def)
  have t: "sd_trie s1 = sd_trie s" "journal s1 = journal s" "world X s1 = world X s"
    using s1(2) by (simp_all add: quiet_def same_frame_def)
  have "entry_ok X (sd_trie s) ?e"
    using lookup_None_load [OF assms] lookup_ok [OF assms] by (auto simp: obj_ok_def split: option.split)
  moreover have "aundo X ?e (putAcct a v (world X s)) = Some (world X s)" for v
  proof (cases "lookupObject X s a")
    case None
    then have "w_acct (world X s) a = None" by (simp add: world_acct)
    then show ?thesis using None by (simp add: putAcct_def fun_upd_idem)
  next
    case (Some so)
    then have "so_address so = a" "w_acct (world X s) a = Some (obj_view X so)"
      using lookup_ok [OF assms Some] by (simp_all add: obj_ok_def world_acct)
    then show ?thesis using Some by (simp add: putAcct_same)
  qed
  moreover have "validRevisions s1 = validRevisions s" "nextRevisionId s1 = nextRevisionId s"
    using s1(2) by (simp_all add: quiet_def)
  moreover have "journalled X s (setStateObject ?s ?o)"
    using s1(2,3) o w t calculation
    by (intro journalledI [where es = "[?e]"])
      (simp_all add: wf_setStateObject quiet_def same_frame_def)
  ultimately show ?thesis
    using w o t by (simp add: createObject_eq [OF s1(1)] lookup_setStateObject)
qed

lemma GetOrNewStateObject_spec:
  assumes "wf_state X s"
  obtains so s1 where "GetOrNewStateObject X s a = (so, s1)" "journalled X s s1" "obj_ok X a so"
    "\<not> deleted so" "obj_view X so = acctOr X (world X s) a" "lookupObject X s1 a = Some so"
    "world X s1 = putAcct a (obj_view X so) (world X s)"
proof (cases "lookupObject X s a")
  case None
  obtain s1 where s1: "getStateObject X s a = (None, s1)" "quiet X s s1" "wf_state X s1"
      "lookupObject X s1 a = None"
    using getStateObject_None [OF assms None] by blast
  obtain s2 where s2: "createObject X s1 a = ((freshObject X a, None), s2)" "journalled X s1 s2"
      "world X s2 = putAcct a (emptyView X) (world X s1)" "lookupObject X s2 a = Some (freshObject X a)"
    using createObject_spec [OF s1(3), of a] s1(4) by auto
  have o: "obj_ok X a (freshObject X a)" "\<not> deleted (freshObject X a)"
    using newObject_ok [OF ext_ok_wf [OF assms], of a] by simp_all
  show ?thesis
    using s1(2) o s2 quiet_then [OF s1(2) s2(2) assms]
    by (intro that [of "freshObject X a" s2])
      (simp_all add: GetOrNewStateObject_def s1(1) s2(1) newObject_view acctOr_lookup None quiet_def)
next
  case (Some so)
  obtain s1 where s1: "getStateObject X s a = (Some so, s1)" "quiet X s s1" "wf_state X s1"
      "lookupObject X s1 a = Some so" "obj_ok X a so" "\<not> deleted so"
    using getStateObject_Some [OF assms Some] by blast
  show ?thesis
    using s1 quiet_journalled [OF s1(2) assms]
    by (intro that [of so s1])
      (simp_all add: GetOrNewStateObject_def acctOr_lookup Some putAcct_same world_acct quiet_def)
qed

text \<open>
  A method that changes an object as \<open>g\<close> says and journals entries that take the change back.
\<close>

definition jwrites ::
  "Ext \<Rightarrow> Address \<Rightarrow> (StateDB \<Rightarrow> stateObject \<Rightarrow> StateDB \<times> stateObject) \<Rightarrow> (AcctView \<Rightarrow> AcctView) \<Rightarrow> bool" where
  "jwrites X a f g \<longleftrightarrow> (\<forall>s so. obj_ok X a so \<longrightarrow> \<not> deleted so \<longrightarrow>
     (\<exists>es d so'. f s so = (s\<lparr>journal := journal s @ es, stateObjectsDirty := d\<rparr>, so') \<and>
        obj_ok X a so' \<and> \<not> deleted so' \<and> obj_view X so' = g (obj_view X so) \<and>
        (\<forall>e \<in> set es. \<forall>tr. entry_ok X tr e) \<and>
        (\<forall>w. aundoAll X (rev es) (putAcct a (g (obj_view X so)) w) = Some (putAcct a (obj_view X so) w))))"

lemma withObject_spec:
  assumes "wf_state X s" "jwrites X a f g"
  shows "journalled X s (withObject X s a f)"
    "world X (withObject X s a f) = updAcct X a g (world X s)"
proof -
  obtain so s1 where 1: "GetOrNewStateObject X s a = (so, s1)" "journalled X s s1" "obj_ok X a so"
      "\<not> deleted so" "obj_view X so = acctOr X (world X s) a" "lookupObject X s1 a = Some so"
      "world X s1 = putAcct a (obj_view X so) (world X s)"
    using GetOrNewStateObject_spec [OF assms(1)] by metis
  obtain es d so' where 2: "f s1 so = (s1\<lparr>journal := journal s1 @ es, stateObjectsDirty := d\<rparr>, so')"
      "obj_ok X a so'" "\<not> deleted so'" "obj_view X so' = g (obj_view X so)"
      "\<forall>e \<in> set es. \<forall>tr. entry_ok X tr e"
      "\<And>w. aundoAll X (rev es) (putAcct a (g (obj_view X so)) w) = Some (putAcct a (obj_view X so) w)"
    using assms(2) 1(3,4) unfolding jwrites_def by metis
  let ?s = "s1\<lparr>journal := journal s1 @ es, stateObjectsDirty := d\<rparr>"
  have a: "so_address so' = a" using 2(2) by (simp add: obj_ok_def)
  have eq: "withObject X s a f = setStateObject ?s so'" by (simp add: withObject_def 1(1) 2(1))
  have w: "world X (setStateObject ?s so') = putAcct a (g (obj_view X so)) (world X s1)"
    using a 2(3,4) by (simp add: world_setStateObject)
  have "journalled X s1 (setStateObject ?s so')"
    using 2 w 1(7) journalled_wf [OF 1(2)]
    by (intro journalledI [where es = es]) (simp_all add: wf_setStateObject same_frame_def)
  then show "journalled X s (withObject X s a f)"
    unfolding eq using 1(2) journalled_trans by blast
  show "world X (withObject X s a f) = updAcct X a g (world X s)"
    unfolding eq w 1(7) by (simp add: updAcct_def 1(5))
qed

text \<open>One entry, then a plain write, possibly on an object whose caches were filled by a read.\<close>

lemma jwrites_one:
  assumes "writes X a f g"
    and "\<And>so. obj_ok X a so \<Longrightarrow> \<not> deleted so \<Longrightarrow> read_only X so (r so)"
    and "\<And>so w. obj_ok X a so \<Longrightarrow> aundo X (e so) (putAcct a (g (obj_view X so)) w) =
           Some (putAcct a (obj_view X so) w)"
    and "\<And>so tr. obj_ok X a so \<Longrightarrow> \<not> deleted so \<Longrightarrow> entry_ok X tr (e so)"
  shows "jwrites X a (\<lambda>s so. f (journalAppend s (e so)) (r so)) g"
  unfolding jwrites_def
proof (intro allI impI)
  fix s so
  assume o: "obj_ok X a so" "\<not> deleted so"
  have r: "obj_ok X a (r so)" "\<not> deleted (r so)" "obj_view X (r so) = obj_view X so"
    using assms(2) [OF o] o read_only_obj_ok [OF assms(2) [OF o]] by (simp_all add: read_only_def)
  obtain d so' where "f (journalAppend s (e so)) (r so) = ((journalAppend s (e so))\<lparr>stateObjectsDirty := d\<rparr>, so')"
      "obj_ok X a so'" "\<not> deleted so'" "obj_view X so' = g (obj_view X so)"
    using assms(1) [unfolded writes_def, rule_format, OF r(1,2), of "journalAppend s (e so)"] r(3) by auto
  then show "\<exists>es d so'. f (journalAppend s (e so)) (r so) = (s\<lparr>journal := journal s @ es, stateObjectsDirty := d\<rparr>, so') \<and>
        obj_ok X a so' \<and> \<not> deleted so' \<and> obj_view X so' = g (obj_view X so) \<and>
        (\<forall>e \<in> set es. \<forall>tr. entry_ok X tr e) \<and>
        (\<forall>w. aundoAll X (rev es) (putAcct a (g (obj_view X so)) w) = Some (putAcct a (obj_view X so) w))"
    using assms(3,4) o by (intro exI [of _ "[e so]"] exI [of _ d] exI [of _ so']) (simp add: journalAppend_def)
qed

lemma obj_view_sel:
  "v_nonce (obj_view X so) = Nonce (so_data so)" "v_balance (obj_view X so) = Balance (so_data so)"
  "v_codehash (obj_view X so) = CodeHash (so_data so)" "v_suicided (obj_view X so) = suicided so"
  "v_storage (obj_view X so) k = fst (so_GetState X so k)"
  by (simp_all add: obj_view_def)

lemma AcctView_idem:
  "v\<lparr>v_balance := v_balance v\<rparr> = v" "v\<lparr>v_nonce := v_nonce v\<rparr> = v" "v\<lparr>v_storage := v_storage v\<rparr> = v"
  by (cases v; simp)+

lemma read_only_refl [simp]: "read_only X so so"
  by (simp add: read_only_def)

lemma jwrites_SetBalance:
  "jwrites X a (\<lambda>s so. so_SetBalance s so b) (\<lambda>v. v\<lparr>v_balance := b\<rparr>)"
  unfolding so_SetBalance_def
  by (rule jwrites_one [where r = "\<lambda>so. so", OF writes_setBalance])
    (auto simp: modAcct_def obj_ok_def obj_view_sel(2) [of X, symmetric] AcctView_idem)

lemma jwrites_SetNonce:
  "jwrites X a (\<lambda>s so. so_SetNonce s so n) (\<lambda>v. v\<lparr>v_nonce := n\<rparr>)"
  unfolding so_SetNonce_def
  by (rule jwrites_one [where r = "\<lambda>so. so", OF writes_setNonce])
    (auto simp: modAcct_def obj_ok_def obj_view_sel(1) [of X, symmetric] AcctView_idem)

lemma jwrites_SetState:
  "jwrites X a (\<lambda>s so. so_SetState X s so k x) (\<lambda>v. v\<lparr>v_storage := (v_storage v)(k := x)\<rparr>)"
  unfolding so_SetState_def case_prod_unfold
  by (rule jwrites_one [OF writes_setState])
    (auto simp: modAcct_def obj_ok_def so_GetState_read_only obj_view_sel(5) [symmetric] AcctView_idem)

lemma codeView_so_Code:
  "obj_ok X a so \<Longrightarrow> codeView X (Keccak256 X a) (CodeHash (so_data so)) (fst (so_Code X so)) =
     v_code (obj_view X so)"
  by (auto simp: obj_ok_def obj_view_eq so_Code_def codeView_def split: option.splits prod.splits)

lemma jwrites_SetCode:
  assumes "length h = 32"
  shows "jwrites X a (\<lambda>s so. so_SetCode X s so h c)
    (\<lambda>v. v\<lparr>v_codehash := h, v_code := codeView X (Keccak256 X a) h c\<rparr>)"
  unfolding so_SetCode_def case_prod_unfold
proof (rule jwrites_one [OF writes_setCode [OF assms]])
  fix so w
  assume o: "obj_ok X a so"
  have "CodeHash (so_data (snd (so_Code X so))) = CodeHash (so_data so)"
    using so_Code_read_only [of X so] by (simp add: read_only_def)
  moreover have "BytesToHash (CodeHash (so_data so)) = CodeHash (so_data so)"
    using o by (simp add: obj_ok_def BytesToN_id)
  moreover have "so_address so = a" using o by (simp add: obj_ok_def)
  moreover have "(obj_view X so)\<lparr>v_codehash := CodeHash (so_data so)\<rparr> = obj_view X so"
    by (simp add: obj_view_def)
  ultimately show "aundo X (CodeChange (so_address so) (fst (so_Code X so)) (CodeHash (so_data (snd (so_Code X so)))))
      (putAcct a ((obj_view X so)\<lparr>v_codehash := h, v_code := codeView X (Keccak256 X a) h c\<rparr>) w) =
      Some (putAcct a (obj_view X so) w)"
    using codeView_so_Code [OF o] by (simp add: modAcct_def)
qed (simp_all add: so_Code_read_only)

lemma jwrites_id: "jwrites X a (\<lambda>s so. (s, so)) (\<lambda>v. v)"
proof -
  have "\<exists>es d so'. (s, so) = (s\<lparr>journal := journal s @ es, stateObjectsDirty := d\<rparr>, so') \<and> obj_ok X a so' \<and>
      \<not> deleted so' \<and> obj_view X so' = obj_view X so \<and> (\<forall>e \<in> set es. \<forall>tr. entry_ok X tr e) \<and>
      (\<forall>w. aundoAll X (rev es) (putAcct a (obj_view X so) w) = Some (putAcct a (obj_view X so) w))"
    if "obj_ok X a so" "\<not> deleted so" for s so
    using that by (intro exI [of _ "[]"] exI [of _ "stateObjectsDirty s"] exI [of _ so]) simp
  then show ?thesis unfolding jwrites_def by blast
qed

lemma jwrites_touch: "jwrites X a so_touch (\<lambda>v. v)"
proof -
  have "writes X a (\<lambda>s so. case callOnDirty s so of (s', c') \<Rightarrow> (s', c'\<lparr>touched := True\<rparr>)) (\<lambda>v. v)"
    unfolding writes_def callOnDirty_eq prod.case
    by (intro allI impI exI conjI, rule refl, simp_all)
  from jwrites_one [where r = "\<lambda>so. so" and
      e = "\<lambda>so. TouchChange (so_address so) (touched so) (\<not> onDirty so)", OF this]
  have "jwrites X a (\<lambda>s so. case callOnDirty (journalAppend s
      (TouchChange (so_address so) (touched so) (\<not> onDirty so))) so of (s', c') \<Rightarrow> (s', c'\<lparr>touched := True\<rparr>))
      (\<lambda>v. v)"
    by (simp add: obj_ok_def)
  then show ?thesis by (simp add: so_touch_def [abs_def])
qed

text \<open>A method that picks its way by looking at the object.\<close>

lemma jwrites_if:
  assumes "jwrites X a f g" "jwrites X a f' g"
  shows "jwrites X a (\<lambda>s so. if P so then f s so else f' s so) g"
  using assms unfolding jwrites_def by (simp split: if_split)

lemma jwrites_cong:
  assumes "\<And>b. jwrites X a (F b) (\<lambda>v. v\<lparr>v_balance := G b\<rparr>)"
  shows "jwrites X a (\<lambda>s so. F (B (Balance (so_data so))) s so) (\<lambda>v. v\<lparr>v_balance := G (B (v_balance v))\<rparr>)"
  using assms unfolding jwrites_def by (simp add: obj_view_sel)

lemma jwrites_AddBalance:
  "jwrites X a (\<lambda>s so. so_AddBalance X s so n) (\<lambda>v. v\<lparr>v_balance := v_balance v + n\<rparr>)"
proof (cases "n = 0")
  case True
  then show ?thesis
    using jwrites_if [OF jwrites_touch jwrites_id, of X a "so_empty X"]
    by (simp add: so_AddBalance_def AcctView_idem)
next
  case False
  then show ?thesis
    using jwrites_cong [OF jwrites_SetBalance, of X a "\<lambda>b. b + n"] by (simp add: so_AddBalance_def)
qed

lemma jwrites_SubBalance:
  "jwrites X a (\<lambda>s so. so_SubBalance s so n) (\<lambda>v. v\<lparr>v_balance := v_balance v - n\<rparr>)"
proof (cases "n = 0")
  case True
  then show ?thesis using jwrites_id by (simp add: so_SubBalance_def AcctView_idem)
next
  case False
  then show ?thesis
    using jwrites_cong [OF jwrites_SetBalance, of X a "\<lambda>b. b - n"] by (simp add: so_SubBalance_def)
qed

section \<open>The writers\<close>

lemma AddBalance_spec:
  assumes "wf_state X s"
  shows "journalled X s (AddBalance X s a n)"
    "world X (AddBalance X s a n) = updAcct X a (\<lambda>v. v\<lparr>v_balance := v_balance v + n\<rparr>) (world X s)"
  unfolding AddBalance_def by (rule withObject_spec [OF assms jwrites_AddBalance])+

lemma SubBalance_spec:
  assumes "wf_state X s"
  shows "journalled X s (SubBalance X s a n)"
    "world X (SubBalance X s a n) = updAcct X a (\<lambda>v. v\<lparr>v_balance := v_balance v - n\<rparr>) (world X s)"
  unfolding SubBalance_def by (rule withObject_spec [OF assms jwrites_SubBalance])+

lemma SetBalance_spec:
  assumes "wf_state X s"
  shows "journalled X s (SetBalance X s a n)"
    "world X (SetBalance X s a n) = updAcct X a (\<lambda>v. v\<lparr>v_balance := n\<rparr>) (world X s)"
  unfolding SetBalance_def by (rule withObject_spec [OF assms jwrites_SetBalance])+

lemma SetNonce_spec:
  assumes "wf_state X s"
  shows "journalled X s (SetNonce X s a n)"
    "world X (SetNonce X s a n) = updAcct X a (\<lambda>v. v\<lparr>v_nonce := n\<rparr>) (world X s)"
  unfolding SetNonce_def by (rule withObject_spec [OF assms jwrites_SetNonce])+

lemma SetState_spec:
  assumes "wf_state X s"
  shows "journalled X s (SetState X s a k x)"
    "world X (SetState X s a k x) =
       updAcct X a (\<lambda>v. v\<lparr>v_storage := (v_storage v)(k := x)\<rparr>) (world X s)"
  unfolding SetState_def by (rule withObject_spec [OF assms jwrites_SetState])+

lemma codeView_set: "codeView X ah (Keccak256 X c) (if c = [] then None else Some c) = c"
  by (simp add: codeView_def emptyCodeHash_def)

lemma SetCode_spec:
  assumes "wf_state X s"
  shows "journalled X s (SetCode X s a c)"
    "world X (SetCode X s a c) =
       updAcct X a (\<lambda>v. v\<lparr>v_codehash := Keccak256 X c, v_code := c\<rparr>) (world X s)"
proof -
  have h: "length (Keccak256 X c) = 32" using ext_ok_wf [OF assms] by (simp add: ext_ok_def)
  note w = withObject_spec [OF assms jwrites_SetCode [OF h, where c = "if c = [] then None else Some c"]]
  show "journalled X s (SetCode X s a c)" unfolding SetCode_def by (rule w)
  show "world X (SetCode X s a c) =
      updAcct X a (\<lambda>v. v\<lparr>v_codehash := Keccak256 X c, v_code := c\<rparr>) (world X s)"
    using w(2) [of a] unfolding SetCode_def codeView_set .
qed

lemma journalAppend_fields [simp]:
  "journal (journalAppend s e) = journal s @ [e]" "world X (journalAppend s e) = world X s"
  "wf_state X (journalAppend s e) = wf_state X s" "same_frame t (journalAppend s e) = same_frame t s"
  "lookupObject X (journalAppend s e) = lookupObject X s" "thash (journalAppend s e) = thash s"
  "logs (journalAppend s e) = logs s" "logSize (journalAppend s e) = logSize s"
  "validRevisions (journalAppend s e) = validRevisions s"
  "nextRevisionId (journalAppend s e) = nextRevisionId s" "GetLogs (journalAppend s e) = GetLogs s"
  by (simp_all add: journalAppend_def same_frame_def GetLogs_def [abs_def])

lemma CreateAccount_spec:
  assumes "wf_state X s"
  shows "journalled X s (CreateAccount X s a)"
    "world X (CreateAccount X s a) =
       putAcct a ((emptyView X)\<lparr>v_balance := v_balance (acctOr X (world X s) a)\<rparr>) (world X s)"
proof -
  obtain s2 e where s2: "createObject X s a = ((freshObject X a, lookupObject X s a), s2)"
      "journalled X s s2" "world X s2 = putAcct a (emptyView X) (world X s)"
      "journal s2 = journal s @ [e]" "entry_ok X (sd_trie s) e"
      "\<And>v. aundo X e (putAcct a v (world X s)) = Some (world X s)"
      "validRevisions s2 = validRevisions s" "nextRevisionId s2 = nextRevisionId s"
    using createObject_spec [OF assms] by blast
  have "journalled X s (CreateAccount X s a) \<and> world X (CreateAccount X s a) =
      putAcct a ((emptyView X)\<lparr>v_balance := v_balance (acctOr X (world X s) a)\<rparr>) (world X s)"
  proof (cases "lookupObject X s a")
    case None
    then show ?thesis
      using s2 by (simp add: CreateAccount_def acctOr_lookup emptyView_def)
  next
    case (Some p)
    let ?o = "(freshObject X a)\<lparr>so_data := (so_data (freshObject X a))\<lparr>Balance := Balance (so_data p)\<rparr>\<rparr>"
    have o: "obj_ok X a ?o" "\<not> deleted ?o" "so_address ?o = a"
      using newObject_ok [OF ext_ok_wf [OF assms], of a] by (simp_all add: newObject_def obj_ok_def)
    have v: "obj_view X ?o = (emptyView X)\<lparr>v_balance := Balance (so_data p)\<rparr>"
      unfolding newObject_view [of X a, symmetric] by (simp add: obj_view_eq cong: option.case_cong)
    have eq: "CreateAccount X s a = setStateObject s2 ?o"
      by (simp add: CreateAccount_def s2(1) Some so_setBalance_def callOnDirty_def)
    have w: "world X (setStateObject s2 ?o) =
        putAcct a ((emptyView X)\<lparr>v_balance := Balance (so_data p)\<rparr>) (world X s)"
      unfolding v [symmetric] using s2(3) o by (simp add: world_setStateObject)
    have "journalled X s (setStateObject s2 ?o)"
      using s2(2,4-8) w o
      by (intro journalledI [where es = "[e]"]) (simp_all add: wf_setStateObject journalled_def same_frame_def)
    then show ?thesis unfolding eq w by (simp add: acctOr_lookup Some obj_view_sel)
  qed
  then show "journalled X s (CreateAccount X s a)"
    "world X (CreateAccount X s a) =
       putAcct a ((emptyView X)\<lparr>v_balance := v_balance (acctOr X (world X s) a)\<rparr>) (world X s)"
    by simp_all
qed

lemma Suicide_spec:
  assumes "wf_state X s"
  shows "journalled X s (snd (Suicide X s a))"
    "fst (Suicide X s a) = (w_acct (world X s) a \<noteq> None)"
    "world X (snd (Suicide X s a)) =
       (case w_acct (world X s) a of None \<Rightarrow> world X s
        | Some v \<Rightarrow> putAcct a (v\<lparr>v_suicided := True, v_balance := 0\<rparr>) (world X s))"
proof -
  have "journalled X s (snd (Suicide X s a)) \<and> fst (Suicide X s a) = (w_acct (world X s) a \<noteq> None) \<and>
    world X (snd (Suicide X s a)) =
       (case w_acct (world X s) a of None \<Rightarrow> world X s
        | Some v \<Rightarrow> putAcct a (v\<lparr>v_suicided := True, v_balance := 0\<rparr>) (world X s))"
  proof (cases "lookupObject X s a")
    case None
    then obtain s1 where "getStateObject X s a = (None, s1)" "quiet X s s1"
      using getStateObject_None [OF assms] by blast
    then show ?thesis
      using quiet_journalled [OF _ assms] by (simp add: Suicide_def world_acct None quiet_def)
  next
    case (Some so)
    then obtain s1 where s1: "getStateObject X s a = (Some so, s1)" "quiet X s s1" "wf_state X s1"
        "obj_ok X a so" "\<not> deleted so" "so_address so = a"
      using getStateObject_Some [OF assms] by blast
    let ?e = "SuicideChange a (suicided so) (Balance (so_data so))"
    let ?o = "so\<lparr>suicided := True, onDirty := False, so_data := (so_data so)\<lparr>Balance := 0\<rparr>\<rparr>"
    define t where "t = fst (callOnDirty (journalAppend s1 ?e) (so\<lparr>suicided := True\<rparr>))"
    have eq: "Suicide X s a = (True, setStateObject t ?o)"
      by (simp add: Suicide_def s1(1) markSuicided_def t_def callOnDirty_eq)
    have o: "obj_ok X a ?o" "\<not> deleted ?o" "so_address ?o = a" using s1(4-6) by (simp_all add: obj_ok_def)
    have v: "obj_view X ?o = (obj_view X so)\<lparr>v_suicided := True, v_balance := 0\<rparr>"
      by (simp add: obj_view_eq cong: option.case_cong)
    have t: "wf_state X t" "same_frame s t" "journal t = journal s @ [?e]" "world X t = world X s"
        "validRevisions t = validRevisions s" "nextRevisionId t = nextRevisionId s"
      using s1(2,3) by (simp_all add: t_def callOnDirty_eq quiet_def same_frame_def journalAppend_def)
    have acct: "w_acct (world X s) a = Some (obj_view X so)" by (simp add: world_acct Some)
    have w: "world X (setStateObject t ?o) =
        putAcct a ((obj_view X so)\<lparr>v_suicided := True, v_balance := 0\<rparr>) (world X s)"
      unfolding v [symmetric] using t(4) o by (simp add: world_setStateObject)
    have "(obj_view X so)\<lparr>v_suicided := suicided so, v_balance := Balance (so_data so)\<rparr> = obj_view X so"
      by (simp add: obj_view_def)
    then have "aundo X ?e (putAcct a ((obj_view X so)\<lparr>v_suicided := True, v_balance := 0\<rparr>) (world X s)) =
        Some (world X s)"
      by (simp add: modAcct_def putAcct_same acct)
    then have "journalled X s (setStateObject t ?o)"
      using t w o by (intro journalledI [where es = "[?e]"])
        (simp_all add: wf_setStateObject same_frame_def)
    then show ?thesis using w by (simp add: eq acct)
  qed
  then show "journalled X s (snd (Suicide X s a))"
    "fst (Suicide X s a) = (w_acct (world X s) a \<noteq> None)"
    "world X (snd (Suicide X s a)) =
       (case w_acct (world X s) a of None \<Rightarrow> world X s
        | Some v \<Rightarrow> putAcct a (v\<lparr>v_suicided := True, v_balance := 0\<rparr>) (world X s))"
    by simp_all
qed

definition stampLog :: "Hash \<Rightarrow> Hash \<Rightarrow> int \<Rightarrow> uint64 \<Rightarrow> Log \<Rightarrow> Log" where
  "stampLog th bh ti n log =
     log\<lparr>lg_TxHash := th, lg_BlockHash := bh, lg_TxIndex := word_of_int ti, lg_Index := n\<rparr>"

definition pushLog :: "Hash \<Rightarrow> Hash \<Rightarrow> int \<Rightarrow> Log \<Rightarrow> World \<Rightarrow> World" where
  "pushLog th bh ti log w =
     w\<lparr>w_logs := (w_logs w)(th := w_logs w th @ [stampLog th bh ti (w_logSize w) log]),
       w_logSize := w_logSize w + 1\<rparr>"

lemma AddLog_spec:
  assumes "wf_state X s"
  shows "journalled X s (AddLog s log)"
    "world X (AddLog s log) = pushLog (thash s) (bhash s) (txIndex s) log (world X s)"
proof -
  show w: "world X (AddLog s log) = pushLog (thash s) (bhash s) (txIndex s) log (world X s)"
    by (auto simp: AddLog_def Let_def pushLog_def stampLog_def journalAppend_def GetLogs_def fun_eq_iff
        world_def lookupObject_def cong: option.case_cong)
  show "journalled X s (AddLog s log)"
  proof (rule journalledI [where es = "[AddLogChange (thash s)]"])
    have "(world X s)\<lparr>w_logs := GetLogs s, w_logSize := logSize s\<rparr> = world X s"
      by (simp add: world_def)
    then show "aundoAll X (rev [AddLogChange (thash s)]) (world X (AddLog s log)) = Some (world X s)"
      unfolding w by (simp add: pushLog_def)
  qed (use assms in \<open>simp_all add: AddLog_def Let_def journalAppend_def same_frame_def\<close>)
qed

lemma AddPreimage_spec:
  assumes "wf_state X s"
  shows "journalled X s (AddPreimage s h b)"
    "world X (AddPreimage s h b) =
       (world X s)\<lparr>w_preimages := (if preimages s h = None then (preimages s)(h \<mapsto> b) else preimages s)\<rparr>"
proof -
  have i: "(world X s)\<lparr>w_preimages := preimages s\<rparr> = world X s" by (simp add: world_def)
  show w: "world X (AddPreimage s h b) =
       (world X s)\<lparr>w_preimages := (if preimages s h = None then (preimages s)(h \<mapsto> b) else preimages s)\<rparr>"
    by (auto simp: AddPreimage_def journalAppend_def i split: option.split)
  show "journalled X s (AddPreimage s h b)"
  proof (cases "preimages s h")
    case None
    show ?thesis
      by (rule journalledI [where es = "[AddPreimageChange h]"])
        (use assms None w i in \<open>simp_all add: AddPreimage_def journalAppend_def same_frame_def fun_upd_idem\<close>)
  next
    case (Some x)
    then show ?thesis using journalled_refl [OF assms] by (simp add: AddPreimage_def)
  qed
qed

lemma AddRefund_spec:
  assumes "wf_state X s"
  shows "journalled X s (AddRefund s n)"
    "world X (AddRefund s n) = (world X s)\<lparr>w_refund := w_refund (world X s) + n\<rparr>"
proof -
  show w: "world X (AddRefund s n) = (world X s)\<lparr>w_refund := w_refund (world X s) + n\<rparr>"
    by (simp add: AddRefund_def journalAppend_def)
  have i: "(world X s)\<lparr>w_refund := refund s\<rparr> = world X s" by (simp add: world_def)
  show "journalled X s (AddRefund s n)"
    by (rule journalledI [where es = "[RefundChange (refund s)]"])
      (use assms w i in \<open>simp_all add: AddRefund_def journalAppend_def same_frame_def\<close>)
qed

section \<open>The getters\<close>

lemma getter_spec:
  assumes "wf_state X s"
  shows "getStateObject X s a = (lookupObject X s a, snd (getStateObject X s a))"
    "quiet X s (snd (getStateObject X s a))"
  using getStateObject_spec [OF assms, of a] by auto

lemma acctOr_sel:
  "v_nonce (acctOr X (world X s) a) = (case lookupObject X s a of None \<Rightarrow> 0 | Some so \<Rightarrow> Nonce (so_data so))"
  "v_balance (acctOr X (world X s) a) = (case lookupObject X s a of None \<Rightarrow> 0 | Some so \<Rightarrow> Balance (so_data so))"
  "v_suicided (acctOr X (world X s) a) = (case lookupObject X s a of None \<Rightarrow> False | Some so \<Rightarrow> suicided so)"
  by (simp_all add: acctOr_lookup emptyView_def obj_view_sel split: option.split)

lemma Exist_spec:
  "wf_state X s \<Longrightarrow> fst (Exist X s a) = (w_acct (world X s) a \<noteq> None) \<and> quiet X s (snd (Exist X s a))"
  using getter_spec [of X s a]
  by (cases "lookupObject X s a") (auto simp: Exist_def world_acct split: prod.splits)

lemma GetBalance_spec:
  "wf_state X s \<Longrightarrow> fst (GetBalance X s a) = v_balance (acctOr X (world X s) a) \<and>
     quiet X s (snd (GetBalance X s a))"
  using getter_spec [of X s a] by (auto simp: GetBalance_def acctOr_sel split: prod.splits option.splits)

lemma GetNonce_spec:
  "wf_state X s \<Longrightarrow> fst (GetNonce X s a) = v_nonce (acctOr X (world X s) a) \<and>
     quiet X s (snd (GetNonce X s a))"
  using getter_spec [of X s a] by (auto simp: GetNonce_def acctOr_sel split: prod.splits option.splits)

lemma HasSuicided_spec:
  "wf_state X s \<Longrightarrow> fst (HasSuicided X s a) = v_suicided (acctOr X (world X s) a) \<and>
     quiet X s (snd (HasSuicided X s a))"
  using getter_spec [of X s a] by (auto simp: HasSuicided_def acctOr_sel split: prod.splits option.splits)

lemma Empty_spec:
  "wf_state X s \<Longrightarrow> fst (Empty X s a) = (case w_acct (world X s) a of None \<Rightarrow> True
       | Some v \<Rightarrow> v_nonce v = 0 \<and> v_balance v = 0 \<and> v_codehash v = emptyCodeHash X) \<and>
     quiet X s (snd (Empty X s a))"
  using getter_spec [of X s a]
  by (auto simp: Empty_def so_empty_def world_acct obj_view_sel split: prod.splits option.splits)

lemma GetCodeHash_spec:
  "wf_state X s \<Longrightarrow> fst (GetCodeHash X s a) = (case w_acct (world X s) a of None \<Rightarrow> zeroHash
       | Some v \<Rightarrow> v_codehash v) \<and> quiet X s (snd (GetCodeHash X s a))"
  using getter_spec [of X s a] lookup_ok [of X s a]
  by (auto simp: GetCodeHash_def world_acct obj_view_sel obj_ok_def BytesToN_id
      split: prod.splits option.splits)

lemma GetCodeSize_quiet: "wf_state X s \<Longrightarrow> quiet X s (snd (GetCodeSize X s a))"
  using getter_spec [of X s a] quiet_trans [OF _ quiet_setError]
  by (auto simp: GetCodeSize_def split: prod.splits option.splits)

text \<open>The two getters that fill a cache of the object.\<close>

lemma quiet_read:
  assumes "wf_state X s" "getStateObject X s a = (Some so, s1)" "read_only X so so'"
  shows "quiet X s (setStateObject s1 so')"
proof -
  have "lookupObject X s a = Some so" using getter_spec(1) [OF assms(1), of a] assms(2) by simp
  then obtain s1' where s1': "getStateObject X s a = (Some so, s1')" "quiet X s s1'" "wf_state X s1'"
      "lookupObject X s1' a = Some so" "obj_ok X a so" "\<not> deleted so"
    using getStateObject_Some [OF assms(1)] by blast
  then have "quiet X s1' (setStateObject s1' so')"
    using assms(3) by (intro quiet_put [OF s1'(4,3)]) (auto simp: read_only_def obj_ok_def)
  then show ?thesis using s1' assms(2) quiet_trans by auto
qed

lemma GetState_spec:
  assumes "wf_state X s"
  shows "fst (GetState X s a k) = v_storage (acctOr X (world X s) a) k \<and> quiet X s (snd (GetState X s a k))"
proof (cases "lookupObject X s a")
  case None
  then show ?thesis
    using getter_spec [OF assms, of a]
    by (auto simp: GetState_def acctOr_lookup emptyView_def split: prod.splits)
next
  case (Some so)
  then have g: "getStateObject X s a = (Some so, snd (getStateObject X s a))"
    using getter_spec(1) [OF assms, of a] by simp
  obtain v so' where v: "so_GetState X so k = (v, so')" by fastforce
  then show ?thesis
    using quiet_read [OF assms g, of so'] so_GetState_read_only [of X so k]
    by (subst (1 2) GetState_def, subst (1 2) g) (simp add: acctOr_lookup Some obj_view_sel)
qed

lemma GetCode_spec:
  assumes "wf_state X s"
  shows "fst (GetCode X s a) = v_code (acctOr X (world X s) a) \<and> quiet X s (snd (GetCode X s a))"
proof (cases "lookupObject X s a")
  case None
  then show ?thesis
    using getter_spec [OF assms, of a]
    by (auto simp: GetCode_def acctOr_lookup emptyView_def split: prod.splits)
next
  case (Some so)
  then have g: "getStateObject X s a = (Some so, snd (getStateObject X s a))"
    using getter_spec(1) [OF assms, of a] by simp
  obtain c so' where c: "so_Code X so = (c, so')" by fastforce
  then show ?thesis
    using quiet_read [OF assms g, of so'] so_Code_read_only [of X so]
    by (subst (1 2) GetCode_def, subst (1 2) g) (simp add: acctOr_lookup Some obj_view_def)
qed

section \<open>The contract of snapshots\<close>

text \<open>
  What a client of the database relies on: \<open>step\<close> is any activity between two points, \<open>view\<close> what
  can be read, and reverting to a snapshot gives back the view at the time of the snapshot.
\<close>

locale snapshots =
  fixes ok :: "'s \<Rightarrow> bool"
    and step :: "'s \<Rightarrow> 's \<Rightarrow> bool"
    and view :: "'s \<Rightarrow> 'w"
    and snap :: "'s \<Rightarrow> 'i \<times> 's"
    and revert :: "'s \<Rightarrow> 'i \<Rightarrow> 's res"
  assumes step_refl: "ok s \<Longrightarrow> step s s"
    and step_trans: "step s t \<Longrightarrow> step t u \<Longrightarrow> step s u"
    and step_ok: "ok s \<Longrightarrow> step s t \<Longrightarrow> ok t"
    and snap_step: "ok s \<Longrightarrow> snap s = (i, s1) \<Longrightarrow> step s s1 \<and> view s1 = view s"
    and revert_ok: "ok s \<Longrightarrow> snap s = (i, s1) \<Longrightarrow> step s1 s2 \<Longrightarrow>
          \<exists>s3. revert s2 i = Ok s3 \<and> step s s3 \<and> view s3 = view s"
begin

text \<open>The shape of every call frame: snapshot, run the body, revert when it failed.\<close>

definition attempt :: "('s \<Rightarrow> ('s \<times> bool) res) \<Rightarrow> 's \<Rightarrow> 's res" where
  "attempt body s =
     (case snap s of (i, s1) \<Rightarrow>
        bind_res (body s1) (\<lambda>(s2, failed). if failed then revert s2 i else Ok s2))"

lemma attempt_failed:
  assumes "ok s" "snap s = (i, s1)" "body s1 = Ok (s2, True)" "step s1 s2"
  shows "\<exists>s3. attempt body s = Ok s3 \<and> step s s3 \<and> view s3 = view s"
  using revert_ok [OF assms(1,2,4)] assms(2,3) by (simp add: attempt_def res_simps)

lemma attempt_done:
  assumes "ok s" "snap s = (i, s1)" "body s1 = Ok (s2, False)" "step s1 s2"
  shows "attempt body s = Ok s2 \<and> step s s2"
  using snap_step [OF assms(1,2)] step_trans assms(2-4) by (auto simp: attempt_def res_simps)

end

definition wf_db :: "Ext \<Rightarrow> StateDB \<Rightarrow> bool" where
  "wf_db X s \<longleftrightarrow> wf_state X s \<and> rev_ok s"

lemma wf_dbD: "wf_db X s \<Longrightarrow> wf_state X s"
  by (simp add: wf_db_def)

lemma journalled_wf_db: "wf_db X s \<Longrightarrow> journalled X s t \<Longrightarrow> wf_db X t"
  by (auto simp: wf_db_def journalled_wf journalled_rev_ok)

interpretation db: snapshots "wf_db X" "journalled X" "world X" Snapshot "RevertToSnapshot X" for X
proof unfold_locales
  fix s :: StateDB and i s1 s2
  assume "wf_db X s" "Snapshot s = (i, s1)" "journalled X s1 s2"
  then obtain s3 where s3: "RevertToSnapshot X s2 i = Ok s3" "world X s3 = world X s" "wf_state X s3"
      "same_frame s s3" "journal s3 = journal s" "validRevisions s3 = validRevisions s"
      "nextRevisionId s < nextRevisionId s3"
    using revert_snapshot unfolding wf_db_def by metis
  then show "\<exists>s3. RevertToSnapshot X s2 i = Ok s3 \<and> journalled X s s3 \<and> world X s3 = world X s"
    by (auto simp: journalled_def)
next
  fix s :: StateDB and i s1
  assume "wf_db X s" "Snapshot s = (i, s1)"
  then show "journalled X s s1 \<and> world X s1 = world X s"
    using Snapshot_journalled [of X s] Snapshot_world [of X s] by (simp add: wf_db_def)
qed (auto simp: wf_db_def intro: journalled_refl journalled_trans journalled_wf journalled_rev_ok)

section \<open>Programs over the database\<close>

text \<open>
  A client program: writes, reads, and frames that run a program and then revert it or keep it.
  \<open>execOps\<close> runs it on the database; \<open>absOps\<close> says what it does to the world, where a reverted
  frame does nothing at all.
\<close>

datatype StateOp =
    OpAddBalance Address int
  | OpSubBalance Address int
  | OpSetBalance Address int
  | OpSetNonce Address uint64
  | OpSetCode Address bytes
  | OpSetState Address Hash Hash
  | OpCreateAccount Address
  | OpSuicide Address
  | OpAddLog Log
  | OpAddPreimage Hash bytes
  | OpAddRefund int
  | OpRead Address Hash
  | OpFrame "StateOp list" bool

definition readAll :: "Ext \<Rightarrow> Address \<Rightarrow> Hash \<Rightarrow> StateDB \<Rightarrow> StateDB" where
  "readAll X a k s =
     snd (GetState X (snd (GetCode X (snd (GetCodeSize X (snd (Exist X s a)) a)) a)) a k)"

fun execOp :: "Ext \<Rightarrow> StateOp \<Rightarrow> StateDB \<Rightarrow> StateDB res"
  and execOps :: "Ext \<Rightarrow> StateOp list \<Rightarrow> StateDB \<Rightarrow> StateDB res" where
  "execOp X (OpAddBalance a n) s = Ok (AddBalance X s a n)"
| "execOp X (OpSubBalance a n) s = Ok (SubBalance X s a n)"
| "execOp X (OpSetBalance a n) s = Ok (SetBalance X s a n)"
| "execOp X (OpSetNonce a n) s = Ok (SetNonce X s a n)"
| "execOp X (OpSetCode a c) s = Ok (SetCode X s a c)"
| "execOp X (OpSetState a k x) s = Ok (SetState X s a k x)"
| "execOp X (OpCreateAccount a) s = Ok (CreateAccount X s a)"
| "execOp X (OpSuicide a) s = Ok (snd (Suicide X s a))"
| "execOp X (OpAddLog l) s = Ok (AddLog s l)"
| "execOp X (OpAddPreimage h b) s = Ok (AddPreimage s h b)"
| "execOp X (OpAddRefund n) s = Ok (AddRefund s n)"
| "execOp X (OpRead a k) s = Ok (readAll X a k s)"
| "execOp X (OpFrame ops failed) s =
     (case Snapshot s of (i, s1) \<Rightarrow>
        bind_res (execOps X ops s1) (\<lambda>s2. if failed then RevertToSnapshot X s2 i else Ok s2))"
| "execOps X [] s = Ok s"
| "execOps X (op # ops) s = bind_res (execOp X op s) (execOps X ops)"

fun absOp :: "Ext \<Rightarrow> Hash \<Rightarrow> Hash \<Rightarrow> int \<Rightarrow> StateOp \<Rightarrow> World \<Rightarrow> World"
  and absOps :: "Ext \<Rightarrow> Hash \<Rightarrow> Hash \<Rightarrow> int \<Rightarrow> StateOp list \<Rightarrow> World \<Rightarrow> World" where
  "absOp X th bh ti (OpAddBalance a n) w = updAcct X a (\<lambda>v. v\<lparr>v_balance := v_balance v + n\<rparr>) w"
| "absOp X th bh ti (OpSubBalance a n) w = updAcct X a (\<lambda>v. v\<lparr>v_balance := v_balance v - n\<rparr>) w"
| "absOp X th bh ti (OpSetBalance a n) w = updAcct X a (\<lambda>v. v\<lparr>v_balance := n\<rparr>) w"
| "absOp X th bh ti (OpSetNonce a n) w = updAcct X a (\<lambda>v. v\<lparr>v_nonce := n\<rparr>) w"
| "absOp X th bh ti (OpSetCode a c) w = updAcct X a (\<lambda>v. v\<lparr>v_codehash := Keccak256 X c, v_code := c\<rparr>) w"
| "absOp X th bh ti (OpSetState a k x) w = updAcct X a (\<lambda>v. v\<lparr>v_storage := (v_storage v)(k := x)\<rparr>) w"
| "absOp X th bh ti (OpCreateAccount a) w =
     putAcct a ((emptyView X)\<lparr>v_balance := v_balance (acctOr X w a)\<rparr>) w"
| "absOp X th bh ti (OpSuicide a) w =
     (case w_acct w a of None \<Rightarrow> w | Some v \<Rightarrow> putAcct a (v\<lparr>v_suicided := True, v_balance := 0\<rparr>) w)"
| "absOp X th bh ti (OpAddLog l) w = pushLog th bh ti l w"
| "absOp X th bh ti (OpAddPreimage h b) w =
     w\<lparr>w_preimages := (if w_preimages w h = None then (w_preimages w)(h \<mapsto> b) else w_preimages w)\<rparr>"
| "absOp X th bh ti (OpAddRefund n) w = w\<lparr>w_refund := w_refund w + n\<rparr>"
| "absOp X th bh ti (OpRead a k) w = w"
| "absOp X th bh ti (OpFrame ops failed) w = (if failed then w else absOps X th bh ti ops w)"
| "absOps X th bh ti [] w = w"
| "absOps X th bh ti (op # ops) w = absOps X th bh ti ops (absOp X th bh ti op w)"

lemma readAll_quiet:
  assumes "wf_state X s"
  shows "quiet X s (readAll X a k s)"
proof -
  have q: "quiet X s t \<Longrightarrow> wf_state X t" for t using assms by (simp add: quiet_def)
  let ?s1 = "snd (Exist X s a)"
  have 1: "quiet X s ?s1" using Exist_spec [OF assms] by blast
  let ?s2 = "snd (GetCodeSize X ?s1 a)"
  have 2: "quiet X s ?s2" using quiet_trans [OF 1 GetCodeSize_quiet [OF q [OF 1]]] .
  let ?s3 = "snd (GetCode X ?s2 a)"
  have 3: "quiet X s ?s3" using quiet_trans [OF 2] GetCode_spec [OF q [OF 2]] by blast
  show ?thesis unfolding readAll_def using quiet_trans [OF 3] GetState_spec [OF q [OF 3]] by blast
qed

lemmas writer_journalled = AddBalance_spec(1) SubBalance_spec(1) SetBalance_spec(1) SetNonce_spec(1)
  SetCode_spec(1) SetState_spec(1) CreateAccount_spec(1) Suicide_spec(1) AddLog_spec(1)
  AddPreimage_spec(1) AddRefund_spec(1)

lemmas writer_world = AddBalance_spec(2) SubBalance_spec(2) SetBalance_spec(2) SetNonce_spec(2)
  SetCode_spec(2) SetState_spec(2) CreateAccount_spec(2) Suicide_spec(3) AddLog_spec(2)
  AddPreimage_spec(2) AddRefund_spec(2)

definition refines :: "Ext \<Rightarrow> StateDB \<Rightarrow> StateDB res \<Rightarrow> World \<Rightarrow> bool" where
  "refines X s r w \<longleftrightarrow> (\<exists>s'. r = Ok s' \<and> journalled X s s' \<and> world X s' = w)"

lemma frame_refines:
  assumes "wf_db X s" "Snapshot s = (i, s1)" "refines X s1 r w"
  shows "refines X s (bind_res r (\<lambda>s2. if failed then RevertToSnapshot X s2 i else Ok s2))
    (if failed then world X s else w)"
proof -
  obtain s2 where s2: "r = Ok s2" "journalled X s1 s2" "world X s2 = w"
    using assms(3) by (auto simp: refines_def)
  show ?thesis
    using db.revert_ok [OF assms(1,2) s2(2)] db.snap_step [OF assms(1,2)] journalled_trans [OF _ s2(2)] s2
    by (auto simp: refines_def res_simps)
qed

lemma exec_refines:
  "wf_db X s \<Longrightarrow> thash s = th \<Longrightarrow> bhash s = bh \<Longrightarrow> txIndex s = ti \<Longrightarrow>
     refines X s (execOp X op s) (absOp X th bh ti op (world X s))"
  "wf_db X s \<Longrightarrow> thash s = th \<Longrightarrow> bhash s = bh \<Longrightarrow> txIndex s = ti \<Longrightarrow>
     refines X s (execOps X ops s) (absOps X th bh ti ops (world X s))"
proof (induction X op s and X ops s rule: execOp_execOps.induct)
  case (13 X ops failed s)
  obtain i s1 where s1: "Snapshot s = (i, s1)" by fastforce
  then have *: "journalled X s s1" "world X s1 = world X s"
    using db.snap_step [OF 13(2) s1] by simp_all
  then have "refines X s1 (execOps X ops s1) (absOps X th bh ti ops (world X s1))"
    using 13 s1 journalled_wf_db [OF 13(2)] by (auto simp: journalled_def same_frame_def)
  from frame_refines [OF 13(2) s1 this, of failed] show ?case using *(2) by (cases failed) (simp_all add: s1)
next
  case (15 X op ops s)
  then obtain s1 where s1: "execOp X op s = Ok s1" "journalled X s s1"
      "world X s1 = absOp X th bh ti op (world X s)"
    by (auto simp: refines_def)
  then have "refines X s1 (execOps X ops s1) (absOps X th bh ti ops (world X s1))"
    using 15 journalled_wf_db [OF 15(3)] by (auto simp: journalled_def same_frame_def)
  then show ?case using s1 journalled_trans [OF s1(2)] by (auto simp: refines_def res_simps)
next
  case (12 X a k s)
  then show ?case
    using quiet_journalled [OF readAll_quiet] readAll_quiet [of X s a k]
    by (auto simp: refines_def quiet_def wf_dbD)
qed (auto simp: refines_def writer_world wf_dbD intro: writer_journalled journalled_refl)

section \<open>Properties\<close>

text \<open>
  A concrete environment for witnesses: an empty database, and functions that are computed easily in
  place of hashing and encoding.
\<close>

definition plainExt :: Ext where
  "plainExt = \<lparr>AddressLength = 23, Keccak256 = BytesToN 32, DbOpenTrie = (\<lambda>_. Inr emptyTrie),
     DbOpenStorageTrie = (\<lambda>_ _. Inr emptyTrie), ContractCode = (\<lambda>_ _. ([], None)),
     TryUpdate = (\<lambda>t k v. (t(k := (v, None)), None)), TryDelete = (\<lambda>t k. (t(k := ([], None)), None)),
     TrieHash = (\<lambda>_. zeroHash), encodeAccount = (\<lambda>d. 1 # CodeHash d), decodeAccount = (\<lambda>_. None),
     rlpSplit = (\<lambda>b. (b, None)), rlpEncodeBytes = (\<lambda>b. b)\<rparr>"

definition plainDB :: StateDB where
  "plainDB = \<lparr>sd_trie = emptyTrie, stateObjects = Map.empty, stateObjectsDirty = {}, sd_dbErr = None,
     refund = 0, thash = zeroHash, bhash = zeroHash, txIndex = 0, logs = Map.empty, logSize = 0,
     preimages = Map.empty, journal = [], validRevisions = [], nextRevisionId = 0\<rparr>"

lemma plain_ok: "wf_db plainExt plainDB"
  by (simp add: wf_db_def wf_state_def rev_ok_def ext_ok_def plainExt_def plainDB_def loadObject_def
      emptyTrie_def length_BytesToN)

text \<open>
  C1. Reverting to a snapshot undoes everything a client did since it was taken, whatever sequence
  of writes, reads and nested call frames that was: the replay of the journal does not panic, every
  account, log, preimage and the refund counter read as before, and the journal and the list of
  open revisions are those of the time of the snapshot.
\<close>

theorem revert_undoes_ops:
  assumes "wf_db X s" "Snapshot s = (i, s1)"
  shows "\<exists>s2 s3. execOps X ops s1 = Ok s2 \<and> RevertToSnapshot X s2 i = Ok s3 \<and> world X s3 = world X s \<and>
    journal s3 = journal s \<and> validRevisions s3 = validRevisions s \<and> wf_db X s3"
proof -
  have 1: "journalled X s s1" "wf_db X s1"
    using db.snap_step [OF assms] journalled_wf_db [OF assms(1)] by auto
  obtain s2 where 2: "execOps X ops s1 = Ok s2" "journalled X s1 s2"
    using exec_refines(2) [OF 1(2) refl refl refl, of ops] by (auto simp: refines_def)
  obtain s3 where 3: "RevertToSnapshot X s2 i = Ok s3" "world X s3 = world X s" "wf_state X s3"
      "journal s3 = journal s" "validRevisions s3 = validRevisions s" "nextRevisionId s < nextRevisionId s3"
    using revert_snapshot [OF _ _ assms(2) 2(2)] assms(1) unfolding wf_db_def by metis
  moreover have "wf_db X s3"
    using 3 assms(1) by (auto simp: wf_db_def rev_ok_def intro: less_trans)
  ultimately show ?thesis using 2(1) by blast
qed

theorem revert_undoes_ops_witness:
  "\<exists>s2 s3. execOps plainExt [OpAddBalance [1] 5, OpFrame [OpSuicide [1]] True] (snd (Snapshot plainDB)) = Ok s2 \<and>
    RevertToSnapshot plainExt s2 0 = Ok s3 \<and> world plainExt s3 = world plainExt plainDB \<and>
    journal s3 = journal plainDB \<and> validRevisions s3 = validRevisions plainDB \<and> wf_db plainExt s3"
  by (rule revert_undoes_ops [OF plain_ok]) (simp add: Snapshot_def plainDB_def)

text \<open>
  C2. The journalled database implements its specification: a client program, run on live objects,
  caches and the journal, never panics and leaves the world that \<open>absOps\<close> computes on plain maps,
  where a call frame that is reverted has no effect at all.
\<close>

theorem execOps_refines:
  assumes "wf_db X s"
  shows "\<exists>s'. execOps X ops s = Ok s' \<and> wf_db X s' \<and>
    world X s' = absOps X (thash s) (bhash s) (txIndex s) ops (world X s)"
  using exec_refines(2) [OF assms refl refl refl, of ops] journalled_wf_db [OF assms]
  by (auto simp: refines_def)

theorem execOps_refines_witness:
  "\<exists>s'. execOps plainExt [OpAddBalance [1] 5, OpFrame [OpSetNonce [1] 7] False, OpFrame [OpSubBalance [1] 2] True]
      plainDB = Ok s' \<and> wf_db plainExt s' \<and>
    world plainExt s' = absOps plainExt (thash plainDB) (bhash plainDB) (txIndex plainDB)
      [OpAddBalance [1] 5, OpFrame [OpSetNonce [1] 7] False, OpFrame [OpSubBalance [1] 2] True]
      (world plainExt plainDB)"
  by (rule execOps_refines [OF plain_ok])

end
