(* ===== verification/EvmCore.thy ===== *)
theory EvmCore
  imports StateOps
begin

text \<open>
  The data of the virtual machine (core/vm): errors, memory, contracts, jump destination analysis,
  the helpers of common.go and gas.go, and the records that stand for \<^verbatim>\<open>Context\<close>, \<^verbatim>\<open>EVM\<close> and the
  local variables of the interpreter loop. A stack is the list of its items, top first.
\<close>

section \<open>Errors\<close>

datatype vmerr =
    ErrOutOfGas
  | ErrCodeStoreOutOfGas
  | ErrDepth
  | ErrInsufficientBalance
  | ErrContractAddressCollision
  | ErrGasUintOverflow
  | ErrWriteProtection
  | ErrReturnDataOutOfBounds
  | ErrExecutionReverted
  | ErrMaxCodeSizeExceeded
  | ErrInvalidOpcode byte
  | ErrStackUnderflow nat nat
  | ErrStackLimit nat
  | ErrInvalidJump byte int
  | ErrNotOnCurve
  | ErrInvalidCurvePoint
  | ErrBadPairingInput

section \<open>common.go\<close>

definition calcMemSize :: "int \<Rightarrow> int \<Rightarrow> int" where
  "calcMemSize off l = (if l = 0 then 0 else off + l)"

text \<open>A slice expression \<^verbatim>\<open>xs[i:j]\<close>; bounds that do not fit panic.\<close>

definition slc :: "'a list \<Rightarrow> nat \<Rightarrow> nat \<Rightarrow> 'a list res" where
  "slc xs i j = (if i \<le> j \<and> j \<le> length xs then Ok (take (j - i) (drop i xs)) else Panic)"

definition getData :: "bytes \<Rightarrow> uint64 \<Rightarrow> uint64 \<Rightarrow> bytes res" where
  "getData data start size' =
     (let len = of_nat (length data);
          start' = (if start > len then len else start);
          end' = start' + size';
          end'' = (if end' > len then len else end')
      in bind_res (slc data (unat start') (unat end'')) (\<lambda>d. Ok (RightPadBytes d (sint size'))))"

definition getDataBig :: "bytes \<Rightarrow> int \<Rightarrow> int \<Rightarrow> bytes res" where
  "getDataBig data start size' =
     (let dlen = int (length data);
          s = BigMin start dlen;
          e = BigMin (s + size') dlen
      in bind_res (slc data (unat (Uint64 s)) (unat (Uint64 e)))
           (\<lambda>d. Ok (RightPadBytes d (sint (Uint64 size')))))"

definition bigUint64 :: "int \<Rightarrow> uint64 \<times> bool" where
  "bigUint64 v = (Uint64 v, BitLen v > 64)"

definition toWordSize :: "uint64 \<Rightarrow> uint64" where
  "toWordSize size' = (if size' > - 1 - 31 then (- 1) div 32 + 1 else (size' + 31) div 32)"

fun allZero :: "bytes \<Rightarrow> bool" where
  "allZero [] = True"
| "allZero (b # bs) = (if b \<noteq> 0 then False else allZero bs)"

section \<open>memory.go\<close>

record Memory =
  store :: bytes
  lastGasCost :: uint64

definition NewMemory :: Memory where
  "NewMemory = \<lparr>store = [], lastGasCost = 0\<rparr>"

definition mem_Set :: "Memory \<Rightarrow> uint64 \<Rightarrow> uint64 \<Rightarrow> bytes \<Rightarrow> Memory res" where
  "mem_Set m offset size' value =
     (if size' > of_nat (length (store m)) then Panic
      else if size' > 0
      then (let e = offset + size' in
            if offset \<le> e \<and> unat e \<le> length (store m)
            then Ok (m\<lparr>store := copyTo (store m) (unat offset) (unat e) value\<rparr>) else Panic)
      else Ok m)"

definition Resize :: "Memory \<Rightarrow> uint64 \<Rightarrow> Memory" where
  "Resize m size' =
     (if of_nat (length (store m)) < size'
      then m\<lparr>store := store m @ replicate (unat (size' - of_nat (length (store m)))) 0\<rparr> else m)"

text \<open>
  \<^verbatim>\<open>Get\<close> and \<^verbatim>\<open>GetPtr\<close> take signed offsets and sizes. The returned slices differ in aliasing only:
  \<^verbatim>\<open>GetPtr\<close> is used by \<^verbatim>\<open>RETURN\<close> and \<^verbatim>\<open>REVERT\<close>, after which the memory is not written any more.
\<close>

definition GetPtr :: "Memory \<Rightarrow> int \<Rightarrow> int \<Rightarrow> bytes res" where
  "GetPtr m offset size' =
     (if size' = 0 then Ok []
      else if int (length (store m)) > offset
      then (let e = Int64 (offset + size') in
            if 0 \<le> offset \<and> 0 \<le> e then slc (store m) (nat offset) (nat e) else Panic)
      else Ok [])"

definition mem_Get :: "Memory \<Rightarrow> int \<Rightarrow> int \<Rightarrow> bytes res" where
  "mem_Get m offset size' =
     (if size' = 0 then Ok []
      else if int (length (store m)) > offset
      then (if size' < 0 then Panic
            else bind_res (GetPtr m offset size') (\<lambda>v. Ok (copyTo (replicate (nat size') 0) 0 (nat size') v)))
      else Ok [])"

section \<open>analysis.go\<close>

type_synonym bitvec = bytes
type_synonym destinations = "Hash \<rightharpoonup> bitvec"

definition bv_set :: "bitvec \<Rightarrow> nat \<Rightarrow> bitvec" where
  "bv_set bits pos = bits[pos div 8 := byteOr (bits ! (pos div 8)) (drop_bit (pos mod 8) 0x80)]"

definition bv_set8 :: "bitvec \<Rightarrow> nat \<Rightarrow> bitvec" where
  "bv_set8 bits pos =
     (let b1 = bits[pos div 8 := byteOr (bits ! (pos div 8)) (drop_bit (pos mod 8) 0xFF)]
      in b1[pos div 8 + 1 := byteOr (b1 ! (pos div 8 + 1)) (byteNot (drop_bit (pos mod 8) 0xFF))])"

definition codeSegment :: "bitvec \<Rightarrow> nat \<Rightarrow> bool res" where
  "codeSegment bits pos =
     (if pos div 8 < length bits then Ok (byteAnd (bits ! (pos div 8)) (drop_bit (pos mod 8) 0x80) = 0)
      else Panic)"

abbreviation (input) opPUSH1 :: byte where "opPUSH1 \<equiv> 0x60"
abbreviation (input) opPUSH32 :: byte where "opPUSH32 \<equiv> 0x7f"
abbreviation (input) opJUMPDEST :: byte where "opJUMPDEST \<equiv> 0x5b"

text \<open>The two inner loops of \<^verbatim>\<open>codeBitmap\<close>: whole bytes first, then single bits.\<close>

fun mark1 :: "nat \<Rightarrow> nat \<Rightarrow> bitvec \<Rightarrow> nat \<times> bitvec" where
  "mark1 0 pc bits = (pc, bits)"
| "mark1 (Suc n) pc bits = mark1 n (pc + 1) (bv_set bits pc)"

fun mark8 :: "nat \<Rightarrow> nat \<Rightarrow> bitvec \<Rightarrow> nat \<times> bitvec" where
  "mark8 numbits pc bits =
     (if 8 \<le> numbits then mark8 (numbits - 8) (pc + 8) (bv_set8 bits pc) else mark1 numbits pc bits)"

lemma mark1_fst: "fst (mark1 n pc bits) = pc + n"
  by (induction n pc bits rule: mark1.induct) auto

lemma mark8_fst: "fst (mark8 n pc bits) = pc + n"
  by (induction n pc bits rule: mark8.induct) (simp add: mark1_fst)

declare mark8.simps [simp del]

function codeBitmapLoop :: "bytes \<Rightarrow> nat \<Rightarrow> bitvec \<Rightarrow> bitvec" where
  "codeBitmapLoop code pc bits =
     (if pc < length code
      then (let op = code ! pc in
            if opPUSH1 \<le> op \<and> op \<le> opPUSH32
            then (case mark8 (unat (op - opPUSH1 + 1)) (pc + 1) bits of
                    (pc', bits') \<Rightarrow> codeBitmapLoop code pc' bits')
            else codeBitmapLoop code (pc + 1) bits)
      else bits)"
  by pat_completeness auto
termination
proof (relation "measure (\<lambda>(code, pc, bits). length code - pc)")
  fix code pc bits op x pc' bits'
  assume p: "pc < length code" and e: "(pc', bits') = mark8 (unat (op - opPUSH1 + 1)) (pc + 1) bits"
  have "pc' = pc + 1 + unat (op - opPUSH1 + 1)"
    using mark8_fst [of "unat (op - opPUSH1 + 1)" "pc + 1" bits] unfolding e [symmetric] by simp
  with p show "((code, pc', bits'), code, pc, bits) \<in> measure (\<lambda>(code, pc, bits). length code - pc)"
    by simp
qed auto

declare codeBitmapLoop.simps [simp del]

definition codeBitmap :: "bytes \<Rightarrow> bitvec" where
  "codeBitmap code = codeBitmapLoop code 0 (replicate (length code div 8 + 1 + 4) 0)"

definition destinations_has :: "destinations \<Rightarrow> Hash \<Rightarrow> bytes \<Rightarrow> int \<Rightarrow> (bool \<times> destinations) res" where
  "destinations_has d codehash code dest =
     (let udest = Uint64 dest in
      if BitLen dest \<ge> 63 \<or> udest \<ge> of_nat (length code) then Ok (False, d)
      else
        (let (m, d') = (case d codehash of
                          Some m \<Rightarrow> (m, d)
                        | None \<Rightarrow> (let m = codeBitmap code in (m, d(codehash \<mapsto> m))))
         in if code ! unat udest = opJUMPDEST
            then bind_res (codeSegment m (unat udest)) (\<lambda>ok. Ok (ok, d'))
            else Ok (False, d')))"

section \<open>gas.go\<close>

abbreviation (input) GasQuickStep :: uint64 where "GasQuickStep \<equiv> 2"
abbreviation (input) GasFastestStep :: uint64 where "GasFastestStep \<equiv> 3"
abbreviation (input) GasFastStep :: uint64 where "GasFastStep \<equiv> 5"
abbreviation (input) GasMidStep :: uint64 where "GasMidStep \<equiv> 8"
abbreviation (input) GasSlowStep :: uint64 where "GasSlowStep \<equiv> 10"
abbreviation (input) GasExtStep :: uint64 where "GasExtStep \<equiv> 20"

definition callGas :: "GasTable \<Rightarrow> uint64 \<Rightarrow> uint64 \<Rightarrow> int \<Rightarrow> vmerr + uint64" where
  "callGas gasTable availableGas base callCost =
     (let avail = availableGas - base; gas = avail - avail div 64 in
      if CreateBySuicide gasTable > 0 \<and> (BitLen callCost > 64 \<or> gas < Uint64 callCost) then Inr gas
      else if BitLen callCost > 64 then Inl ErrGasUintOverflow
      else Inr (Uint64 callCost))"

section \<open>contract.go\<close>

text \<open>
  A contract holds its own address and its caller's; \<^verbatim>\<open>caller\<close> itself is needed only while the
  contract is made, to take over the analysis results and, for a delegate call, sender and value.
\<close>

record Contract =
  CallerAddress :: Address
  c_self :: Address
  jumpdests :: destinations
  c_Code :: bytes
  c_CodeHash :: Hash
  CodeAddr :: "Address option"
  c_Input :: bytes
  c_Gas :: uint64
  c_value :: int
  isDelegateCall :: bool

datatype ContractRef = AccountRef Address | ContractPtr Contract

fun refAddress :: "ContractRef \<Rightarrow> Address" where
  "refAddress (AccountRef a) = a"
| "refAddress (ContractPtr c) = c_self c"

fun refJumpdests :: "ContractRef \<Rightarrow> destinations" where
  "refJumpdests (AccountRef a) = Map.empty"
| "refJumpdests (ContractPtr c) = jumpdests c"

definition NewContract :: "ContractRef \<Rightarrow> Address \<Rightarrow> int \<Rightarrow> uint64 \<Rightarrow> Contract" where
  "NewContract caller object value gas =
     \<lparr>CallerAddress = refAddress caller, c_self = object, jumpdests = refJumpdests caller, c_Code = [],
      c_CodeHash = zeroHash, CodeAddr = None, c_Input = [], c_Gas = gas, c_value = value,
      isDelegateCall = False\<rparr>"

fun AsDelegate :: "ContractRef \<Rightarrow> Contract \<Rightarrow> Contract res" where
  "AsDelegate (ContractPtr parent) c =
     Ok (c\<lparr>isDelegateCall := True, CallerAddress := CallerAddress parent, c_value := c_value parent\<rparr>)"
| "AsDelegate (AccountRef a) c = Panic"

definition GetByte :: "Contract \<Rightarrow> uint64 \<Rightarrow> byte" where
  "GetByte c n = (if n < of_nat (length (c_Code c)) then c_Code c ! unat n else 0)"

definition GetOp :: "Contract \<Rightarrow> uint64 \<Rightarrow> byte" where
  "GetOp c n = GetByte c n"

definition UseGas :: "Contract \<Rightarrow> uint64 \<Rightarrow> bool \<times> Contract" where
  "UseGas c gas = (if c_Gas c < gas then (False, c) else (True, c\<lparr>c_Gas := c_Gas c - gas\<rparr>))"

definition SetCallCode :: "Contract \<Rightarrow> Address \<Rightarrow> Hash \<Rightarrow> bytes \<Rightarrow> Contract" where
  "SetCallCode c addr hash code = c\<lparr>c_Code := code, c_CodeHash := hash, CodeAddr := Some addr\<rparr>"

section \<open>Context, machine state\<close>

text \<open>
  \<open>Ctx\<close> is what does not change during a transaction: the environment of the state database, the
  fields of \<^verbatim>\<open>Context\<close> and \<^verbatim>\<open>Config\<close>, and the cryptography the precompiled contracts call:
  \<open>Ecrecover\<close> (None is an error), the two hash functions and the three curve operations.
\<close>

record Ctx =
  cx_ext :: Ext
  GetHash :: "uint64 \<Rightarrow> Hash"
  Origin :: Address
  GasPrice :: int
  Coinbase :: Address
  GasLimit :: int
  BlockNumber :: int
  Time :: int
  Difficulty :: int
  chainConfig :: ChainConfig
  NoRecursion :: bool
  DisableGasMetering :: bool
  EnablePreimageRecording :: bool
  Ecrecover :: "bytes \<Rightarrow> bytes \<Rightarrow> bytes option"
  sha256Sum :: "bytes \<Rightarrow> bytes"
  ripemd160Sum :: "bytes \<Rightarrow> bytes"
  bn256AddRun :: "bytes \<Rightarrow> bytes \<times> vmerr option"
  bn256ScalarMulRun :: "bytes \<Rightarrow> bytes \<times> vmerr option"
  bn256PairingRun :: "bytes \<Rightarrow> bytes \<times> vmerr option"

abbreviation cxHomestead :: "Ctx \<Rightarrow> bool" where
  "cxHomestead cx \<equiv> IsHomestead (chainConfig cx) (Some (BlockNumber cx))"
abbreviation cxEIP150 :: "Ctx \<Rightarrow> bool" where
  "cxEIP150 cx \<equiv> IsEIP150 (chainConfig cx) (Some (BlockNumber cx))"
abbreviation cxEIP158 :: "Ctx \<Rightarrow> bool" where
  "cxEIP158 cx \<equiv> IsEIP158 (chainConfig cx) (Some (BlockNumber cx))"
abbreviation cxByzantium :: "Ctx \<Rightarrow> bool" where
  "cxByzantium cx \<equiv> IsByzantium (chainConfig cx) (Some (BlockNumber cx))"
abbreviation cxGasTable :: "Ctx \<Rightarrow> GasTable" where
  "cxGasTable cx \<equiv> chainGasTable (chainConfig cx) (Some (BlockNumber cx))"
abbreviation cxAddress :: "Ctx \<Rightarrow> int \<Rightarrow> Address" where
  "cxAddress cx x \<equiv> BigToAddress (cx_ext cx) x"

record EVM =
  db :: StateDB
  depth :: int
  abort :: bool
  readOnly :: bool
  returnData :: bytes

record Machine =
  m_evm :: EVM
  m_contract :: Contract
  m_mem :: Memory
  m_stack :: "int list"
  m_pc :: uint64

abbreviation m_db :: "Machine \<Rightarrow> StateDB" where
  "m_db m \<equiv> db (m_evm m)"
abbreviation set_db :: "StateDB \<Rightarrow> Machine \<Rightarrow> Machine" where
  "set_db s m \<equiv> m\<lparr>m_evm := (m_evm m)\<lparr>db := s\<rparr>\<rparr>"
abbreviation m_Gas :: "Machine \<Rightarrow> uint64" where
  "m_Gas m \<equiv> c_Gas (m_contract m)"

text \<open>\<^verbatim>\<open>Interpreter.Run\<close> as its callers see it: output, error, the contract and the EVM after it.\<close>

type_synonym runner =
  "EVM \<Rightarrow> Contract \<Rightarrow> bytes \<Rightarrow> (bytes \<times> vmerr option \<times> Contract \<times> EVM) res"

text \<open>An instruction returns its result and error, and the machine it leaves.\<close>

type_synonym executionFunc = "Ctx \<Rightarrow> runner \<Rightarrow> Machine \<Rightarrow> (bytes \<times> vmerr option \<times> Machine) res"
type_synonym gasFunc = "Ctx \<Rightarrow> Machine \<Rightarrow> uint64 \<Rightarrow> ((vmerr + uint64) \<times> Machine) res"

end
