(* ===== verification/JumpAnalysis.thy ===== *)
theory JumpAnalysis
  imports EvmCore
begin

text \<open>
  Correctness of the jump destination analysis of core/vm/analysis.go. The specification walks the
  code byte by byte and counts down the argument of a \<^verbatim>\<open>PUSH\<close>; the code marks whole bytes of a bit
  vector at a time, across byte boundaries.
\<close>

section \<open>Specification\<close>

definition pushLen :: "byte \<Rightarrow> nat" where
  "pushLen op = (if opPUSH1 \<le> op \<and> op \<le> opPUSH32 then unat op - 0x5f else 0)"

text \<open>\<open>dataMap k code\<close>: which bytes are data, when the first \<open>k\<close> are arguments of an earlier push.\<close>

fun dataMap :: "nat \<Rightarrow> bytes \<Rightarrow> bool list" where
  "dataMap k [] = []"
| "dataMap 0 (b # bs) = False # dataMap (pushLen b) bs"
| "dataMap (Suc k) (b # bs) = True # dataMap k bs"

lemma length_dataMap [simp]: "length (dataMap k code) = length code"
  by (induction k code rule: dataMap.induct) auto

lemma dataMap_nth_less: "i < k \<Longrightarrow> i < length code \<Longrightarrow> dataMap k code ! i"
  by (induction k code arbitrary: i rule: dataMap.induct) (auto simp: nth_Cons')

lemma dataMap_nth_ge: "k \<le> i \<Longrightarrow> i < length code \<Longrightarrow> dataMap k code ! i = dataMap 0 (drop k code) ! (i - k)"
  by (induction k code arbitrary: i rule: dataMap.induct) (auto simp: nth_Cons')

text \<open>
  The data bytes seen from an instruction at \<open>pc\<close>: its argument, and those of the rest.
\<close>

lemma dataMap_unfold:
  assumes "pc < length code" "pc \<le> i" "i < length code" "k = pushLen (code ! pc)"
  shows "dataMap 0 (drop pc code) ! (i - pc) \<longleftrightarrow>
    (pc < i \<and> i \<le> pc + k) \<or> (pc + 1 + k \<le> i \<and> dataMap 0 (drop (pc + 1 + k) code) ! (i - (pc + 1 + k)))"
proof -
  have d: "drop pc code = code ! pc # drop (Suc pc) code" using assms(1) by (simp add: Cons_nth_drop_Suc)
  show ?thesis
  proof (cases "i = pc")
    case True
    then show ?thesis by (simp add: d)
  next
    case False
    then have i: "pc < i" using assms(2) by simp
    have "dataMap 0 (drop pc code) ! (i - pc) = dataMap k (drop (Suc pc) code) ! (i - Suc pc)"
      using i assms(4) by (simp add: d nth_Cons')
    also have "\<dots> \<longleftrightarrow> i \<le> pc + k \<or>
        (pc + 1 + k \<le> i \<and> dataMap 0 (drop (pc + 1 + k) code) ! (i - (pc + 1 + k)))"
    proof (cases "i \<le> pc + k")
      case True
      then have "dataMap k (drop (Suc pc) code) ! (i - Suc pc)"
        using i assms(3) by (intro dataMap_nth_less) auto
      then show ?thesis using True by simp
    next
      case False
      then have "dataMap k (drop (Suc pc) code) ! (i - Suc pc) =
          dataMap 0 (drop k (drop (Suc pc) code)) ! (i - Suc pc - k)"
        using i assms(3) by (intro dataMap_nth_ge) auto
      then show ?thesis using False i by (simp add: add.commute)
    qed
    finally show ?thesis using i by simp
  qed
qed

section \<open>Bit vectors\<close>

text \<open>The bit of position \<open>i\<close>: bytes left to right, most significant bit first.\<close>

definition bvbit :: "bitvec \<Rightarrow> nat \<Rightarrow> bool" where
  "bvbit bits i = bit (bits ! (i div 8)) (7 - i mod 8)"

lemma mask_bits:
  assumes "k < 8" "j < 8"
  shows "bit (drop_bit k (0x80 :: byte)) (7 - j) \<longleftrightarrow> j = k"
    "bit (drop_bit k (0xFF :: byte)) (7 - j) \<longleftrightarrow> k \<le> j"
proof -
  have k: "k \<in> {0, 1, 2, 3, 4, 5, 6, 7}" and j: "j \<in> {0, 1, 2, 3, 4, 5, 6, 7}" using assms by auto
  show "bit (drop_bit k (0x80 :: byte)) (7 - j) \<longleftrightarrow> j = k"
    using k j by (auto simp: bit_drop_bit_eq)
  show "bit (drop_bit k (0xFF :: byte)) (7 - j) \<longleftrightarrow> k \<le> j"
    using k j by (auto simp: bit_drop_bit_eq)
qed

lemma len_byte: "LENGTH(8) = 8"
  by simp

lemma codeSegment_bvbit:
  assumes "pos div 8 < length bits"
  shows "codeSegment bits pos = Ok (\<not> bvbit bits pos)"
proof -
  let ?k = "pos mod 8" and ?x = "bits ! (pos div 8)"
  have "bit (?x AND drop_bit ?k (0x80 :: byte)) n \<longleftrightarrow> n = 7 - ?k \<and> bit ?x n" if "n < 8" for n
    using mask_bits(1) [of ?k "7 - n"] that by (auto simp: bit_and_iff)
  moreover have "7 - ?k < 8" by simp
  ultimately have "(?x AND drop_bit ?k (0x80 :: byte) = 0) = (\<not> bit ?x (7 - ?k))"
    by (metis bit_0_eq bit_word_eqI bot_apply bot_bool_def len_byte)
  then show ?thesis using assms by (simp add: codeSegment_def byteAnd_def bvbit_def)
qed

lemma length_bv [simp]: "length (bv_set bits p) = length bits" "length (bv_set8 bits p) = length bits"
  by (simp_all add: bv_set_def bv_set8_def Let_def)

lemma bvbit_set:
  assumes "p div 8 < length bits"
  shows "bvbit (bv_set bits p) i \<longleftrightarrow> bvbit bits i \<or> i = p"
proof (cases "i div 8 = p div 8")
  case True
  have "i = p \<longleftrightarrow> i mod 8 = p mod 8" using True by (metis div_mult_mod_eq)
  then show ?thesis
    using True assms mask_bits(1) [of "p mod 8" "i mod 8"]
    by (simp add: bvbit_def bv_set_def byteOr_def bit_or_iff)
next
  case False
  then show ?thesis by (auto simp: bvbit_def bv_set_def)
qed

lemma bvbit_set8:
  assumes "p div 8 + 1 < length bits"
  shows "bvbit (bv_set8 bits p) i \<longleftrightarrow> bvbit bits i \<or> (p \<le> i \<and> i < p + 8)"
proof -
  let ?q = "p div 8" and ?k = "p mod 8"
  have p: "p = 8 * ?q + ?k" and i: "i = 8 * (i div 8) + i mod 8" by simp_all
  have m: "?k < 8" "i mod 8 < 8" by simp_all
  consider (a) "i div 8 = ?q" | (b) "i div 8 = ?q + 1" | (c) "i div 8 \<noteq> ?q" "i div 8 \<noteq> ?q + 1" by blast
  then show ?thesis
  proof cases
    case a
    then have "(p \<le> i \<and> i < p + 8) \<longleftrightarrow> ?k \<le> i mod 8" using p i m by linarith
    then show ?thesis
      using a assms mask_bits(2) [of ?k "i mod 8"]
      by (simp add: bvbit_def bv_set8_def byteOr_def bit_or_iff Let_def)
  next
    case b
    then have "(p \<le> i \<and> i < p + 8) \<longleftrightarrow> \<not> ?k \<le> i mod 8" using p i m by linarith
    then show ?thesis
      using b assms mask_bits(2) [of ?k "i mod 8"]
      by (auto simp: bvbit_def bv_set8_def byteOr_def byteNot_def bit_or_iff bit_not_iff Let_def)
  next
    case c
    then have "\<not> (p \<le> i \<and> i < p + 8)" using p i m by linarith
    then show ?thesis using c by (auto simp: bvbit_def bv_set8_def Let_def)
  qed
qed

lemma mark1_bits:
  assumes "(pc + n) div 8 < length bits"
  shows "length (snd (mark1 n pc bits)) = length bits \<and>
    (bvbit (snd (mark1 n pc bits)) i \<longleftrightarrow> bvbit bits i \<or> (pc \<le> i \<and> i < pc + n))"
  using assms
proof (induction n pc bits rule: mark1.induct)
  case (2 n pc bits)
  have "pc div 8 < length bits" using "2.prems" div_le_mono [of pc "pc + Suc n" 8] by simp
  with 2 show ?case by (auto simp: bvbit_set)
qed auto

lemma mark8_bits:
  assumes "(pc + n) div 8 < length bits"
  shows "length (snd (mark8 n pc bits)) = length bits \<and>
    (bvbit (snd (mark8 n pc bits)) i \<longleftrightarrow> bvbit bits i \<or> (pc \<le> i \<and> i < pc + n))"
  using assms
proof (induction n pc bits rule: mark8.induct)
  case (1 n pc bits)
  show ?case
  proof (cases "8 \<le> n")
    case True
    have "pc div 8 + 1 = (pc + 8) div 8" by simp
    also have "\<dots> < length bits" using "1.prems" True div_le_mono [of "pc + 8" "pc + n" 8] by simp
    finally have "pc div 8 + 1 < length bits" .
    moreover have "(pc + 8 + (n - 8)) div 8 < length (bv_set8 bits pc)" using "1.prems" True by simp
    ultimately show ?thesis
      using "1.IH" [OF True] True by (subst (1 2) mark8.simps) (auto simp: bvbit_set8)
  next
    case False
    then show ?thesis using mark1_bits [OF "1.prems"] by (subst (1 2) mark8.simps) simp
  qed
qed

section \<open>The analysis\<close>

lemma pushLen_pos:
  assumes "opPUSH1 \<le> op" "op \<le> opPUSH32"
  shows "unat (op - opPUSH1 + 1) = pushLen op" "pushLen op \<le> 32"
proof -
  have "unat op \<le> 0x7f" "0x60 \<le> unat op" using assms by (simp_all add: word_le_nat_alt)
  moreover have "unat (op - 0x5f) = unat op - 0x5f"
    using calculation by (subst unat_sub) (simp_all add: word_le_nat_alt)
  ultimately show "unat (op - opPUSH1 + 1) = pushLen op" "pushLen op \<le> 32"
    using assms by (simp_all add: pushLen_def)
qed

lemma codeBitmapLoop_bits:
  assumes "length bits = length code div 8 + 5"
  shows "length (codeBitmapLoop code pc bits) = length code div 8 + 5 \<and>
    (i < length code \<longrightarrow> (bvbit (codeBitmapLoop code pc bits) i \<longleftrightarrow>
       bvbit bits i \<or> (pc \<le> i \<and> dataMap 0 (drop pc code) ! (i - pc))))"
  using assms
proof (induction code pc bits rule: codeBitmapLoop.induct)
  case (1 code pc bits)
  show ?case
  proof (cases "pc < length code")
    case False
    then show ?thesis using "1.prems" by (subst (1 2) codeBitmapLoop.simps) simp
  next
    case pc: True
    let ?op = "code ! pc" and ?k = "pushLen (code ! pc)"
    show ?thesis
    proof (cases "opPUSH1 \<le> ?op \<and> ?op \<le> opPUSH32")
      case True
      note k = pushLen_pos [of ?op]
      obtain pc' bits' where m: "mark8 ?k (pc + 1) bits = (pc', bits')" by fastforce
      have "(pc + 1 + ?k) div 8 \<le> (length code + 32) div 8"
        using k(2) True pc by (intro div_le_mono) simp
      then have b: "(pc + 1 + ?k) div 8 < length bits" using "1.prems" by simp
      have pc': "pc' = pc + 1 + ?k" using mark8_fst [of ?k "pc + 1" bits] unfolding m by simp
      have bits': "length bits' = length bits"
          "bvbit bits' i \<longleftrightarrow> bvbit bits i \<or> (pc + 1 \<le> i \<and> i < pc + 1 + ?k)" for i
        using mark8_bits [OF b, of i] unfolding m by simp_all
      have "length (codeBitmapLoop code pc' bits') = length code div 8 + 5 \<and>
          (i < length code \<longrightarrow> (bvbit (codeBitmapLoop code pc' bits') i \<longleftrightarrow>
             bvbit bits' i \<or> (pc' \<le> i \<and> dataMap 0 (drop pc' code) ! (i - pc'))))"
        using "1.IH"(1) [OF pc refl True] k(1) True m "1.prems" bits'(1) by auto
      moreover have "codeBitmapLoop code pc bits = codeBitmapLoop code pc' bits'"
        using pc True k(1) m by (subst codeBitmapLoop.simps) (simp add: Let_def)
      ultimately show ?thesis
        using dataMap_unfold [OF pc _ _ refl, of i] bits'(2) [of i] pc' by auto
    next
      case False
      then have k0: "?k = 0" unfolding pushLen_def by (rule if_not_P)
      have "codeBitmapLoop code pc bits = codeBitmapLoop code (pc + 1) bits"
        using pc False by (subst codeBitmapLoop.simps) (auto simp: Let_def)
      then show ?thesis
        using "1.IH"(2) [OF pc refl False "1.prems"] dataMap_unfold [OF pc _ _ refl, of i] k0 by auto
    qed
  qed
qed

lemma codeBitmap_bits:
  "length (codeBitmap code) = length code div 8 + 5"
  "i < length code \<Longrightarrow> bvbit (codeBitmap code) i = dataMap 0 code ! i"
proof -
  let ?z = "replicate (length code div 8 + 1 + 4) (0 :: byte)"
  have "length ?z = length code div 8 + 5" by simp
  note l = codeBitmapLoop_bits [OF this, of 0 i]
  show "length (codeBitmap code) = length code div 8 + 5" using l by (simp add: codeBitmap_def)
  assume i: "i < length code"
  have "i div 8 \<le> length code div 8" using i by (simp add: div_le_mono)
  then have "\<not> bvbit ?z i" by (simp add: bvbit_def)
  then show "bvbit (codeBitmap code) i = dataMap 0 code ! i" using l i by (simp add: codeBitmap_def)
qed

text \<open>A destination is valid when it is a \<^verbatim>\<open>JUMPDEST\<close> that is not the argument of a push.\<close>

definition validDest :: "bytes \<Rightarrow> int \<Rightarrow> bool" where
  "validDest code dest \<longleftrightarrow> 0 \<le> dest \<and> dest < int (length code) \<and> code ! nat dest = opJUMPDEST \<and>
     \<not> dataMap 0 code ! nat dest"

definition cache_ok :: "destinations \<Rightarrow> Hash \<Rightarrow> bytes \<Rightarrow> bool" where
  "cache_ok d h code \<longleftrightarrow> (\<forall>m. d h = Some m \<longrightarrow> m = codeBitmap code)"

lemma destinations_has_spec:
  assumes "0 \<le> dest" "length code < 2 ^ 62" "cache_ok d h code"
  shows "\<exists>d'. destinations_has d h code dest = Ok (validDest code dest, d') \<and> cache_ok d' h code \<and>
    (\<forall>h'. h' \<noteq> h \<longrightarrow> d' h' = d h')"
proof (cases "dest < int (length code)")
  case False
  have "BitLen dest \<ge> 63 \<or> Uint64 dest \<ge> of_nat (length code)"
  proof (cases "BitLen dest \<ge> 63")
    case small: False
    then have "dest < 2 ^ 62" using BitLen_le_iff [of dest 62] assms(1) by simp
    then have "unat (Uint64 dest) = nat dest" using assms(1) by (simp add: unat_Uint64)
    moreover have "unat (of_nat (length code) :: uint64) = length code"
      using assms(2) by (simp add: unsigned_of_nat take_bit_nat_eq_self)
    ultimately show ?thesis using False by (auto simp: word_le_nat_alt)
  qed simp
  then show ?thesis
    using False assms(3) by (auto simp: destinations_has_def Let_def validDest_def)
next
  case True
  have "int (length code) < 2 ^ 62" using assms(2) by (metis of_nat_less_numeral_power_cancel_iff)
  with True have s: "dest < 2 ^ 62" by linarith
  then have u: "unat (Uint64 dest) = nat dest" using assms(1) by (simp add: unat_Uint64)
  have l: "unat (of_nat (length code) :: uint64) = length code"
    using assms(2) by (simp add: unsigned_of_nat take_bit_nat_eq_self)
  have c: "\<not> (BitLen dest \<ge> 63 \<or> Uint64 dest \<ge> of_nat (length code))"
    using True s assms(1) BitLen_le_iff [of dest 62] u l by (auto simp: word_le_nat_alt)
  have n: "nat dest < length code" using True assms(1) by simp
  then have "nat dest div 8 < length (codeBitmap code)"
    using codeBitmap_bits(1) [of code] div_le_mono [of "nat dest" "length code" 8] by simp
  then have seg: "codeSegment (codeBitmap code) (nat dest) = Ok (\<not> dataMap 0 code ! nat dest)"
    using codeSegment_bvbit codeBitmap_bits(2) [OF n] by simp
  show ?thesis
  proof (cases "d h")
    case None
    then show ?thesis
      using c u seg n assms(1)
      by (auto simp: destinations_has_def Let_def validDest_def cache_ok_def res_simps)
  next
    case (Some m)
    then have "m = codeBitmap code" using assms(3) by (simp add: cache_ok_def)
    then show ?thesis
      using c u seg n assms(1,3) Some
      by (auto simp: destinations_has_def Let_def validDest_def cache_ok_def res_simps)
  qed
qed

section \<open>Properties\<close>





end
