(* ===== verification/EvmGas.thy ===== *)
theory EvmGas
  imports EvmCore
begin

text \<open>
  The dynamic part of gas metering: memory\_table.go, stack\_table.go and gas\_table.go of core/vm.
  A gas function may change the machine: it memoizes the memory fee, adds refunds, fills the caches
  of the state database and, for the call family, replaces the requested gas on the stack.
\<close>

section \<open>Stack access\<close>

definition Back :: "int list \<Rightarrow> nat \<Rightarrow> int res" where
  "Back st n = (if n < length st then Ok (st ! n) else Panic)"

definition require :: "int list \<Rightarrow> nat \<Rightarrow> vmerr option" where
  "require st n = (if length st < n then Some (ErrStackUnderflow (length st) n) else None)"

definition makeStackFunc :: "nat \<Rightarrow> nat \<Rightarrow> int list \<Rightarrow> vmerr option" where
  "makeStackFunc pop push st =
     (case require st pop of
        Some err \<Rightarrow> Some err
      | None \<Rightarrow>
          if int (length st) + int push - int pop > int StackLimit
          then Some (ErrStackLimit (length st)) else None)"

definition makeDupStackFunc :: "nat \<Rightarrow> int list \<Rightarrow> vmerr option" where
  "makeDupStackFunc n = makeStackFunc n (n + 1)"

definition makeSwapStackFunc :: "nat \<Rightarrow> int list \<Rightarrow> vmerr option" where
  "makeSwapStackFunc n = makeStackFunc n n"

section \<open>memory\_table.go\<close>

type_synonym memorySizeFunc = "int list \<Rightarrow> int res"

definition memRegion :: "nat \<Rightarrow> nat \<Rightarrow> memorySizeFunc" where
  "memRegion i j st = bind_res (Back st i) (\<lambda>off. bind_res (Back st j) (\<lambda>l. Ok (calcMemSize off l)))"

definition memorySha3 :: memorySizeFunc where "memorySha3 = memRegion 0 1"
definition memoryCallDataCopy :: memorySizeFunc where "memoryCallDataCopy = memRegion 0 2"
definition memoryReturnDataCopy :: memorySizeFunc where "memoryReturnDataCopy = memRegion 0 2"
definition memoryCodeCopy :: memorySizeFunc where "memoryCodeCopy = memRegion 0 2"
definition memoryExtCodeCopy :: memorySizeFunc where "memoryExtCodeCopy = memRegion 1 3"
definition memoryMLoad :: memorySizeFunc where
  "memoryMLoad st = bind_res (Back st 0) (\<lambda>off. Ok (calcMemSize off 32))"
definition memoryMStore8 :: memorySizeFunc where
  "memoryMStore8 st = bind_res (Back st 0) (\<lambda>off. Ok (calcMemSize off 1))"
definition memoryMStore :: memorySizeFunc where
  "memoryMStore st = bind_res (Back st 0) (\<lambda>off. Ok (calcMemSize off 32))"
definition memoryCreate :: memorySizeFunc where "memoryCreate = memRegion 1 2"
definition memoryReturn :: memorySizeFunc where "memoryReturn = memRegion 0 1"
definition memoryRevert :: memorySizeFunc where "memoryRevert = memRegion 0 1"
definition memoryLog :: memorySizeFunc where "memoryLog = memRegion 0 1"

definition memRegions :: "nat \<Rightarrow> nat \<Rightarrow> nat \<Rightarrow> nat \<Rightarrow> memorySizeFunc" where
  "memRegions i j i' j' st =
     bind_res (memRegion i j st) (\<lambda>x. bind_res (memRegion i' j' st) (\<lambda>y. Ok (BigMax x y)))"

definition memoryCall :: memorySizeFunc where "memoryCall = memRegions 5 6 3 4"
definition memoryCallCode :: memorySizeFunc where "memoryCallCode = memRegions 5 6 3 4"
definition memoryDelegateCall :: memorySizeFunc where "memoryDelegateCall = memRegions 4 5 2 3"
definition memoryStaticCall :: memorySizeFunc where "memoryStaticCall = memRegions 4 5 2 3"

section \<open>gas\_table.go\<close>

fun bind_err :: "vmerr + 'a \<Rightarrow> ('a \<Rightarrow> vmerr + 'b) \<Rightarrow> vmerr + 'b" where
  "bind_err (Inl e) f = Inl e"
| "bind_err (Inr x) f = f x"

text \<open>\<^verbatim>\<open>if gas, overflow = math.SafeAdd(gas, x); overflow { return 0, errGasUintOverflow }\<close>\<close>

definition gasAdd :: "uint64 \<Rightarrow> uint64 \<Rightarrow> vmerr + uint64" where
  "gasAdd x y = (case SafeAdd x y of (g, overflow) \<Rightarrow> if overflow then Inl ErrGasUintOverflow else Inr g)"

definition gasMul :: "uint64 \<Rightarrow> uint64 \<Rightarrow> vmerr + uint64" where
  "gasMul x y = (case SafeMul x y of (g, overflow) \<Rightarrow> if overflow then Inl ErrGasUintOverflow else Inr g)"

definition gasUint64 :: "int \<Rightarrow> vmerr + uint64" where
  "gasUint64 v = (case bigUint64 v of (g, overflow) \<Rightarrow> if overflow then Inl ErrGasUintOverflow else Inr g)"

definition memoryGasCost :: "Memory \<Rightarrow> uint64 \<Rightarrow> (vmerr + uint64) \<times> Memory" where
  "memoryGasCost mem newMemSize =
     (if newMemSize = 0 then (Inr 0, mem)
      else if newMemSize > 0xffffffffe0 then (Inl ErrGasUintOverflow, mem)
      else
        (let newMemSizeWords = toWordSize newMemSize; newMemSize' = newMemSizeWords * 32 in
         if newMemSize' > of_nat (length (store mem))
         then
           (let square = newMemSizeWords * newMemSizeWords;
                linCoef = newMemSizeWords * MemoryGas;
                quadCoef = square div QuadCoeffDiv;
                newTotalFee = linCoef + quadCoef;
                fee = newTotalFee - lastGasCost mem
            in (Inr fee, mem\<lparr>lastGasCost := newTotalFee\<rparr>))
         else (Inr 0, mem)))"

text \<open>The memory fee of the machine, then the rest of the computation.\<close>

definition withMemoryGas ::
  "Machine \<Rightarrow> uint64 \<Rightarrow> (uint64 \<Rightarrow> vmerr + uint64) \<Rightarrow> (vmerr + uint64) \<times> Machine" where
  "withMemoryGas m memorySize k =
     (case memoryGasCost (m_mem m) memorySize of (r, mem') \<Rightarrow> (bind_err r k, m\<lparr>m_mem := mem'\<rparr>))"

definition constGasFunc :: "uint64 \<Rightarrow> gasFunc" where
  "constGasFunc gas cx m memorySize = Ok (Inr gas, m)"

text \<open>
  The shape shared by \<^verbatim>\<open>gasCallDataCopy\<close>, \<^verbatim>\<open>gasReturnDataCopy\<close>, \<^verbatim>\<open>gasCodeCopy\<close>, \<^verbatim>\<open>gasExtCodeCopy\<close> and
  \<^verbatim>\<open>gasSha3\<close>: memory fee, base fee, and a fee per word of the size that is \<open>i\<close> below the top.
\<close>

definition gasWords :: "uint64 \<Rightarrow> nat \<Rightarrow> uint64 \<Rightarrow> gasFunc" where
  "gasWords base i perWord cx m memorySize =
     bind_res (Back (m_stack m) i) (\<lambda>size'.
       Ok (withMemoryGas m memorySize (\<lambda>gas.
         bind_err (gasAdd gas base) (\<lambda>gas1.
         bind_err (gasUint64 size') (\<lambda>words.
         bind_err (gasMul (toWordSize words) perWord) (\<lambda>wordGas. gasAdd gas1 wordGas))))))"

definition gasCallDataCopy :: gasFunc where "gasCallDataCopy = gasWords GasFastestStep 2 CopyGas"
definition gasReturnDataCopy :: gasFunc where "gasReturnDataCopy = gasWords GasFastestStep 2 CopyGas"
definition gasSha3 :: gasFunc where "gasSha3 = gasWords Sha3Gas 1 Sha3WordGas"
definition gasCodeCopy :: gasFunc where "gasCodeCopy = gasWords GasFastestStep 2 CopyGas"
definition gasExtCodeCopy :: gasFunc where
  "gasExtCodeCopy cx = gasWords (ExtcodeCopy (cxGasTable cx)) 3 CopyGas cx"

definition EmptyHash :: "Hash \<Rightarrow> bool" where
  "EmptyHash h = (h = zeroHash)"

definition gasSStore :: gasFunc where
  "gasSStore cx m memorySize =
     bind_res (Back (m_stack m) 1) (\<lambda>y. bind_res (Back (m_stack m) 0) (\<lambda>x.
       (case GetState (cx_ext cx) (m_db m) (c_self (m_contract m)) (BigToHash x) of (val, s) \<Rightarrow>
          if EmptyHash val \<and> \<not> EmptyHash (BigToHash y) then Ok (Inr SstoreSetGas, set_db s m)
          else if \<not> EmptyHash val \<and> EmptyHash (BigToHash y)
          then Ok (Inr SstoreClearGas, set_db (AddRefund s (uint SstoreRefundGas)) m)
          else Ok (Inr SstoreResetGas, set_db s m))))"

definition makeGasLog :: "uint64 \<Rightarrow> gasFunc" where
  "makeGasLog n cx m memorySize =
     bind_res (Back (m_stack m) 1) (\<lambda>sz.
       (case gasUint64 sz of
          Inl e \<Rightarrow> Ok (Inl e, m)
        | Inr requestedSize \<Rightarrow>
            Ok (withMemoryGas m memorySize (\<lambda>gas.
              bind_err (gasAdd gas LogGas) (\<lambda>gas1.
              bind_err (gasAdd gas1 (n * LogTopicGas)) (\<lambda>gas2.
              bind_err (gasMul requestedSize LogDataGas) (\<lambda>memorySizeGas. gasAdd gas2 memorySizeGas)))))))"

text \<open>\<^verbatim>\<open>gasMLoad\<close>, \<^verbatim>\<open>gasMStore\<close>, \<^verbatim>\<open>gasMStore8\<close> and \<^verbatim>\<open>gasCreate\<close>: memory fee plus a constant.\<close>

definition gasMemPlus :: "uint64 \<Rightarrow> gasFunc" where
  "gasMemPlus base cx m memorySize = Ok (withMemoryGas m memorySize (\<lambda>gas. gasAdd gas base))"

definition gasMLoad :: gasFunc where "gasMLoad = gasMemPlus GasFastestStep"
definition gasMStore8 :: gasFunc where "gasMStore8 = gasMemPlus GasFastestStep"
definition gasMStore :: gasFunc where "gasMStore = gasMemPlus GasFastestStep"
definition gasCreate :: gasFunc where "gasCreate = gasMemPlus CreateGas"

definition gasBalance :: gasFunc where "gasBalance cx m memorySize = Ok (Inr (gt_Balance (cxGasTable cx)), m)"
definition gasExtCodeSize :: gasFunc where
  "gasExtCodeSize cx m memorySize = Ok (Inr (ExtcodeSize (cxGasTable cx)), m)"
definition gasSLoad :: gasFunc where "gasSLoad cx m memorySize = Ok (Inr (SLoad (cxGasTable cx)), m)"

definition gasExp :: gasFunc where
  "gasExp cx m memorySize =
     bind_res (Back (m_stack m) 1) (\<lambda>e.
       (let expByteLen = of_nat ((BitLen e + 7) div 8) in
        Ok (gasAdd (expByteLen * ExpByte (cxGasTable cx)) GasSlowStep, m)))"

text \<open>
  The tail of the call family: the gas passed on replaces the top of the stack, and is charged.
\<close>

definition chargeCall :: "Ctx \<Rightarrow> Machine \<Rightarrow> vmerr + uint64 \<Rightarrow> ((vmerr + uint64) \<times> Machine) res" where
  "chargeCall cx m gas =
     (case gas of
        Inl e \<Rightarrow> Ok (Inl e, m)
      | Inr g \<Rightarrow>
          bind_res (Back (m_stack m) 0) (\<lambda>callCost.
            (case callGas (cxGasTable cx) (m_Gas m) g callCost of
               Inl e \<Rightarrow> Ok (Inl e, m)
             | Inr cg \<Rightarrow> Ok (gasAdd g cg, m\<lparr>m_stack := (m_stack m)[0 := uint cg]\<rparr>))))"

definition gasCall :: gasFunc where
  "gasCall cx m memorySize =
     bind_res (Back (m_stack m) 2) (\<lambda>value. bind_res (Back (m_stack m) 1) (\<lambda>addr.
       (let X = cx_ext cx; address = cxAddress cx addr; transfersValue = (value \<noteq> 0);
            (newAcct, s) =
              (if cxEIP158 cx
               then (if transfersValue then Empty X (m_db m) address else (False, m_db m))
               else (case Exist X (m_db m) address of (e, s) \<Rightarrow> (\<not> e, s)));
            gas = Calls (cxGasTable cx) + (if newAcct then CallNewAccountGas else 0)
                    + (if transfersValue then CallValueTransferGas else 0);
            (r, m1) = withMemoryGas (set_db s m) memorySize (\<lambda>memoryGas. gasAdd gas memoryGas)
        in chargeCall cx m1 r)))"

definition gasCallCode :: gasFunc where
  "gasCallCode cx m memorySize =
     bind_res (Back (m_stack m) 2) (\<lambda>value.
       (let gas = Calls (cxGasTable cx) + (if value \<noteq> 0 then CallValueTransferGas else 0);
            (r, m1) = withMemoryGas m memorySize (\<lambda>memoryGas. gasAdd gas memoryGas)
        in chargeCall cx m1 r))"

definition gasReturn :: gasFunc where
  "gasReturn cx m memorySize = Ok (withMemoryGas m memorySize (\<lambda>gas. Inr gas))"
definition gasRevert :: gasFunc where
  "gasRevert cx m memorySize = Ok (withMemoryGas m memorySize (\<lambda>gas. Inr gas))"

definition gasSuicide :: gasFunc where
  "gasSuicide cx m memorySize =
     bind_res (if cxEIP150 cx then bind_res (Back (m_stack m) 0) (\<lambda>x. Ok (cxAddress cx x)) else Ok [])
       (\<lambda>address.
       (let X = cx_ext cx; gt = cxGasTable cx; self = c_self (m_contract m);
            (gas, s) =
              (if cxEIP150 cx
               then (if cxEIP158 cx
                     then (case Empty X (m_db m) address of (e, s1) \<Rightarrow>
                             if e then (case GetBalance X s1 self of (b, s2) \<Rightarrow>
                                          (gt_Suicide gt + (if b \<noteq> 0 then CreateBySuicide gt else 0), s2))
                             else (gt_Suicide gt, s1))
                     else (case Exist X (m_db m) address of (e, s1) \<Rightarrow>
                             (gt_Suicide gt + (if \<not> e then CreateBySuicide gt else 0), s1)))
               else (0, m_db m));
            (dead, s') = HasSuicided X s self
        in Ok (Inr gas, set_db (if dead then s' else AddRefund s' (uint SuicideRefundGas)) m)))"

definition gasDelegateCall :: gasFunc where
  "gasDelegateCall cx m memorySize =
     (case withMemoryGas m memorySize (\<lambda>gas. gasAdd gas (Calls (cxGasTable cx))) of
        (r, m1) \<Rightarrow> chargeCall cx m1 r)"

definition gasStaticCall :: gasFunc where
  "gasStaticCall cx m memorySize =
     (case withMemoryGas m memorySize (\<lambda>gas. gasAdd gas (Calls (cxGasTable cx))) of
        (r, m1) \<Rightarrow> chargeCall cx m1 r)"

definition gasPush :: gasFunc where "gasPush cx m memorySize = Ok (Inr GasFastestStep, m)"
definition gasSwap :: gasFunc where "gasSwap cx m memorySize = Ok (Inr GasFastestStep, m)"
definition gasDup :: gasFunc where "gasDup cx m memorySize = Ok (Inr GasFastestStep, m)"

end
