(* ===== verification/EvmCall.thy ===== *)
theory EvmCall
  imports EvmCore Rlp
begin

text \<open>
  Precompiled contracts (core/vm/contracts.go), value transfer (core/evm.go) and the calls of
  core/vm/evm.go. The interpreter is a parameter \<open>R\<close> here; it is tied to the loop in \<open>Interp\<close>.
\<close>

section \<open>contracts.go\<close>

datatype PrecompiledContract =
    PEcrecover | PSha256hash | PRipemd160hash | PDataCopy
  | PBigModExp | PBn256Add | PBn256ScalarMul | PBn256Pairing

definition PrecompiledContractsHomestead :: "Ext \<Rightarrow> Address \<Rightarrow> PrecompiledContract option" where
  "PrecompiledContractsHomestead X addr =
     map_of [(BytesToAddress X [1], PEcrecover), (BytesToAddress X [2], PSha256hash),
             (BytesToAddress X [3], PRipemd160hash), (BytesToAddress X [4], PDataCopy)] addr"

definition PrecompiledContractsByzantium :: "Ext \<Rightarrow> Address \<Rightarrow> PrecompiledContract option" where
  "PrecompiledContractsByzantium X addr =
     map_of [(BytesToAddress X [1], PEcrecover), (BytesToAddress X [2], PSha256hash),
             (BytesToAddress X [3], PRipemd160hash), (BytesToAddress X [4], PDataCopy),
             (BytesToAddress X [5], PBigModExp), (BytesToAddress X [6], PBn256Add),
             (BytesToAddress X [7], PBn256ScalarMul), (BytesToAddress X [8], PBn256Pairing)] addr"

definition precompiles :: "Ctx \<Rightarrow> Address \<Rightarrow> PrecompiledContract option" where
  "precompiles cx =
     (if cxByzantium cx then PrecompiledContractsByzantium (cx_ext cx)
      else PrecompiledContractsHomestead (cx_ext cx))"

definition secp256k1_N :: int where
  "secp256k1_N = 0xfffffffffffffffffffffffffffffffebaaedce6af48a03bbfd25e8cd0364141"

definition ValidateSignatureValues :: "byte \<Rightarrow> int \<Rightarrow> int \<Rightarrow> bool \<Rightarrow> bool" where
  "ValidateSignatureValues v r s homestead =
     (if r < 1 \<or> s < 1 then False
      else if homestead \<and> s > secp256k1_N div 2 then False
      else r < secp256k1_N \<and> s < secp256k1_N \<and> (v = 0 \<or> v = 1))"

text \<open>
  \<^verbatim>\<open>append(input[64:128], v)\<close> writes into the array behind \<open>input\<close> when that array is longer than
  128 bytes, so the result carries the caller's buffer after the call.
\<close>

definition ecrecoverRun :: "Ctx \<Rightarrow> bytes \<Rightarrow> (bytes \<times> vmerr option \<times> bytes) res" where
  "ecrecoverRun cx input0 =
     (let input = RightPadBytes input0 128;
          r = SetBytes (take 32 (drop 64 input));
          s = SetBytes (take 32 (drop 96 input));
          v = input ! 63 - 27
      in if \<not> allZero (take 31 (drop 32 input)) \<or> \<not> ValidateSignatureValues v r s False
         then Ok ([], None, input0)
         else
           (let buf = (if 128 < length input0 then input0[128 := v] else input0) in
            case Ecrecover cx (take 32 input) (take 64 (drop 64 input) @ [v]) of
              None \<Rightarrow> Ok ([], None, buf)
            | Some pubKey \<Rightarrow>
                bind_res (slc pubKey 1 (length pubKey)) (\<lambda>pk.
                  let h = Keccak256 (cx_ext cx) pk in
                  bind_res (slc h 9 (length h)) (\<lambda>a. Ok (LeftPadBytes a 32, None, buf)))))"

definition bigData :: "bytes \<Rightarrow> uint64 \<Rightarrow> uint64 \<Rightarrow> int res" where
  "bigData input start size' = bind_res (getData input start size') (\<lambda>d. Ok (SetBytes d))"

definition modExpMultComplexity :: "int \<Rightarrow> int" where
  "modExpMultComplexity x =
     (if x \<le> 64 then x * x
      else if x \<le> 1024 then (x * x) div 4 + (96 * x - 3072)
      else (x * x) div 16 + (480 * x - 199680))"

definition modExpExpHead :: "bytes \<Rightarrow> int \<Rightarrow> int \<Rightarrow> int res" where
  "modExpExpHead input baseLen expLen =
     (if int (length input) \<le> baseLen then Ok 0
      else if expLen > 32 then bigData input (Uint64 baseLen) 32
      else bigData input (Uint64 baseLen) (Uint64 expLen))"

definition bigModExpGas :: "bytes \<Rightarrow> uint64 res" where
  "bigModExpGas input0 =
     bind_res (bigData input0 0 32) (\<lambda>baseLen.
     bind_res (bigData input0 32 32) (\<lambda>expLen.
     bind_res (bigData input0 64 32) (\<lambda>modLen.
       let input = (if 96 < length input0 then drop 96 input0 else []) in
       bind_res (modExpExpHead input baseLen expLen) (\<lambda>expHead.
         let msb = (if 0 < BitLen expHead then BitLen expHead - 1 else 0);
             adjExpLen = (if expLen > 32 then 8 * (expLen - 32) else 0) + int msb;
             gas = modExpMultComplexity (BigMax modLen baseLen) * BigMax adjExpLen 1 div uint ModExpQuadCoeffDiv
         in Ok (if BitLen gas > 64 then - 1 else Uint64 gas)))))"

definition bigModExpRun :: "bytes \<Rightarrow> bytes res" where
  "bigModExpRun input0 =
     bind_res (bigData input0 0 32) (\<lambda>b. bind_res (bigData input0 32 32) (\<lambda>e.
     bind_res (bigData input0 64 32) (\<lambda>m.
       let baseLen = Uint64 b; expLen = Uint64 e; modLen = Uint64 m;
           input = (if 96 < length input0 then drop 96 input0 else [])
       in if baseLen = 0 \<and> modLen = 0 then Ok []
          else
            bind_res (bigData input 0 baseLen) (\<lambda>base.
            bind_res (bigData input baseLen expLen) (\<lambda>exp.
            bind_res (bigData input (baseLen + expLen) modLen) (\<lambda>mod'.
              if BitLen mod' = 0 then Ok (LeftPadBytes [] (sint modLen))
              else Ok (LeftPadBytes (Bytes (base ^ nat exp mod mod')) (sint modLen))))))))"

definition wordsUp :: "bytes \<Rightarrow> uint64" where
  "wordsUp input = of_nat (length input + 31) div 32"

fun RequiredGas :: "PrecompiledContract \<Rightarrow> bytes \<Rightarrow> uint64 res" where
  "RequiredGas PEcrecover input = Ok EcrecoverGas"
| "RequiredGas PSha256hash input = Ok (wordsUp input * Sha256PerWordGas + Sha256BaseGas)"
| "RequiredGas PRipemd160hash input = Ok (wordsUp input * Ripemd160PerWordGas + Ripemd160BaseGas)"
| "RequiredGas PDataCopy input = Ok (wordsUp input * IdentityPerWordGas + IdentityBaseGas)"
| "RequiredGas PBigModExp input = bigModExpGas input"
| "RequiredGas PBn256Add input = Ok Bn256AddGas"
| "RequiredGas PBn256ScalarMul input = Ok Bn256ScalarMulGas"
| "RequiredGas PBn256Pairing input =
     Ok (Bn256PairingBaseGas + of_nat (length input div 192) * Bn256PairingPerPointGas)"

fun precompileRun :: "Ctx \<Rightarrow> PrecompiledContract \<Rightarrow> bytes \<Rightarrow> (bytes \<times> vmerr option) res" where
  "precompileRun cx PEcrecover input = bind_res (ecrecoverRun cx input) (\<lambda>(ret, err, _). Ok (ret, err))"
| "precompileRun cx PSha256hash input = Ok (sha256Sum cx input, None)"
| "precompileRun cx PRipemd160hash input = Ok (LeftPadBytes (ripemd160Sum cx input) 32, None)"
| "precompileRun cx PDataCopy input = Ok (input, None)"
| "precompileRun cx PBigModExp input = bind_res (bigModExpRun input) (\<lambda>ret. Ok (ret, None))"
| "precompileRun cx PBn256Add input = Ok (bn256AddRun cx input)"
| "precompileRun cx PBn256ScalarMul input = Ok (bn256ScalarMulRun cx input)"
| "precompileRun cx PBn256Pairing input = Ok (bn256PairingRun cx input)"

definition RunPrecompiledContract ::
  "Ctx \<Rightarrow> PrecompiledContract \<Rightarrow> bytes \<Rightarrow> Contract \<Rightarrow> (bytes \<times> vmerr option \<times> Contract) res" where
  "RunPrecompiledContract cx p input contract =
     bind_res (RequiredGas p input) (\<lambda>gas.
       (case UseGas contract gas of
          (True, c) \<Rightarrow> bind_res (precompileRun cx p input) (\<lambda>(ret, err). Ok (ret, err, c))
        | (False, c) \<Rightarrow> Ok ([], Some ErrOutOfGas, c)))"

section \<open>core/evm.go\<close>

definition CanTransfer :: "Ext \<Rightarrow> StateDB \<Rightarrow> Address \<Rightarrow> int \<Rightarrow> bool \<times> StateDB" where
  "CanTransfer X s addr amount = (case GetBalance X s addr of (b, s') \<Rightarrow> (b \<ge> amount, s'))"

definition Transfer :: "Ext \<Rightarrow> StateDB \<Rightarrow> Address \<Rightarrow> Address \<Rightarrow> int \<Rightarrow> StateDB" where
  "Transfer X s sender recipient amount = AddBalance X (SubBalance X s sender amount) recipient amount"

section \<open>crypto.go\<close>

definition CreateAddress :: "Ext \<Rightarrow> Address \<Rightarrow> uint64 \<Rightarrow> Address" where
  "CreateAddress X b nonce =
     BytesToAddress X (drop 9 (Keccak256 X
       (case EncodeToBytes (RList [RBytes b, RUint nonce]) of Some data \<Rightarrow> data | None \<Rightarrow> [])))"

section \<open>evm.go\<close>

definition evm_run ::
  "Ctx \<Rightarrow> runner \<Rightarrow> EVM \<Rightarrow> Contract \<Rightarrow> bytes \<Rightarrow> (bytes \<times> vmerr option \<times> Contract \<times> EVM) res" where
  "evm_run cx R evm contract input =
     (case (case CodeAddr contract of None \<Rightarrow> None | Some a \<Rightarrow> precompiles cx a) of
        Some p \<Rightarrow>
          bind_res (RunPrecompiledContract cx p input contract) (\<lambda>(ret, err, c). Ok (ret, err, c, evm))
      | None \<Rightarrow> R evm contract input)"

text \<open>
  The results of a call: output, gas left, error, the analysis cache that the caller shares with the
  callee, and the EVM.
\<close>

type_synonym callRes = "(bytes \<times> uint64 \<times> vmerr option \<times> destinations \<times> EVM) res"

text \<open>The tail that the four calls share: on an error, revert and, unless it is a revert, burn the gas.\<close>

definition settle :: "Ctx \<Rightarrow> nat \<Rightarrow> bytes \<times> vmerr option \<times> Contract \<times> EVM \<Rightarrow> callRes" where
  "settle cx snapshot r =
     (case r of (ret, err, contract, evm) \<Rightarrow>
        if err \<noteq> None
        then bind_res (RevertToSnapshot (cx_ext cx) (db evm) snapshot) (\<lambda>s.
               let c = (if err \<noteq> Some ErrExecutionReverted then snd (UseGas contract (c_Gas contract)) else contract)
               in Ok (ret, c_Gas c, err, jumpdests c, evm\<lparr>db := s\<rparr>))
        else Ok (ret, c_Gas contract, err, jumpdests contract, evm))"

text \<open>\<^verbatim>\<open>contract.SetCallCode(&addr, StateDB.GetCodeHash(addr), StateDB.GetCode(addr))\<close>\<close>

definition loadCode :: "Ext \<Rightarrow> StateDB \<Rightarrow> Address \<Rightarrow> Contract \<Rightarrow> Contract \<times> StateDB" where
  "loadCode X s addr c =
     (case GetCodeHash X s addr of (h, s1) \<Rightarrow>
      (case GetCode X s1 addr of (code, s2) \<Rightarrow> (SetCallCode c addr h code, s2)))"

definition Call :: "Ctx \<Rightarrow> runner \<Rightarrow> EVM \<Rightarrow> ContractRef \<Rightarrow> Address \<Rightarrow> bytes \<Rightarrow> uint64 \<Rightarrow> int \<Rightarrow> callRes" where
  "Call cx R evm caller addr input gas value =
     (let X = cx_ext cx; jd = refJumpdests caller in
      if NoRecursion cx \<and> depth evm > 0 then Ok ([], gas, None, jd, evm)
      else if depth evm > CallCreateDepth then Ok ([], gas, Some ErrDepth, jd, evm)
      else
        (case CanTransfer X (db evm) (refAddress caller) value of (can, s0) \<Rightarrow>
         if \<not> can then Ok ([], gas, Some ErrInsufficientBalance, jd, evm\<lparr>db := s0\<rparr>)
         else
           (case Snapshot s0 of (snapshot, s1) \<Rightarrow>
           (case Exist X s1 addr of (exists', s2) \<Rightarrow>
            if \<not> exists' \<and> precompiles cx addr = None \<and> cxEIP158 cx \<and> value = 0
            then Ok ([], gas, None, jd, evm\<lparr>db := s2\<rparr>)
            else
              (let s3 = (if \<not> exists' then CreateAccount X s2 addr else s2);
                   s4 = Transfer X s3 (refAddress caller) addr value;
                   (contract, s5) = loadCode X s4 addr (NewContract caller addr value gas)
               in bind_res (evm_run cx R (evm\<lparr>db := s5\<rparr>) contract input) (settle cx snapshot))))))"

definition CallCode :: "Ctx \<Rightarrow> runner \<Rightarrow> EVM \<Rightarrow> ContractRef \<Rightarrow> Address \<Rightarrow> bytes \<Rightarrow> uint64 \<Rightarrow> int \<Rightarrow> callRes" where
  "CallCode cx R evm caller addr input gas value =
     (let X = cx_ext cx; jd = refJumpdests caller in
      if NoRecursion cx \<and> depth evm > 0 then Ok ([], gas, None, jd, evm)
      else if depth evm > CallCreateDepth then Ok ([], gas, Some ErrDepth, jd, evm)
      else
        (case CanTransfer X (db evm) (refAddress caller) value of (can, s0) \<Rightarrow>
         if \<not> can then Ok ([], gas, Some ErrInsufficientBalance, jd, evm\<lparr>db := s0\<rparr>)
         else
           (case Snapshot s0 of (snapshot, s1) \<Rightarrow>
              (let (contract, s2) = loadCode X s1 addr (NewContract caller (refAddress caller) value gas)
               in bind_res (evm_run cx R (evm\<lparr>db := s2\<rparr>) contract input) (settle cx snapshot)))))"

definition DelegateCall :: "Ctx \<Rightarrow> runner \<Rightarrow> EVM \<Rightarrow> ContractRef \<Rightarrow> Address \<Rightarrow> bytes \<Rightarrow> uint64 \<Rightarrow> callRes" where
  "DelegateCall cx R evm caller addr input gas =
     (let X = cx_ext cx; jd = refJumpdests caller in
      if NoRecursion cx \<and> depth evm > 0 then Ok ([], gas, None, jd, evm)
      else if depth evm > CallCreateDepth then Ok ([], gas, Some ErrDepth, jd, evm)
      else
        (case Snapshot (db evm) of (snapshot, s1) \<Rightarrow>
           bind_res (AsDelegate caller (NewContract caller (refAddress caller) 0 gas)) (\<lambda>c.
             let (contract, s2) = loadCode X s1 addr c
             in bind_res (evm_run cx R (evm\<lparr>db := s2\<rparr>) contract input) (settle cx snapshot))))"

text \<open>\<^verbatim>\<open>defer func() { evm.interpreter.readOnly = false }()\<close>\<close>

definition clearReadOnly :: "callRes \<Rightarrow> callRes" where
  "clearReadOnly r = bind_res r (\<lambda>(ret, gas, err, jd, evm). Ok (ret, gas, err, jd, evm\<lparr>readOnly := False\<rparr>))"

definition StaticCall :: "Ctx \<Rightarrow> runner \<Rightarrow> EVM \<Rightarrow> ContractRef \<Rightarrow> Address \<Rightarrow> bytes \<Rightarrow> uint64 \<Rightarrow> callRes" where
  "StaticCall cx R evm caller addr input gas =
     (let X = cx_ext cx; jd = refJumpdests caller in
      if NoRecursion cx \<and> depth evm > 0 then Ok ([], gas, None, jd, evm)
      else if depth evm > CallCreateDepth then Ok ([], gas, Some ErrDepth, jd, evm)
      else
        (case Snapshot (db evm) of (snapshot, s1) \<Rightarrow>
           (let (contract, s2) = loadCode X s1 addr (NewContract caller addr 0 gas);
                body = bind_res (evm_run cx R (evm\<lparr>db := s2, readOnly := True\<rparr>) contract input) (settle cx snapshot)
            in if readOnly evm then body else clearReadOnly body)))"

text \<open>\<^verbatim>\<open>Create\<close> returns the address of the new contract as well.\<close>

type_synonym createRes = "(bytes \<times> Address \<times> uint64 \<times> vmerr option \<times> destinations \<times> EVM) res"

definition zeroAddress :: "Ext \<Rightarrow> Address" where
  "zeroAddress X = replicate (AddressLength X) 0"

definition settleCreate ::
  "Ctx \<Rightarrow> nat \<Rightarrow> Address \<Rightarrow> bytes \<times> vmerr option \<times> Contract \<times> EVM \<Rightarrow> createRes" where
  "settleCreate cx snapshot contractAddr r =
     (case r of (ret, err0, contract0, evm0) \<Rightarrow>
      (let X = cx_ext cx;
           maxCodeSizeExceeded = (cxEIP158 cx \<and> length ret > MaxCodeSize);
           (err, contract, evm) =
             (if err0 = None \<and> \<not> maxCodeSizeExceeded
              then (case UseGas contract0 (of_nat (length ret) * CreateDataGas) of
                      (True, c) \<Rightarrow> (None, c, evm0\<lparr>db := SetCode X (db evm0) contractAddr ret\<rparr>)
                    | (False, c) \<Rightarrow> (Some ErrCodeStoreOutOfGas, c, evm0))
              else (err0, contract0, evm0));
           err' = (if maxCodeSizeExceeded \<and> err = None then Some ErrMaxCodeSizeExceeded else err)
       in if maxCodeSizeExceeded \<or> (err \<noteq> None \<and> (cxHomestead cx \<or> err \<noteq> Some ErrCodeStoreOutOfGas))
          then bind_res (RevertToSnapshot X (db evm) snapshot) (\<lambda>s.
                 let c = (if err \<noteq> Some ErrExecutionReverted then snd (UseGas contract (c_Gas contract))
                          else contract)
                 in Ok (ret, contractAddr, c_Gas c, err', jumpdests c, evm\<lparr>db := s\<rparr>))
          else Ok (ret, contractAddr, c_Gas contract, err', jumpdests contract, evm)))"

definition Create :: "Ctx \<Rightarrow> runner \<Rightarrow> EVM \<Rightarrow> ContractRef \<Rightarrow> bytes \<Rightarrow> uint64 \<Rightarrow> int \<Rightarrow> createRes" where
  "Create cx R evm caller code gas value =
     (let X = cx_ext cx; jd = refJumpdests caller; self = refAddress caller in
      if depth evm > CallCreateDepth then Ok ([], zeroAddress X, gas, Some ErrDepth, jd, evm)
      else
        (case CanTransfer X (db evm) self value of (can, s0) \<Rightarrow>
         if \<not> can then Ok ([], zeroAddress X, gas, Some ErrInsufficientBalance, jd, evm\<lparr>db := s0\<rparr>)
         else
           (case GetNonce X s0 self of (nonce, s1) \<Rightarrow>
           (let s2 = SetNonce X s1 self (nonce + 1);
                contractAddr = CreateAddress X self nonce;
                (contractHash, s3) = GetCodeHash X s2 contractAddr;
                (n, s4) = GetNonce X s3 contractAddr
            in if n \<noteq> 0 \<or> (contractHash \<noteq> zeroHash \<and> contractHash \<noteq> emptyCodeHash X)
               then Ok ([], zeroAddress X, 0, Some ErrContractAddressCollision, jd, evm\<lparr>db := s4\<rparr>)
               else
                 (case Snapshot s4 of (snapshot, s5) \<Rightarrow>
                 (let s6 = CreateAccount X s5 contractAddr;
                      s7 = (if cxEIP158 cx then SetNonce X s6 contractAddr 1 else s6);
                      s8 = Transfer X s7 self contractAddr value;
                      contract = SetCallCode (NewContract caller contractAddr value gas) contractAddr
                                   (Keccak256 X code) code
                  in if NoRecursion cx \<and> depth evm > 0
                     then Ok ([], contractAddr, gas, None, jd, evm\<lparr>db := s8\<rparr>)
                     else bind_res (evm_run cx R (evm\<lparr>db := s8\<rparr>) contract [])
                            (settleCreate cx snapshot contractAddr)))))))"

end
