(* ===== verification/EvmInstr.thy ===== *)
theory EvmInstr
  imports EvmGas EvmCall
begin

text \<open>
  The instructions of core/vm/instructions.go. Items are popped by matching on the stack; a pop from
  an empty stack is the index panic it is in the code. The pool of recycled big integers is not
  modelled: it holds no value that is read again.
\<close>

section \<open>Shapes of instructions\<close>

definition pushOp :: "(Ctx \<Rightarrow> Machine \<Rightarrow> int) \<Rightarrow> executionFunc" where
  "pushOp v cx R m = Ok ([], None, m\<lparr>m_stack := v cx m # m_stack m\<rparr>)"

definition unOp :: "(int \<Rightarrow> int) \<Rightarrow> executionFunc" where
  "unOp f cx R m =
     (case m_stack m of x # st \<Rightarrow> Ok ([], None, m\<lparr>m_stack := f x # st\<rparr>) | _ \<Rightarrow> Panic)"

definition binOp :: "(int \<Rightarrow> int \<Rightarrow> int) \<Rightarrow> executionFunc" where
  "binOp f cx R m =
     (case m_stack m of x # y # st \<Rightarrow> Ok ([], None, m\<lparr>m_stack := f x y # st\<rparr>) | _ \<Rightarrow> Panic)"

definition triOp :: "(int \<Rightarrow> int \<Rightarrow> int \<Rightarrow> int) \<Rightarrow> executionFunc" where
  "triOp f cx R m =
     (case m_stack m of x # y # z # st \<Rightarrow> Ok ([], None, m\<lparr>m_stack := f x y z # st\<rparr>) | _ \<Rightarrow> Panic)"

definition bigDiv :: "int \<Rightarrow> int \<Rightarrow> int" where
  "bigDiv x y = (if y > 0 then x div y else - (x div (- y)))"

definition bigMod :: "int \<Rightarrow> int \<Rightarrow> int" where
  "bigMod x y = x mod \<bar>y\<bar>"

section \<open>Arithmetic\<close>

definition opAdd :: executionFunc where "opAdd = binOp (\<lambda>x y. U256 (x + y))"
definition opSub :: executionFunc where "opSub = binOp (\<lambda>x y. U256 (x - y))"
definition opMul :: executionFunc where "opMul = binOp (\<lambda>x y. U256 (x * y))"
definition opDiv :: executionFunc where
  "opDiv = binOp (\<lambda>x y. if y \<noteq> 0 then U256 (bigDiv x y) else 0)"
definition opSdiv :: executionFunc where
  "opSdiv = binOp (\<lambda>a b. let x = S256 a; y = S256 b in
     if y = 0 then 0 else (let n = (if x * y < 0 then - 1 else 1) in U256 (bigDiv \<bar>x\<bar> \<bar>y\<bar> * n)))"
definition opMod :: executionFunc where
  "opMod = binOp (\<lambda>x y. if y = 0 then 0 else U256 (bigMod x y))"
definition opSmod :: executionFunc where
  "opSmod = binOp (\<lambda>a b. let x = S256 a; y = S256 b in
     if y = 0 then 0 else (let n = (if x < 0 then - 1 else 1) in U256 (bigMod \<bar>x\<bar> \<bar>y\<bar> * n)))"
definition opExp :: executionFunc where "opExp = binOp (\<lambda>base exponent. Exp base exponent)"

definition signExtend :: "int \<Rightarrow> int \<Rightarrow> int" where
  "signExtend back num =
     (let b = unat (Uint64 back * 8 + 7); mask = 2 ^ b - 1
      in U256 (if bit num b then bigOr num (bigNot mask) else bigAnd num mask))"

definition opSignExtend :: executionFunc where
  "opSignExtend cx R m =
     (case m_stack m of
        back # st \<Rightarrow>
          if back < 31
          then (case st of num # st' \<Rightarrow> Ok ([], None, m\<lparr>m_stack := signExtend back num # st'\<rparr>) | [] \<Rightarrow> Panic)
          else Ok ([], None, m\<lparr>m_stack := st\<rparr>)
      | [] \<Rightarrow> Panic)"

definition opNot :: executionFunc where "opNot = unOp (\<lambda>x. U256 (bigNot x))"
definition opLt :: executionFunc where "opLt = binOp (\<lambda>x y. if x < y then 1 else 0)"
definition opGt :: executionFunc where "opGt = binOp (\<lambda>x y. if x > y then 1 else 0)"
definition opSlt :: executionFunc where
  "opSlt = binOp (\<lambda>a b. let x = S256 a; y = S256 b in if x < S256 y then 1 else 0)"
definition opSgt :: executionFunc where
  "opSgt = binOp (\<lambda>a b. let x = S256 a; y = S256 b in if x > y then 1 else 0)"
definition opEq :: executionFunc where "opEq = binOp (\<lambda>x y. if x = y then 1 else 0)"
definition opIszero :: executionFunc where "opIszero = unOp (\<lambda>x. if x > 0 then 0 else 1)"
definition opAnd :: executionFunc where "opAnd = binOp bigAnd"
definition opOr :: executionFunc where "opOr = binOp bigOr"
definition opXor :: executionFunc where "opXor = binOp bigXor"
definition opByte :: executionFunc where
  "opByte = binOp (\<lambda>th val. if th < 32 then uint (Byte val 32 (nat (Int64 th))) else 0)"
definition opAddmod :: executionFunc where
  "opAddmod = triOp (\<lambda>x y z. if z > 0 then U256 (bigMod (x + y) z) else 0)"
definition opMulmod :: executionFunc where
  "opMulmod = triOp (\<lambda>x y z. if z > 0 then U256 (bigMod (x * y) z) else 0)"

section \<open>Environment\<close>

definition opSha3 :: executionFunc where
  "opSha3 cx R m =
     (case m_stack m of
        offset # size' # st \<Rightarrow>
          bind_res (mem_Get (m_mem m) (Int64 offset) (Int64 size')) (\<lambda>data.
            let hash = Keccak256 (cx_ext cx) data;
                m1 = (if EnablePreimageRecording cx
                      then set_db (AddPreimage (m_db m) (BytesToHash hash) data) m else m)
            in Ok ([], None, m1\<lparr>m_stack := SetBytes hash # st\<rparr>))
      | _ \<Rightarrow> Panic)"

definition opAddress :: executionFunc where "opAddress = pushOp (\<lambda>cx m. N_Big (c_self (m_contract m)))"

definition opBalance :: executionFunc where
  "opBalance cx R m =
     (case m_stack m of
        x # st \<Rightarrow> (case GetBalance (cx_ext cx) (m_db m) (cxAddress cx x) of
                    (b, s) \<Rightarrow> Ok ([], None, (set_db s m)\<lparr>m_stack := b # st\<rparr>))
      | _ \<Rightarrow> Panic)"

definition opOrigin :: executionFunc where "opOrigin = pushOp (\<lambda>cx m. N_Big (Origin cx))"
definition opCaller :: executionFunc where "opCaller = pushOp (\<lambda>cx m. N_Big (CallerAddress (m_contract m)))"
definition opCallValue :: executionFunc where "opCallValue = pushOp (\<lambda>cx m. c_value (m_contract m))"

definition opCallDataLoad :: executionFunc where
  "opCallDataLoad cx R m =
     (case m_stack m of
        x # st \<Rightarrow> bind_res (getDataBig (c_Input (m_contract m)) x 32) (\<lambda>d.
                    Ok ([], None, m\<lparr>m_stack := SetBytes d # st\<rparr>))
      | _ \<Rightarrow> Panic)"

definition opCallDataSize :: executionFunc where
  "opCallDataSize = pushOp (\<lambda>cx m. int (length (c_Input (m_contract m))))"

text \<open>\<^verbatim>\<open>memory.Set(memOffset, length, getDataBig(data, dataOffset, length))\<close>\<close>

definition copyData :: "Machine \<Rightarrow> int list \<Rightarrow> bytes \<Rightarrow> int \<Rightarrow> int \<Rightarrow> int \<Rightarrow> (bytes \<times> vmerr option \<times> Machine) res" where
  "copyData m st data memOffset dataOffset len =
     bind_res (getDataBig data dataOffset len) (\<lambda>d.
     bind_res (mem_Set (m_mem m) (Uint64 memOffset) (Uint64 len) d) (\<lambda>mem.
       Ok ([], None, m\<lparr>m_mem := mem, m_stack := st\<rparr>)))"

definition opCallDataCopy :: executionFunc where
  "opCallDataCopy cx R m =
     (case m_stack m of
        memOffset # dataOffset # len # st \<Rightarrow>
          copyData m st (c_Input (m_contract m)) memOffset dataOffset len
      | _ \<Rightarrow> Panic)"

definition opReturnDataSize :: executionFunc where
  "opReturnDataSize = pushOp (\<lambda>cx m. int (length (returnData (m_evm m))))"

definition opReturnDataCopy :: executionFunc where
  "opReturnDataCopy cx R m =
     (case m_stack m of
        memOffset # dataOffset # len # st \<Rightarrow>
          (let end' = dataOffset + len; rd = returnData (m_evm m) in
           if BitLen end' > 64 \<or> of_nat (length rd) < Uint64 end'
           then Ok ([], Some ErrReturnDataOutOfBounds, m\<lparr>m_stack := st\<rparr>)
           else bind_res (slc rd (unat (Uint64 dataOffset)) (unat (Uint64 end'))) (\<lambda>d.
                bind_res (mem_Set (m_mem m) (Uint64 memOffset) (Uint64 len) d) (\<lambda>mem.
                  Ok ([], None, m\<lparr>m_mem := mem, m_stack := st\<rparr>))))
      | _ \<Rightarrow> Panic)"

definition opExtCodeSize :: executionFunc where
  "opExtCodeSize cx R m =
     (case m_stack m of
        a # st \<Rightarrow> (case GetCodeSize (cx_ext cx) (m_db m) (cxAddress cx a) of
                    (n, s) \<Rightarrow> Ok ([], None, (set_db s m)\<lparr>m_stack := n # st\<rparr>))
      | _ \<Rightarrow> Panic)"

definition opCodeSize :: executionFunc where
  "opCodeSize = pushOp (\<lambda>cx m. int (length (c_Code (m_contract m))))"

definition opCodeCopy :: executionFunc where
  "opCodeCopy cx R m =
     (case m_stack m of
        memOffset # codeOffset # len # st \<Rightarrow>
          copyData m st (c_Code (m_contract m)) memOffset codeOffset len
      | _ \<Rightarrow> Panic)"

definition opExtCodeCopy :: executionFunc where
  "opExtCodeCopy cx R m =
     (case m_stack m of
        a # memOffset # codeOffset # len # st \<Rightarrow>
          (case GetCode (cx_ext cx) (m_db m) (cxAddress cx a) of
             (code, s) \<Rightarrow> copyData (set_db s m) st code memOffset codeOffset len)
      | _ \<Rightarrow> Panic)"

definition opGasprice :: executionFunc where "opGasprice = pushOp (\<lambda>cx m. GasPrice cx)"

definition opBlockhash :: executionFunc where
  "opBlockhash cx R m =
     (case m_stack m of
        num # st \<Rightarrow>
          (let n = BlockNumber cx - 257;
               v = (if num > n \<and> num < BlockNumber cx then N_Big (GetHash cx (Uint64 num)) else 0)
           in Ok ([], None, m\<lparr>m_stack := v # st\<rparr>))
      | _ \<Rightarrow> Panic)"

definition opCoinbase :: executionFunc where "opCoinbase = pushOp (\<lambda>cx m. N_Big (Coinbase cx))"
definition opTimestamp :: executionFunc where "opTimestamp = pushOp (\<lambda>cx m. U256 (Time cx))"
definition opNumber :: executionFunc where "opNumber = pushOp (\<lambda>cx m. U256 (BlockNumber cx))"
definition opDifficulty :: executionFunc where "opDifficulty = pushOp (\<lambda>cx m. U256 (Difficulty cx))"
definition opGasLimit :: executionFunc where "opGasLimit = pushOp (\<lambda>cx m. U256 (GasLimit cx))"

section \<open>Stack, memory, storage, jumps\<close>

definition opPop :: executionFunc where
  "opPop cx R m = (case m_stack m of x # st \<Rightarrow> Ok ([], None, m\<lparr>m_stack := st\<rparr>) | _ \<Rightarrow> Panic)"

definition opMload :: executionFunc where
  "opMload cx R m =
     (case m_stack m of
        offset # st \<Rightarrow> bind_res (mem_Get (m_mem m) (Int64 offset) 32) (\<lambda>v.
                         Ok ([], None, m\<lparr>m_stack := SetBytes v # st\<rparr>))
      | _ \<Rightarrow> Panic)"

definition opMstore :: executionFunc where
  "opMstore cx R m =
     (case m_stack m of
        mStart # val # st \<Rightarrow>
          bind_res (mem_Set (m_mem m) (Uint64 mStart) 32 (PaddedBigBytes val 32)) (\<lambda>mem.
            Ok ([], None, m\<lparr>m_mem := mem, m_stack := st\<rparr>))
      | _ \<Rightarrow> Panic)"

definition opMstore8 :: executionFunc where
  "opMstore8 cx R m =
     (case m_stack m of
        off # val # st \<Rightarrow>
          (let o' = Int64 off; xs = store (m_mem m) in
           if 0 \<le> o' \<and> o' < int (length xs)
           then Ok ([], None, m\<lparr>m_mem := (m_mem m)\<lparr>store := xs[nat o' := word_of_int (Int64 val)]\<rparr>, m_stack := st\<rparr>)
           else Panic)
      | _ \<Rightarrow> Panic)"

definition opSload :: executionFunc where
  "opSload cx R m =
     (case m_stack m of
        x # st \<Rightarrow> (case GetState (cx_ext cx) (m_db m) (c_self (m_contract m)) (BigToHash x) of
                    (v, s) \<Rightarrow> Ok ([], None, (set_db s m)\<lparr>m_stack := N_Big v # st\<rparr>))
      | _ \<Rightarrow> Panic)"

definition opSstore :: executionFunc where
  "opSstore cx R m =
     (case m_stack m of
        loc # val # st \<Rightarrow>
          Ok ([], None, (set_db (SetState (cx_ext cx) (m_db m) (c_self (m_contract m)) (BigToHash loc)
                (BigToHash val)) m)\<lparr>m_stack := st\<rparr>)
      | _ \<Rightarrow> Panic)"

text \<open>\<^verbatim>\<open>jumpdests.has(...)\<close>, which may add to the cache of the contract, and the jump.\<close>

definition jumpTo :: "Machine \<Rightarrow> int \<Rightarrow> (bytes \<times> vmerr option \<times> Machine) res" where
  "jumpTo m pos =
     (let c = m_contract m in
      bind_res (destinations_has (jumpdests c) (c_CodeHash c) (c_Code c) pos) (\<lambda>(ok, jd).
        let m1 = m\<lparr>m_contract := c\<lparr>jumpdests := jd\<rparr>\<rparr> in
        if \<not> ok then Ok ([], Some (ErrInvalidJump (GetOp c (Uint64 pos)) pos), m1)
        else Ok ([], None, m1\<lparr>m_pc := Uint64 pos\<rparr>)))"

definition opJump :: executionFunc where
  "opJump cx R m = (case m_stack m of pos # st \<Rightarrow> jumpTo (m\<lparr>m_stack := st\<rparr>) pos | _ \<Rightarrow> Panic)"

definition opJumpi :: executionFunc where
  "opJumpi cx R m =
     (case m_stack m of
        pos # cond # st \<Rightarrow>
          (if cond \<noteq> 0 then jumpTo (m\<lparr>m_stack := st\<rparr>) pos
           else Ok ([], None, m\<lparr>m_stack := st, m_pc := m_pc m + 1\<rparr>))
      | _ \<Rightarrow> Panic)"

definition opJumpdest :: executionFunc where "opJumpdest cx R m = Ok ([], None, m)"
definition opPc :: executionFunc where "opPc = pushOp (\<lambda>cx m. uint (m_pc m))"
definition opMsize :: executionFunc where "opMsize = pushOp (\<lambda>cx m. int (length (store (m_mem m))))"
definition opGas :: executionFunc where "opGas = pushOp (\<lambda>cx m. uint (m_Gas m))"

section \<open>Calls\<close>

definition opCreate :: executionFunc where
  "opCreate cx R m =
     (case m_stack m of
        value # offset # size' # st \<Rightarrow>
          bind_res (mem_Get (m_mem m) (Int64 offset) (Int64 size')) (\<lambda>input.
            let gas0 = m_Gas m;
                gas = (if cxEIP150 cx then gas0 - gas0 div 64 else gas0);
                c1 = snd (UseGas (m_contract m) gas)
            in bind_res (Create cx R (m_evm m) (ContractPtr c1) input gas value)
                 (\<lambda>(res, addr, returnGas, suberr, jd, evm).
                    let v = (if cxHomestead cx \<and> suberr = Some ErrCodeStoreOutOfGas then 0
                             else if suberr \<noteq> None \<and> suberr \<noteq> Some ErrCodeStoreOutOfGas then 0
                             else N_Big addr);
                        m1 = m\<lparr>m_evm := evm, m_contract := c1\<lparr>c_Gas := c_Gas c1 + returnGas, jumpdests := jd\<rparr>,
                               m_stack := v # st\<rparr>
                    in Ok (if suberr = Some ErrExecutionReverted then res else [], None, m1)))
      | _ \<Rightarrow> Panic)"

text \<open>
  What the four call instructions do with the outcome: push the flag, copy the output into memory
  unless the call failed, take back the gas.
\<close>

definition callDone ::
  "Machine \<Rightarrow> int list \<Rightarrow> int \<Rightarrow> int \<Rightarrow> callRes \<Rightarrow> (bytes \<times> vmerr option \<times> Machine) res" where
  "callDone m st retOffset retSize r =
     bind_res r (\<lambda>(ret, returnGas, err, jd, evm).
       bind_res (if err = None \<or> err = Some ErrExecutionReverted
                 then mem_Set (m_mem m) (Uint64 retOffset) (Uint64 retSize) ret else Ok (m_mem m)) (\<lambda>mem.
         let c = m_contract m in
         Ok (ret, None,
             m\<lparr>m_evm := evm, m_contract := c\<lparr>c_Gas := c_Gas c + returnGas, jumpdests := jd\<rparr>, m_mem := mem,
               m_stack := (if err \<noteq> None then 0 else 1) # st\<rparr>)))"

definition opCall :: executionFunc where
  "opCall cx R m =
     (case m_stack m of
        g # addr # v # inOffset # inSize # retOffset # retSize # st \<Rightarrow>
          bind_res (mem_Get (m_mem m) (Int64 inOffset) (Int64 inSize)) (\<lambda>args.
            let value = U256 v; address = cxAddress cx addr;
                gas = Uint64 g + (if value \<noteq> 0 then CallStipend else 0)
            in callDone m st retOffset retSize
                 (Call cx R (m_evm m) (ContractPtr (m_contract m)) address args gas value))
      | _ \<Rightarrow> Panic)"

definition opCallCode :: executionFunc where
  "opCallCode cx R m =
     (case m_stack m of
        g # addr # v # inOffset # inSize # retOffset # retSize # st \<Rightarrow>
          bind_res (mem_Get (m_mem m) (Int64 inOffset) (Int64 inSize)) (\<lambda>args.
            let value = U256 v; address = cxAddress cx addr;
                gas = Uint64 g + (if value \<noteq> 0 then CallStipend else 0)
            in callDone m st retOffset retSize
                 (CallCode cx R (m_evm m) (ContractPtr (m_contract m)) address args gas value))
      | _ \<Rightarrow> Panic)"

definition opDelegateCall :: executionFunc where
  "opDelegateCall cx R m =
     (case m_stack m of
        g # to # inOffset # inSize # outOffset # outSize # st \<Rightarrow>
          bind_res (mem_Get (m_mem m) (Int64 inOffset) (Int64 inSize)) (\<lambda>args.
            callDone m st outOffset outSize
              (DelegateCall cx R (m_evm m) (ContractPtr (m_contract m)) (cxAddress cx to) args (Uint64 g)))
      | _ \<Rightarrow> Panic)"

definition opStaticCall :: executionFunc where
  "opStaticCall cx R m =
     (case m_stack m of
        g # addr # inOffset # inSize # retOffset # retSize # st \<Rightarrow>
          bind_res (mem_Get (m_mem m) (Int64 inOffset) (Int64 inSize)) (\<lambda>args.
            callDone m st retOffset retSize
              (StaticCall cx R (m_evm m) (ContractPtr (m_contract m)) (cxAddress cx addr) args (Uint64 g)))
      | _ \<Rightarrow> Panic)"

definition opReturn :: executionFunc where
  "opReturn cx R m =
     (case m_stack m of
        offset # size' # st \<Rightarrow>
          bind_res (GetPtr (m_mem m) (Int64 offset) (Int64 size')) (\<lambda>ret.
            Ok (ret, None, m\<lparr>m_stack := st\<rparr>))
      | _ \<Rightarrow> Panic)"

definition opRevert :: executionFunc where
  "opRevert cx R m =
     (case m_stack m of
        offset # size' # st \<Rightarrow>
          bind_res (GetPtr (m_mem m) (Int64 offset) (Int64 size')) (\<lambda>ret.
            Ok (ret, None, m\<lparr>m_stack := st\<rparr>))
      | _ \<Rightarrow> Panic)"

definition opStop :: executionFunc where "opStop cx R m = Ok ([], None, m)"

definition opSuicide :: executionFunc where
  "opSuicide cx R m =
     (case m_stack m of
        x # st \<Rightarrow>
          (let X = cx_ext cx; self = c_self (m_contract m);
               (balance, s1) = GetBalance X (m_db m) self;
               s2 = AddBalance X s1 (cxAddress cx x) balance
           in Ok ([], None, (set_db (snd (Suicide X s2 self)) m)\<lparr>m_stack := st\<rparr>))
      | _ \<Rightarrow> Panic)"

section \<open>Instruction makers\<close>

definition makeLog :: "nat \<Rightarrow> executionFunc" where
  "makeLog n cx R m =
     (case m_stack m of
        mStart # mSize # st \<Rightarrow>
          (if length st < n then Panic
           else
             bind_res (mem_Get (m_mem m) (Int64 mStart) (Int64 mSize)) (\<lambda>d.
               let log = \<lparr>lg_Address = c_self (m_contract m), lg_Topics = map BigToHash (take n st), lg_Data = d,
                          lg_BlockNumber = Uint64 (BlockNumber cx), lg_TxHash = zeroHash, lg_TxIndex = 0,
                          lg_BlockHash = zeroHash, lg_Index = 0, lg_Removed = False\<rparr>
               in Ok ([], None, (set_db (AddLog (m_db m) log) m)\<lparr>m_stack := drop n st\<rparr>)))
      | _ \<Rightarrow> Panic)"

definition makePush :: "uint64 \<Rightarrow> int \<Rightarrow> executionFunc" where
  "makePush size' pushByteSize cx R m =
     (let code = c_Code (m_contract m); codeLen = int (length code);
          startMin = (if sint (m_pc m + 1) < codeLen then sint (m_pc m + 1) else codeLen);
          endMin = (if startMin + pushByteSize < codeLen then startMin + pushByteSize else codeLen)
      in if startMin < 0 then Panic
         else bind_res (slc code (nat startMin) (nat endMin)) (\<lambda>d.
           Ok ([], None, m\<lparr>m_stack := SetBytes (RightPadBytes d pushByteSize) # m_stack m, m_pc := m_pc m + size'\<rparr>)))"

definition makeDup :: "nat \<Rightarrow> executionFunc" where
  "makeDup n cx R m =
     (if 0 < n \<and> n \<le> length (m_stack m)
      then Ok ([], None, m\<lparr>m_stack := (m_stack m ! (n - 1)) # m_stack m\<rparr>) else Panic)"

definition makeSwap :: "nat \<Rightarrow> executionFunc" where
  "makeSwap size' cx R m =
     (let n = size' + 1; st = m_stack m in
      if n \<le> length st then Ok ([], None, m\<lparr>m_stack := st[0 := st ! (n - 1), n - 1 := st ! 0]\<rparr>) else Panic)"

end
