(* ===== verification/Interp.thy ===== *)
theory Interp
  imports EvmInstr
begin

text \<open>
  The instruction tables of core/vm/jump\_table.go and the interpreter of core/vm/interpreter.go.
  One turn of the loop is \<open>stepOp\<close>; \<open>runLoop\<close> repeats it with a fuel that also bounds nested
  calls, and \<open>Run\<close> is \<^verbatim>\<open>Interpreter.Run\<close>. Tracing is not modelled.
\<close>

section \<open>jump\_table.go\<close>

record operation =
  execute :: executionFunc
  gasCost :: gasFunc
  validateStack :: "int list \<Rightarrow> vmerr option"
  memorySize :: "memorySizeFunc option"
  halts :: bool
  jumps :: bool
  writes :: bool
  reverts :: bool
  returns :: bool

text \<open>A table holds the valid operations; an opcode without an entry is invalid.\<close>

type_synonym jumpTable = "(byte \<times> operation) list"

definition plainOp :: "executionFunc \<Rightarrow> gasFunc \<Rightarrow> nat \<Rightarrow> nat \<Rightarrow> operation" where
  "plainOp ex g pops pushes =
     \<lparr>execute = ex, gasCost = g, validateStack = makeStackFunc pops pushes, memorySize = None,
      halts = False, jumps = False, writes = False, reverts = False, returns = False\<rparr>"

definition arithTable :: jumpTable where
  "arithTable =
     [(0x00, (plainOp opStop (constGasFunc 0) 0 0)\<lparr>halts := True\<rparr>),
      (0x01, plainOp opAdd (constGasFunc GasFastestStep) 2 1),
      (0x02, plainOp opMul (constGasFunc GasFastStep) 2 1),
      (0x03, plainOp opSub (constGasFunc GasFastestStep) 2 1),
      (0x04, plainOp opDiv (constGasFunc GasFastStep) 2 1),
      (0x05, plainOp opSdiv (constGasFunc GasFastStep) 2 1),
      (0x06, plainOp opMod (constGasFunc GasFastStep) 2 1),
      (0x07, plainOp opSmod (constGasFunc GasFastStep) 2 1),
      (0x08, plainOp opAddmod (constGasFunc GasMidStep) 3 1),
      (0x09, plainOp opMulmod (constGasFunc GasMidStep) 3 1),
      (0x0a, plainOp opExp gasExp 2 1),
      (0x0b, plainOp opSignExtend (constGasFunc GasFastStep) 2 1)]"

definition compareTable :: jumpTable where
  "compareTable =
     [(0x10, plainOp opLt (constGasFunc GasFastestStep) 2 1),
      (0x11, plainOp opGt (constGasFunc GasFastestStep) 2 1),
      (0x12, plainOp opSlt (constGasFunc GasFastestStep) 2 1),
      (0x13, plainOp opSgt (constGasFunc GasFastestStep) 2 1),
      (0x14, plainOp opEq (constGasFunc GasFastestStep) 2 1),
      (0x15, plainOp opIszero (constGasFunc GasFastestStep) 1 1),
      (0x16, plainOp opAnd (constGasFunc GasFastestStep) 2 1),
      (0x18, plainOp opXor (constGasFunc GasFastestStep) 2 1),
      (0x17, plainOp opOr (constGasFunc GasFastestStep) 2 1),
      (0x19, plainOp opNot (constGasFunc GasFastestStep) 1 1),
      (0x1a, plainOp opByte (constGasFunc GasFastestStep) 2 1)]"

definition environmentTable :: jumpTable where
  "environmentTable =
     [(0x20, (plainOp opSha3 gasSha3 2 1)\<lparr>memorySize := Some memorySha3\<rparr>),
      (0x30, plainOp opAddress (constGasFunc GasQuickStep) 0 1),
      (0x31, plainOp opBalance gasBalance 1 1),
      (0x32, plainOp opOrigin (constGasFunc GasQuickStep) 0 1),
      (0x33, plainOp opCaller (constGasFunc GasQuickStep) 0 1),
      (0x34, plainOp opCallValue (constGasFunc GasQuickStep) 0 1),
      (0x35, plainOp opCallDataLoad (constGasFunc GasFastestStep) 1 1),
      (0x36, plainOp opCallDataSize (constGasFunc GasQuickStep) 0 1),
      (0x37, (plainOp opCallDataCopy gasCallDataCopy 3 0)\<lparr>memorySize := Some memoryCallDataCopy\<rparr>),
      (0x38, plainOp opCodeSize (constGasFunc GasQuickStep) 0 1),
      (0x39, (plainOp opCodeCopy gasCodeCopy 3 0)\<lparr>memorySize := Some memoryCodeCopy\<rparr>),
      (0x3a, plainOp opGasprice (constGasFunc GasQuickStep) 0 1),
      (0x3b, plainOp opExtCodeSize gasExtCodeSize 1 1),
      (0x3c, (plainOp opExtCodeCopy gasExtCodeCopy 4 0)\<lparr>memorySize := Some memoryExtCodeCopy\<rparr>)]"

definition blockTable :: jumpTable where
  "blockTable =
     [(0x40, plainOp opBlockhash (constGasFunc GasExtStep) 1 1),
      (0x41, plainOp opCoinbase (constGasFunc GasQuickStep) 0 1),
      (0x42, plainOp opTimestamp (constGasFunc GasQuickStep) 0 1),
      (0x43, plainOp opNumber (constGasFunc GasQuickStep) 0 1),
      (0x44, plainOp opDifficulty (constGasFunc GasQuickStep) 0 1),
      (0x45, plainOp opGasLimit (constGasFunc GasQuickStep) 0 1)]"

definition storageTable :: jumpTable where
  "storageTable =
     [(0x50, plainOp opPop (constGasFunc GasQuickStep) 1 0),
      (0x51, (plainOp opMload gasMLoad 1 1)\<lparr>memorySize := Some memoryMLoad\<rparr>),
      (0x52, (plainOp opMstore gasMStore 2 0)\<lparr>memorySize := Some memoryMStore\<rparr>),
      (0x53, (plainOp opMstore8 gasMStore8 2 0)\<lparr>memorySize := Some memoryMStore8\<rparr>),
      (0x54, plainOp opSload gasSLoad 1 1),
      (0x55, (plainOp opSstore gasSStore 2 0)\<lparr>writes := True\<rparr>),
      (0x56, (plainOp opJump (constGasFunc GasMidStep) 1 0)\<lparr>jumps := True\<rparr>),
      (0x57, (plainOp opJumpi (constGasFunc GasSlowStep) 2 0)\<lparr>jumps := True\<rparr>),
      (0x58, plainOp opPc (constGasFunc GasQuickStep) 0 1),
      (0x59, plainOp opMsize (constGasFunc GasQuickStep) 0 1),
      (0x5a, plainOp opGas (constGasFunc GasQuickStep) 0 1),
      (0x5b, plainOp opJumpdest (constGasFunc JumpdestGas) 0 0)]"

text \<open>The entries \<^verbatim>\<open>PUSHn\<close>, \<^verbatim>\<open>DUPn\<close> and \<^verbatim>\<open>SWAPn\<close> differ in \<open>n\<close> only.\<close>

definition pushEntry :: "nat \<Rightarrow> byte \<times> operation" where
  "pushEntry n = (0x5f + of_nat n, plainOp (makePush (of_nat n) (int n)) gasPush 0 1)"

definition dupEntry :: "nat \<Rightarrow> byte \<times> operation" where
  "dupEntry n = (0x7f + of_nat n, (plainOp (makeDup n) gasDup 0 0)\<lparr>validateStack := makeDupStackFunc n\<rparr>)"

definition swapEntry :: "nat \<Rightarrow> byte \<times> operation" where
  "swapEntry n = (0x8f + of_nat n, (plainOp (makeSwap n) gasSwap 0 0)\<lparr>validateStack := makeSwapStackFunc (n + 1)\<rparr>)"

definition pushTable1 :: jumpTable where "pushTable1 = map pushEntry [1..<17]"
definition pushTable2 :: jumpTable where "pushTable2 = map pushEntry [17..<33]"
definition dupTable :: jumpTable where "dupTable = map dupEntry [1..<17]"
definition swapTable :: jumpTable where "swapTable = map swapEntry [1..<17]"

definition logTable :: jumpTable where
  "logTable =
     [(0xa0, (plainOp (makeLog 0) (makeGasLog 0) 2 0)\<lparr>memorySize := Some memoryLog, writes := True\<rparr>),
      (0xa1, (plainOp (makeLog 1) (makeGasLog 1) 3 0)\<lparr>memorySize := Some memoryLog, writes := True\<rparr>),
      (0xa2, (plainOp (makeLog 2) (makeGasLog 2) 4 0)\<lparr>memorySize := Some memoryLog, writes := True\<rparr>),
      (0xa3, (plainOp (makeLog 3) (makeGasLog 3) 5 0)\<lparr>memorySize := Some memoryLog, writes := True\<rparr>),
      (0xa4, (plainOp (makeLog 4) (makeGasLog 4) 6 0)\<lparr>memorySize := Some memoryLog, writes := True\<rparr>)]"

definition callTable :: jumpTable where
  "callTable =
     [(0xf0, (plainOp opCreate gasCreate 3 1)\<lparr>memorySize := Some memoryCreate, writes := True, returns := True\<rparr>),
      (0xf1, (plainOp opCall gasCall 7 1)\<lparr>memorySize := Some memoryCall, returns := True\<rparr>),
      (0xf2, (plainOp opCallCode gasCallCode 7 1)\<lparr>memorySize := Some memoryCall, returns := True\<rparr>),
      (0xf3, (plainOp opReturn gasReturn 2 0)\<lparr>memorySize := Some memoryReturn, halts := True\<rparr>),
      (0xff, (plainOp opSuicide gasSuicide 1 0)\<lparr>halts := True, writes := True\<rparr>)]"

definition frontierInstructionSet :: jumpTable where
  "frontierInstructionSet =
     arithTable @ compareTable @ environmentTable @ blockTable @ storageTable @ pushTable1 @ pushTable2 @
     dupTable @ swapTable @ logTable @ callTable"

definition homesteadInstructionSet :: jumpTable where
  "homesteadInstructionSet =
     (0xf4, (plainOp opDelegateCall gasDelegateCall 6 1)\<lparr>memorySize := Some memoryDelegateCall, returns := True\<rparr>)
       # frontierInstructionSet"

definition byzantiumInstructionSet :: jumpTable where
  "byzantiumInstructionSet =
     [(0xfa, (plainOp opStaticCall gasStaticCall 6 1)\<lparr>memorySize := Some memoryStaticCall, returns := True\<rparr>),
      (0x3d, plainOp opReturnDataSize (constGasFunc GasQuickStep) 0 1),
      (0x3e, (plainOp opReturnDataCopy gasReturnDataCopy 3 0)\<lparr>memorySize := Some memoryReturnDataCopy\<rparr>),
      (0xfd, (plainOp opRevert gasRevert 2 0)\<lparr>memorySize := Some memoryRevert, reverts := True, returns := True\<rparr>)]
       @ homesteadInstructionSet"

section \<open>interpreter.go\<close>

definition instructionSet :: "Ctx \<Rightarrow> jumpTable" where
  "instructionSet cx =
     (if cxByzantium cx then byzantiumInstructionSet
      else if cxHomestead cx then homesteadInstructionSet
      else frontierInstructionSet)"

abbreviation (input) opCALL :: byte where "opCALL \<equiv> 0xf1"

definition enforceRestrictions ::
  "Ctx \<Rightarrow> EVM \<Rightarrow> byte \<Rightarrow> operation \<Rightarrow> int list \<Rightarrow> vmerr option res" where
  "enforceRestrictions cx evm op operation st =
     (if cxByzantium cx \<and> readOnly evm
      then (if writes operation then Ok (Some ErrWriteProtection)
            else if op = opCALL
            then bind_res (Back st 2) (\<lambda>v. Ok (if BitLen v > 0 then Some ErrWriteProtection else None))
            else Ok None)
      else Ok None)"

text \<open>The memory size an operation needs, rounded up to words; Inl is an overflow.\<close>

definition stepMemory :: "operation \<Rightarrow> int list \<Rightarrow> (vmerr + uint64) res" where
  "stepMemory operation st =
     (case memorySize operation of
        None \<Rightarrow> Ok (Inr 0)
      | Some f \<Rightarrow> bind_res (f st) (\<lambda>x.
          Ok (bind_err (gasUint64 x) (\<lambda>memSize. gasMul (toWordSize memSize) 32))))"

text \<open>Charge for the operation; False is out of gas.\<close>

definition stepGas :: "Ctx \<Rightarrow> operation \<Rightarrow> Machine \<Rightarrow> uint64 \<Rightarrow> (bool \<times> Machine) res" where
  "stepGas cx operation m memorySize' =
     (if DisableGasMetering cx then Ok (True, m)
      else bind_res (gasCost operation cx m memorySize') (\<lambda>(r, m1).
        (case r of
           Inl e \<Rightarrow> Ok (False, m1)
         | Inr cost \<Rightarrow>
             (case UseGas (m_contract m1) cost of (ok, c) \<Rightarrow> Ok (ok, m1\<lparr>m_contract := c\<rparr>)))))"

datatype StepResult = Continue Machine | Halt bytes "vmerr option" Machine

text \<open>What the loop does with the result of an operation.\<close>

definition stepDone :: "operation \<Rightarrow> bytes \<times> vmerr option \<times> Machine \<Rightarrow> StepResult" where
  "stepDone operation r =
     (case r of (res, err, m) \<Rightarrow>
        (let m1 = (if returns operation then m\<lparr>m_evm := (m_evm m)\<lparr>returnData := res\<rparr>\<rparr> else m) in
         if err \<noteq> None then Halt [] err m1
         else if reverts operation then Halt res (Some ErrExecutionReverted) m1
         else if halts operation then Halt res None m1
         else if \<not> jumps operation then Continue (m1\<lparr>m_pc := m_pc m1 + 1\<rparr>)
         else Continue m1))"

text \<open>Charge, expand the memory, execute.\<close>

definition stepExec :: "Ctx \<Rightarrow> runner \<Rightarrow> operation \<Rightarrow> Machine \<Rightarrow> uint64 \<Rightarrow> StepResult res" where
  "stepExec cx R operation m memorySize' =
     bind_res (stepGas cx operation m memorySize') (\<lambda>(ok, m1).
       if \<not> ok then Ok (Halt [] (Some ErrOutOfGas) m1)
       else
         (let m2 = (if memorySize' > 0 then m1\<lparr>m_mem := Resize (m_mem m1) memorySize'\<rparr> else m1)
          in bind_res (execute operation cx R m2) (\<lambda>r. Ok (stepDone operation r))))"

definition stepOp :: "Ctx \<Rightarrow> runner \<Rightarrow> Machine \<Rightarrow> StepResult res" where
  "stepOp cx R m =
     (let op = GetOp (m_contract m) (m_pc m) in
      case map_of (instructionSet cx) op of
        None \<Rightarrow> Ok (Halt [] (Some (ErrInvalidOpcode op)) m)
      | Some operation \<Rightarrow>
          (case validateStack operation (m_stack m) of
             Some err \<Rightarrow> Ok (Halt [] (Some err) m)
           | None \<Rightarrow>
               bind_res (enforceRestrictions cx (m_evm m) op operation (m_stack m)) (\<lambda>restr.
                 (case restr of
                    Some err \<Rightarrow> Ok (Halt [] (Some err) m)
                  | None \<Rightarrow>
                      bind_res (stepMemory operation (m_stack m)) (\<lambda>ms.
                        (case ms of
                           Inl err \<Rightarrow> Ok (Halt [] (Some err) m)
                         | Inr memorySize' \<Rightarrow> stepExec cx R operation m memorySize'))))))"

text \<open>\<open>interpRun cx loop\<close> is \<^verbatim>\<open>Interpreter.Run\<close> around a given main loop.\<close>

definition interpRun ::
  "Ctx \<Rightarrow> (Machine \<Rightarrow> (bytes \<times> vmerr option \<times> Machine) res) \<Rightarrow> runner" where
  "interpRun cx loop evm contract input =
     (let evm1 = evm\<lparr>depth := depth evm + 1, returnData := []\<rparr> in
      if length (c_Code contract) = 0
      then Ok ([], None, contract, evm1\<lparr>depth := depth evm1 - 1\<rparr>)
      else
        bind_res (loop \<lparr>m_evm = evm1, m_contract = contract\<lparr>c_Input := input\<rparr>, m_mem = NewMemory,
                        m_stack = [], m_pc = 0\<rparr>)
          (\<lambda>(ret, err, m). Ok (ret, err, m_contract m, (m_evm m)\<lparr>depth := depth (m_evm m) - 1\<rparr>)))"

primrec runLoop :: "nat \<Rightarrow> Ctx \<Rightarrow> Machine \<Rightarrow> (bytes \<times> vmerr option \<times> Machine) res" where
  "runLoop 0 cx m = NoFuel"
| "runLoop (Suc n) cx m =
     (if abort (m_evm m) then Ok ([], None, m)
      else bind_res (stepOp cx (interpRun cx (runLoop n cx)) m) (\<lambda>r.
        (case r of Continue m' \<Rightarrow> runLoop n cx m' | Halt ret err m' \<Rightarrow> Ok (ret, err, m'))))"

definition Run :: "nat \<Rightarrow> Ctx \<Rightarrow> runner" where
  "Run n cx = interpRun cx (runLoop n cx)"

end
