(* ===== verification/EvmFrame.thy ===== *)
theory EvmFrame
  imports Interp
begin

text \<open>
  What every piece of EVM execution leaves alone. \<open>evm_rel\<close> relates the EVM before and after: the
  database was changed by journalled operations only, so that a revert to an earlier snapshot gives
  back what was there, the call depth, the abort flag and the read-only flag are as before, and in
  read-only mode nothing that a contract can read has changed. The relation is shown for gas
  functions, instructions, calls and one turn of the loop, and then for the interpreter by
  induction on the fuel.
\<close>

section \<open>The relation\<close>

text \<open>
  What a contract can read of the state. An account that does not exist reads like an empty one.
\<close>

definition sameview :: "Ext \<Rightarrow> StateDB \<Rightarrow> StateDB \<Rightarrow> bool" where
  "sameview X s s' \<longleftrightarrow> (\<forall>a. acctOr X (world X s') a = acctOr X (world X s) a) \<and>
     w_logs (world X s') = w_logs (world X s) \<and> w_logSize (world X s') = w_logSize (world X s) \<and>
     w_refund (world X s') = w_refund (world X s)"

lemma sameview_refl [simp]: "sameview X s s"
  by (simp add: sameview_def)

lemma sameview_trans: "sameview X s t \<Longrightarrow> sameview X t u \<Longrightarrow> sameview X s u"
  by (simp add: sameview_def)

lemma sameview_world: "world X s' = world X s \<Longrightarrow> sameview X s s'"
  by (simp add: sameview_def)

text \<open>
  The balance of an account, and the states in which no balance and no refund is negative. No value is
  created between \<open>s\<close> and \<open>s'\<close> when the balances differ on finitely many accounts only, and these
  hold no more in \<open>s'\<close> than in \<open>s\<close>.
\<close>

definition bal :: "Ext \<Rightarrow> StateDB \<Rightarrow> Address \<Rightarrow> int" where
  "bal X s a = v_balance (acctOr X (world X s) a)"

definition sane :: "Ext \<Rightarrow> StateDB \<Rightarrow> bool" where
  "sane X s \<longleftrightarrow> 0 \<le> refund s \<and> (\<forall>a. 0 \<le> bal X s a)"

definition db_ok :: "Ext \<Rightarrow> StateDB \<Rightarrow> bool" where
  "db_ok X s \<longleftrightarrow> wf_db X s \<and> sane X s"

definition no_mint :: "Ext \<Rightarrow> StateDB \<Rightarrow> StateDB \<Rightarrow> bool" where
  "no_mint X s s' \<longleftrightarrow> (\<exists>D. finite D \<and> (\<forall>a. a \<notin> D \<longrightarrow> bal X s' a = bal X s a) \<and> sum (bal X s') D \<le> sum (bal X s) D)"

lemma db_okD: "db_ok X s \<Longrightarrow> wf_db X s" "db_ok X s \<Longrightarrow> wf_state X s" "db_ok X s \<Longrightarrow> sane X s"
  by (simp_all add: db_ok_def wf_dbD)

lemma sum_bal_mono:
  assumes "finite D" "\<forall>a. a \<notin> D \<longrightarrow> bal X s' a = bal X s a" "sum (bal X s') D \<le> sum (bal X s) D" "finite E" "D \<subseteq> E"
  shows "sum (bal X s') E \<le> sum (bal X s) E"
proof -
  have "sum (bal X t) E = sum (bal X t) (E - D) + sum (bal X t) D" for t
    by (rule sum.subset_diff [OF assms(5,4)])
  moreover have "sum (bal X s') (E - D) = sum (bal X s) (E - D)" using assms(2) by (intro sum.cong) auto
  ultimately show ?thesis using assms(3) by simp
qed

lemma no_mint_same: "(\<And>a. bal X s' a = bal X s a) \<Longrightarrow> no_mint X s s'"
  unfolding no_mint_def by (rule exI [of _ "{}"]) simp

lemma no_mint_trans:
  assumes "no_mint X s t" "no_mint X t u"
  shows "no_mint X s u"
proof -
  from assms obtain D E where
    D: "finite D" "\<forall>a. a \<notin> D \<longrightarrow> bal X t a = bal X s a" "sum (bal X t) D \<le> sum (bal X s) D" and
    E: "finite E" "\<forall>a. a \<notin> E \<longrightarrow> bal X u a = bal X t a" "sum (bal X u) E \<le> sum (bal X t) E"
    unfolding no_mint_def by blast
  have "sum (bal X t) (D \<union> E) \<le> sum (bal X s) (D \<union> E)" by (rule sum_bal_mono [OF D]) (use D E in auto)
  moreover have "sum (bal X u) (D \<union> E) \<le> sum (bal X t) (D \<union> E)" by (rule sum_bal_mono [OF E]) (use D E in auto)
  ultimately show ?thesis unfolding no_mint_def using D E by (intro exI [of _ "D \<union> E"]) auto
qed

text \<open>A change of the database, which in read-only mode (\<open>ro\<close>) cannot be seen.\<close>

definition jrel :: "bool \<Rightarrow> Ext \<Rightarrow> StateDB \<Rightarrow> StateDB \<Rightarrow> bool" where
  "jrel ro X s s' \<longleftrightarrow> db_ok X s' \<and> journalled X s s' \<and> no_mint X s s' \<and> (ro \<longrightarrow> sameview X s s')"

lemma jrelI:
  assumes "db_ok X s" "journalled X s s'" "sane X s'" "no_mint X s s'" "ro \<longrightarrow> sameview X s s'"
  shows "jrel ro X s s'"
  using assms journalled_wf_db [OF db_okD(1) [OF assms(1)] assms(2)] by (simp add: jrel_def db_ok_def)

lemma jrel_trans: "jrel ro X s t \<Longrightarrow> jrel ro X t u \<Longrightarrow> jrel ro X s u"
  by (auto simp: jrel_def intro: journalled_trans sameview_trans no_mint_trans)

lemma jrel_ok: "jrel ro X s s' \<Longrightarrow> db_ok X s'"
  by (simp add: jrel_def)

lemma jrel_write:
  assumes "db_ok X s" "journalled X s s'" "\<And>a. bal X s' a = bal X s a" "0 \<le> refund s'" "\<not> ro"
  shows "jrel ro X s s'"
  using assms(5) db_okD(3) [OF assms(1)] assms(3,4)
  by (intro jrelI [OF assms(1,2)] no_mint_same) (simp_all add: sane_def)

lemma jrel_sameview:
  assumes "db_ok X s" "journalled X s s'" "sameview X s s'"
  shows "jrel ro X s s'"
proof -
  have "bal X s' a = bal X s a" for a using assms(3) by (simp add: bal_def sameview_def)
  moreover have "refund s' = refund s" using assms(3) by (simp add: sameview_def)
  ultimately show ?thesis
    using db_okD(3) [OF assms(1)] assms(3) by (intro jrelI [OF assms(1,2)] no_mint_same) (simp_all add: sane_def)
qed

lemma jrel_refl: "db_ok X s \<Longrightarrow> jrel ro X s s"
  by (rule jrel_sameview) (simp_all add: db_okD journalled_refl)

lemma jrel_quiet:
  assumes "db_ok X s" "quiet X s s'"
  shows "jrel ro X s s'"
proof (rule jrel_sameview [OF assms(1)])
  show "journalled X s s'" by (rule quiet_journalled [OF assms(2) db_okD(2) [OF assms(1)]])
  have "world X s' = world X s" using assms(2) unfolding quiet_def by blast
  then show "sameview X s s'" by (rule sameview_world)
qed

text \<open>The getters.\<close>

lemma jrel_getters:
  assumes "db_ok X s"
  shows "jrel ro X s (snd (Exist X s a))" "jrel ro X s (snd (Empty X s a))"
    "jrel ro X s (snd (GetBalance X s a))" "jrel ro X s (snd (GetNonce X s a))"
    "jrel ro X s (snd (GetCode X s a))" "jrel ro X s (snd (GetCodeSize X s a))"
    "jrel ro X s (snd (GetCodeHash X s a))" "jrel ro X s (snd (GetState X s a k))"
    "jrel ro X s (snd (HasSuicided X s a))"
proof -
  note q = jrel_quiet [OF assms] and w = db_okD(2) [OF assms]
  show "jrel ro X s (snd (Exist X s a))" by (rule q) (simp add: Exist_spec [OF w])
  show "jrel ro X s (snd (Empty X s a))" by (rule q) (simp add: Empty_spec [OF w])
  show "jrel ro X s (snd (GetBalance X s a))" by (rule q) (simp add: GetBalance_spec [OF w])
  show "jrel ro X s (snd (GetNonce X s a))" by (rule q) (simp add: GetNonce_spec [OF w])
  show "jrel ro X s (snd (GetCode X s a))" by (rule q) (simp add: GetCode_spec [OF w])
  show "jrel ro X s (snd (GetCodeSize X s a))" by (rule q) (simp add: GetCodeSize_quiet [OF w])
  show "jrel ro X s (snd (GetCodeHash X s a))" by (rule q) (simp add: GetCodeHash_spec [OF w])
  show "jrel ro X s (snd (GetState X s a k))" by (rule q) (simp add: GetState_spec [OF w])
  show "jrel ro X s (snd (HasSuicided X s a))" by (rule q) (simp add: HasSuicided_spec [OF w])
qed

lemma jrel_get:
  assumes "db_ok X s"
  shows "Exist X s a = (e, s') \<Longrightarrow> jrel ro X s s'" "Empty X s a = (e, s') \<Longrightarrow> jrel ro X s s'"
    "GetBalance X s a = (b, s') \<Longrightarrow> jrel ro X s s'" "GetNonce X s a = (n, s') \<Longrightarrow> jrel ro X s s'"
    "GetCode X s a = (c, s') \<Longrightarrow> jrel ro X s s'" "GetCodeSize X s a = (z, s') \<Longrightarrow> jrel ro X s s'"
    "GetCodeHash X s a = (c, s') \<Longrightarrow> jrel ro X s s'" "GetState X s a k = (h, s') \<Longrightarrow> jrel ro X s s'"
    "HasSuicided X s a = (e, s') \<Longrightarrow> jrel ro X s s'" "CanTransfer X s a v = (e, s') \<Longrightarrow> jrel ro X s s'"
proof -
  note g = jrel_getters [OF assms, of ro a]
  show "Exist X s a = (e, s') \<Longrightarrow> jrel ro X s s'" using g(1) by simp
  show "Empty X s a = (e, s') \<Longrightarrow> jrel ro X s s'" using g(2) by simp
  show b: "GetBalance X s a = (b, s') \<Longrightarrow> jrel ro X s s'" for b using g(3) by simp
  show "GetNonce X s a = (n, s') \<Longrightarrow> jrel ro X s s'" using g(4) by simp
  show "GetCode X s a = (c, s') \<Longrightarrow> jrel ro X s s'" using g(5) by simp
  show "GetCodeSize X s a = (z, s') \<Longrightarrow> jrel ro X s s'" using g(6) by simp
  show "GetCodeHash X s a = (c, s') \<Longrightarrow> jrel ro X s s'" using g(7) by simp
  show "GetState X s a k = (h, s') \<Longrightarrow> jrel ro X s s'" using g(8) [of k] by simp
  show "HasSuicided X s a = (e, s') \<Longrightarrow> jrel ro X s s'" using g(9) by simp
  show "CanTransfer X s a v = (e, s') \<Longrightarrow> jrel ro X s s'"
    using b by (auto simp: CanTransfer_def split: prod.splits)
qed

text \<open>Writes.\<close>

lemma acctOr_upd: "acctOr X (updAcct X a f w) b = (if b = a then f (acctOr X w a) else acctOr X w b)"
  by (simp add: acctOr_def updAcct_def)

lemma updAcct_fields [simp]:
  "w_logs (updAcct X a f w) = w_logs w" "w_logSize (updAcct X a f w) = w_logSize w"
  "w_refund (updAcct X a f w) = w_refund w" "w_preimages (updAcct X a f w) = w_preimages w"
  by (simp_all add: updAcct_def putAcct_def)

lemma acctOr_fields [simp]:
  "acctOr X (w\<lparr>w_preimages := p\<rparr>) a = acctOr X w a" "acctOr X (w\<lparr>w_refund := r\<rparr>) a = acctOr X w a"
  "acctOr X (putAcct b v w) a = (if a = b then v else acctOr X w a)"
  "acctOr X (pushLog th bh i l w) a = acctOr X w a"
  by (simp_all add: acctOr_def pushLog_def)

lemma putAcct_fields [simp]:
  "w_logs (putAcct b v w) = w_logs w" "w_logSize (putAcct b v w) = w_logSize w"
  "w_refund (putAcct b v w) = w_refund w"
  by (simp_all add: putAcct_def)

lemma jrel_AddPreimage:
  assumes "db_ok X s"
  shows "jrel ro X s (AddPreimage s h b)"
proof (rule jrel_sameview [OF assms AddPreimage_spec(1) [OF db_okD(2) [OF assms]]])
  show "sameview X s (AddPreimage s h b)"
    by (simp add: sameview_def AddPreimage_spec(2) [OF db_okD(2) [OF assms]] del: world_fields)
qed

lemma bal_write:
  assumes "wf_state X s"
  shows "bal X (AddBalance X s a n) b = (if b = a then bal X s a + n else bal X s b)"
    "bal X (SubBalance X s a n) b = (if b = a then bal X s a - n else bal X s b)"
    "bal X (SetNonce X s a m) b = bal X s b" "bal X (SetCode X s a c) b = bal X s b"
    "bal X (SetState X s a k v) b = bal X s b" "bal X (CreateAccount X s a) b = bal X s b"
    "bal X (AddLog s l) b = bal X s b" "bal X (AddRefund s r) b = bal X s b"
    "bal X (snd (Suicide X s a)) b = (if b = a then 0 else bal X s b)"
proof -
  show "bal X (snd (Suicide X s a)) b = (if b = a then 0 else bal X s b)"
    by (cases "w_acct (world X s) a")
      (simp_all add: bal_def Suicide_spec(3) [OF assms], simp add: acctOr_def emptyView_def)
qed (simp_all add: bal_def writer_world [OF assms] acctOr_upd)

lemma refund_write:
  assumes "wf_state X s"
  shows "refund (AddBalance X s a n) = refund s" "refund (SubBalance X s a n) = refund s"
    "refund (SetNonce X s a m) = refund s" "refund (SetCode X s a c) = refund s"
    "refund (SetState X s a k v) = refund s" "refund (CreateAccount X s a) = refund s"
    "refund (AddLog s l) = refund s" "refund (AddRefund s r) = refund s + r"
    "refund (snd (Suicide X s a)) = refund s"
  unfolding world_fields(1) [symmetric, of _ X]
  by (auto simp: writer_world [OF assms] pushLog_def simp del: world_fields split: option.splits)

lemma jrel_Transfer:
  assumes ok: "db_ok X s" and n: "0 \<le> n" "n \<le> bal X s a" and ro: "ro \<longrightarrow> n = 0"
  shows "jrel ro X s (Transfer X s a b n)"
proof (rule jrelI [OF ok])
  let ?s1 = "SubBalance X s a n" and ?s2 = "Transfer X s a b n"
  note w = db_okD(2) [OF ok]
  have j1: "journalled X s ?s1" by (rule SubBalance_spec(1) [OF w])
  have w1: "wf_state X ?s1" by (rule journalled_wf [OF j1])
  show j: "journalled X s ?s2" unfolding Transfer_def by (rule journalled_trans [OF j1 AddBalance_spec(1) [OF w1]])
  have bal: "bal X ?s2 = (\<lambda>c. bal X s c - (if c = a then n else 0) + (if c = b then n else 0))"
    by (simp add: fun_eq_iff Transfer_def bal_write [OF w1] bal_write [OF w])
  have nn: "0 \<le> bal X s c" "0 \<le> refund s" for c using db_okD(3) [OF ok] by (simp_all add: sane_def)
  have rf: "refund ?s2 = refund s" by (simp add: Transfer_def refund_write [OF w1] refund_write [OF w])
  show "sane X ?s2" using nn n by (auto simp: sane_def bal rf)
  show "no_mint X s ?s2"
    unfolding no_mint_def bal by (intro exI [of _ "{a, b}"]) (cases "a = b"; auto)
  show "ro \<longrightarrow> sameview X s ?s2"
  proof
    assume ro
    with ro have "n = 0" by simp
    then show "sameview X s ?s2"
      unfolding sameview_def Transfer_def AddBalance_spec(2) [OF w1] SubBalance_spec(2) [OF w]
      by (simp add: acctOr_upd AcctView_idem)
  qed
qed

lemma jrel_CreateAccount:
  assumes "db_ok X s" "w_acct (world X s) a = None"
  shows "jrel ro X s (CreateAccount X s a)"
proof (rule jrel_sameview [OF assms(1) CreateAccount_spec(1) [OF db_okD(2) [OF assms(1)]]])
  have "acctOr X (world X s) a = emptyView X" using assms(2) by (simp add: acctOr_def)
  moreover have "(emptyView X)\<lparr>v_balance := v_balance (emptyView X)\<rparr> = emptyView X" by (rule AcctView_idem)
  ultimately show "sameview X s (CreateAccount X s a)"
    by (simp add: sameview_def CreateAccount_spec(2) [OF db_okD(2) [OF assms(1)]] del: world_fields)
qed

lemma jrel_writers:
  assumes "db_ok X s" "\<not> ro"
  shows "jrel ro X s (SetNonce X s a n)" "jrel ro X s (SetCode X s a c)" "jrel ro X s (SetState X s a k v)"
    "jrel ro X s (CreateAccount X s a)" "jrel ro X s (AddLog s l)" "0 \<le> r \<Longrightarrow> jrel ro X s (AddRefund s r)"
proof -
  note w = db_okD(2) [OF assms(1)]
  have "0 \<le> refund s" using db_okD(3) [OF assms(1)] by (simp add: sane_def)
  note j = jrel_write [OF assms(1) _ _ _ assms(2)] and this
  then show "jrel ro X s (SetNonce X s a n)" "jrel ro X s (SetCode X s a c)" "jrel ro X s (SetState X s a k v)"
    "jrel ro X s (CreateAccount X s a)" "jrel ro X s (AddLog s l)" "0 \<le> r \<Longrightarrow> jrel ro X s (AddRefund s r)"
    by (auto intro!: j writer_journalled w simp: bal_write [OF w] refund_write [OF w])
qed

text \<open>A suicide sends the balance away before it is cleared; sent to itself, it is lost.\<close>

lemma jrel_Suicide:
  assumes ok: "db_ok X s" and ro: "\<not> ro"
  shows "jrel ro X s (snd (Suicide X (AddBalance X s b (bal X s a)) a))"
proof (rule jrelI [OF ok])
  let ?s1 = "AddBalance X s b (bal X s a)"
  let ?s2 = "snd (Suicide X ?s1 a)"
  note w = db_okD(2) [OF ok]
  have j1: "journalled X s ?s1" by (rule AddBalance_spec(1) [OF w])
  have w1: "wf_state X ?s1" by (rule journalled_wf [OF j1])
  show "journalled X s ?s2" by (rule journalled_trans [OF j1 Suicide_spec(1) [OF w1]])
  have bal: "bal X ?s2 = (\<lambda>c. if c = a then 0 else if c = b then bal X s b + bal X s a else bal X s c)"
    by (simp add: fun_eq_iff bal_write [OF w1] bal_write [OF w])
  have nn: "0 \<le> bal X s c" "0 \<le> refund s" for c using db_okD(3) [OF ok] by (simp_all add: sane_def)
  have rf: "refund ?s2 = refund s" by (simp add: refund_write [OF w1] refund_write [OF w])
  show "sane X ?s2" using nn by (auto simp: sane_def bal rf)
  show "no_mint X s ?s2"
    unfolding no_mint_def bal using nn(1) [of a] by (intro exI [of _ "{a, b}"]) (cases "a = b"; auto)
qed (use ro in simp)

lemma jrel_Snapshot: "db_ok X s \<Longrightarrow> Snapshot s = (i, s1) \<Longrightarrow> jrel ro X s s1"
  using db.snap_step [of X s i s1] jrel_sameview [of X s s1] sameview_world [of X s1 s] by (simp add: db_okD)

lemma Snapshot_sees: "db_ok X s \<Longrightarrow> Snapshot s = (i, s1) \<Longrightarrow> world X s1 = world X s"
  using db.snap_step [of X s i s1] by (simp add: db_okD)

lemma jrel_revert:
  assumes "db_ok X s" "Snapshot s = (i, s1)" "jrel ro X s1 s2" "RevertToSnapshot X s2 i = Ok s3"
  shows "jrel ro' X s s3" "world X s3 = world X s"
proof -
  have "journalled X s1 s2" using assms(3) by (simp add: jrel_def)
  from db.revert_ok [OF db_okD(1) [OF assms(1)] assms(2) this] assms(4)
  have "journalled X s s3" "world X s3 = world X s" by simp_all
  then show "jrel ro' X s s3" "world X s3 = world X s"
    using jrel_sameview [OF assms(1)] sameview_world [of X s3 s] by simp_all
qed

section \<open>The EVM\<close>

abbreviation static :: "Ctx \<Rightarrow> EVM \<Rightarrow> bool" where
  "static cx evm \<equiv> cxByzantium cx \<and> readOnly evm"

definition evm_rel :: "Ctx \<Rightarrow> EVM \<Rightarrow> EVM \<Rightarrow> bool" where
  "evm_rel cx evm evm' \<longleftrightarrow> jrel (static cx evm) (cx_ext cx) (db evm) (db evm') \<and>
     depth evm' = depth evm \<and> readOnly evm' = readOnly evm \<and> abort evm' = abort evm"

abbreviation evm_ok :: "Ctx \<Rightarrow> EVM \<Rightarrow> bool" where
  "evm_ok cx evm \<equiv> db_ok (cx_ext cx) (db evm)"

lemma evm_rel_refl: "evm_ok cx evm \<Longrightarrow> evm_rel cx evm evm"
  by (simp add: evm_rel_def jrel_refl)

lemma evm_rel_trans: "evm_rel cx e1 e2 \<Longrightarrow> evm_rel cx e2 e3 \<Longrightarrow> evm_rel cx e1 e3"
  by (auto simp: evm_rel_def intro: jrel_trans)

lemma evm_rel_ok: "evm_rel cx evm evm' \<Longrightarrow> evm_ok cx evm'"
  by (simp add: evm_rel_def jrel_def)

lemma evm_rel_db: "jrel (static cx evm) (cx_ext cx) (db evm) s \<Longrightarrow> evm_rel cx evm (evm\<lparr>db := s\<rparr>)"
  by (simp add: evm_rel_def)

definition runner_rel :: "Ctx \<Rightarrow> runner \<Rightarrow> bool" where
  "runner_rel cx R \<longleftrightarrow> (\<forall>evm c inp ret err c' evm'. evm_ok cx evm \<longrightarrow> 0 \<le> c_value c \<longrightarrow>
     R evm c inp = Ok (ret, err, c', evm') \<longrightarrow> evm_rel cx evm evm')"

lemma evm_run_rel:
  assumes "runner_rel cx R" "evm_ok cx evm" "evm_run cx R evm c inp = Ok (ret, err, c', evm')" "0 \<le> c_value c"
  shows "evm_rel cx evm evm'"
proof (cases "case CodeAddr c of None \<Rightarrow> None | Some a \<Rightarrow> precompiles cx a")
  case None
  then have "R evm c inp = Ok (ret, err, c', evm')" using assms(3) by (simp add: evm_run_def)
  then show ?thesis using assms(1,2,4) unfolding runner_rel_def by blast
next
  case (Some p)
  then have "evm' = evm"
    using assms(3) by (auto simp: evm_run_def split: prod.splits elim!: bind_res_OkE)
  then show ?thesis using assms(2) by (simp add: evm_rel_refl)
qed

text \<open>
  The tail of a call, for a snapshot taken at \<open>s\<close>: a failed call leaves the world of the snapshot.
\<close>

lemma settle_rel:
  assumes "db_ok (cx_ext cx) s" "Snapshot s = (i, s1)" "jrel ro (cx_ext cx) s1 (db evm2)"
    and "settle cx i (ret, err, c, evm2) = Ok (ret', g, err', jd, evm3)"
  shows "jrel ro (cx_ext cx) s (db evm3)" "evm3 = evm2\<lparr>db := db evm3\<rparr>" "err' = err"
    "err \<noteq> None \<Longrightarrow> world (cx_ext cx) (db evm3) = world (cx_ext cx) s"
proof -
  have ss: "jrel ro (cx_ext cx) s s1" by (rule jrel_Snapshot [OF assms(1,2)])
  have "jrel ro (cx_ext cx) s (db evm3) \<and> evm3 = evm2\<lparr>db := db evm3\<rparr> \<and> err' = err \<and>
      (err \<noteq> None \<longrightarrow> world (cx_ext cx) (db evm3) = world (cx_ext cx) s)"
  proof (cases err)
    case None
    then show ?thesis using assms(4) jrel_trans [OF ss assms(3)] by (auto simp: settle_def)
  next
    case (Some e)
    then obtain s3 where s3: "RevertToSnapshot (cx_ext cx) (db evm2) i = Ok s3" "evm3 = evm2\<lparr>db := s3\<rparr>" "err' = err"
      using assms(4) by (auto simp: settle_def Let_def elim!: bind_res_OkE)
    then show ?thesis using jrel_revert [OF assms(1,2,3) s3(1)] by simp
  qed
  then show "jrel ro (cx_ext cx) s (db evm3)" "evm3 = evm2\<lparr>db := db evm3\<rparr>" "err' = err"
    "err \<noteq> None \<Longrightarrow> world (cx_ext cx) (db evm3) = world (cx_ext cx) s"
    by simp_all
qed

text \<open>The core of the four calls: run on a database reached from the snapshot, then settle.\<close>

lemma run_settle_rel:
  assumes R: "runner_rel cx R" and s: "db_ok (cx_ext cx) s" "Snapshot s = (i, s1)"
    and j: "jrel (static cx evm) (cx_ext cx) s1 (db evm)" and v: "0 \<le> c_value c"
    and r: "bind_res (evm_run cx R evm c inp) (settle cx i) = Ok (ret, g, err, jd, evm')"
  shows "jrel (static cx evm) (cx_ext cx) s (db evm')"
    "depth evm' = depth evm \<and> readOnly evm' = readOnly evm \<and> abort evm' = abort evm"
    "err \<noteq> None \<Longrightarrow> world (cx_ext cx) (db evm') = world (cx_ext cx) s"
proof -
  obtain ret2 err2 c2 evm2 where 2: "evm_run cx R evm c inp = Ok (ret2, err2, c2, evm2)"
      "settle cx i (ret2, err2, c2, evm2) = Ok (ret, g, err, jd, evm')"
    using r by (auto elim!: bind_res_OkE)
  have e: "evm_rel cx evm evm2" by (rule evm_run_rel [OF R jrel_ok [OF j] 2(1) v])
  then have "jrel (static cx evm) (cx_ext cx) s1 (db evm2)"
    using jrel_trans [OF j] by (simp add: evm_rel_def)
  note settle = settle_rel [OF s this 2(2)]
  show "jrel (static cx evm) (cx_ext cx) s (db evm')" by (rule settle)
  have "depth evm' = depth evm2 \<and> readOnly evm' = readOnly evm2 \<and> abort evm' = abort evm2"
    using settle(2) by (cases evm'; cases evm2) simp
  then show "depth evm' = depth evm \<and> readOnly evm' = readOnly evm \<and> abort evm' = abort evm"
    using e by (simp add: evm_rel_def)
  show "err \<noteq> None \<Longrightarrow> world (cx_ext cx) (db evm') = world (cx_ext cx) s"
    using settle(3,4) by simp
qed

lemma loadCode_jrel: "db_ok X s \<Longrightarrow> loadCode X s a c = (c', s') \<Longrightarrow> jrel ro X s s'"
  using jrel_get(7) [of X s a _ _ ro] jrel_get(5) [of X _ a _ _ ro]
  by (auto simp: loadCode_def split: prod.splits) (metis jrel_trans jrel_ok)

lemma loadCode_value: "loadCode X s a c = (c', s') \<Longrightarrow> c_value c' = c_value c"
  by (auto simp: loadCode_def SetCallCode_def split: prod.splits)

lemma CanTransfer_bal: "db_ok X s \<Longrightarrow> CanTransfer X s a n = (e, s') \<Longrightarrow> e \<longleftrightarrow> n \<le> bal X s a"
  using GetBalance_spec [OF db_okD(2), of X s a] by (auto simp: CanTransfer_def bal_def split: prod.splits)

lemma jrel_get_world:
  assumes "db_ok X s"
  shows "Exist X s a = (e, s') \<Longrightarrow> world X s' = world X s" "GetNonce X s a = (n, s') \<Longrightarrow> world X s' = world X s"
    "GetCodeHash X s a = (h, s') \<Longrightarrow> world X s' = world X s"
  using Exist_spec [OF db_okD(2) [OF assms], of a] GetNonce_spec [OF db_okD(2) [OF assms], of a]
    GetCodeHash_spec [OF db_okD(2) [OF assms], of a] by (simp_all add: quiet_def)

lemma bal_world: "world X s' = world X s \<Longrightarrow> bal X s' = bal X s"
  by (simp add: bal_def fun_eq_iff)

lemma CanTransfer_world: "db_ok X s \<Longrightarrow> CanTransfer X s a n = (e, s') \<Longrightarrow> world X s' = world X s"
  using GetBalance_spec [OF db_okD(2), of X s a] by (auto simp: CanTransfer_def quiet_def split: prod.splits)

definition call_ok :: "Ctx \<Rightarrow> EVM \<Rightarrow> vmerr option \<Rightarrow> EVM \<Rightarrow> bool" where
  "call_ok cx evm err evm' \<longleftrightarrow> evm_rel cx evm evm' \<and>
     (err \<noteq> None \<longrightarrow> world (cx_ext cx) (db evm') = world (cx_ext cx) (db evm))"

lemma Call_ok:
  assumes R: "runner_rel cx R" and ok: "evm_ok cx evm" and v: "static cx evm \<longrightarrow> value = 0" and v0: "0 \<le> value"
    and c: "Call cx R evm caller addr inp gas value = Ok (ret, g, err, jd, evm')"
  shows "call_ok cx evm err evm'"
proof -
  let ?X = "cx_ext cx" and ?ro = "static cx evm"
  obtain can s0 where can: "CanTransfer ?X (db evm) (refAddress caller) value = (can, s0)" by fastforce
  obtain i s1 where i: "Snapshot s0 = (i, s1)" by fastforce
  obtain ex s2 where ex: "Exist ?X s1 addr = (ex, s2)" by fastforce
  define s3 where "s3 = (if \<not> ex then CreateAccount ?X s2 addr else s2)"
  define s4 where "s4 = Transfer ?X s3 (refAddress caller) addr value"
  obtain ct s5 where ct: "loadCode ?X s4 addr (NewContract caller addr value gas) = (ct, s5)" by fastforce
  have j0: "jrel ?ro ?X (db evm) s0" and w0: "world ?X s0 = world ?X (db evm)"
    using jrel_get(10) [OF ok can] CanTransfer_world [OF ok can] by simp_all
  have j1: "jrel ?ro ?X s0 s1" by (rule jrel_Snapshot [OF jrel_ok [OF j0] i])
  have w1: "world ?X s1 = world ?X s0" by (rule Snapshot_sees [OF jrel_ok [OF j0] i])
  have j2: "jrel ?ro ?X s1 s2" by (rule jrel_get(1) [OF jrel_ok [OF j1] ex])
  have r: "call_ok cx evm err' (evm\<lparr>db := s0\<rparr>)" "call_ok cx evm None (evm\<lparr>db := s2\<rparr>)"
      "call_ok cx evm err' evm" for err'
    using j0 w0 jrel_trans [OF j0 jrel_trans [OF j1 j2]] jrel_refl [OF ok]
    by (simp_all add: call_ok_def evm_rel_def)
  show ?thesis
  proof (cases "can \<and> bind_res (evm_run cx R (evm\<lparr>db := s5\<rparr>) ct inp) (settle cx i) = Ok (ret, g, err, jd, evm')")
    case True
    have q2: "ex = (w_acct (world ?X s2) addr \<noteq> None)"
      using Exist_spec [OF db_okD(2) [OF jrel_ok [OF j1]], of addr] ex by (simp add: quiet_def)
    have j3: "jrel ?ro ?X s2 s3"
      unfolding s3_def using jrel_refl [OF jrel_ok [OF j2]] jrel_CreateAccount [OF jrel_ok [OF j2]] q2 by simp
    have "bal ?X s3 = bal ?X s2"
      by (simp add: s3_def fun_eq_iff bal_write [OF db_okD(2) [OF jrel_ok [OF j2]]])
    also have "bal ?X s2 = bal ?X (db evm)"
      using jrel_get_world(1) [OF jrel_ok [OF j1] ex] w1 w0 by (intro bal_world) simp
    finally have "value \<le> bal ?X s3 (refAddress caller)" using CanTransfer_bal [OF ok can] True by simp
    then have j4: "jrel ?ro ?X s3 s4" unfolding s4_def by (rule jrel_Transfer [OF jrel_ok [OF j3] v0 _ v])
    have j5: "jrel ?ro ?X s4 s5" by (rule loadCode_jrel [OF jrel_ok [OF j4] ct])
    have j15: "jrel ?ro ?X s1 s5"
      by (rule jrel_trans [OF j2 jrel_trans [OF j3 jrel_trans [OF j4 j5]]])
    have cv: "0 \<le> c_value ct" using loadCode_value [OF ct] v0 by (simp add: NewContract_def)
    have rr: "bind_res (evm_run cx R (evm\<lparr>db := s5\<rparr>) ct inp) (settle cx i) = Ok (ret, g, err, jd, evm')"
      using True by simp
    from run_settle_rel [OF R jrel_ok [OF j0] i _ cv rr] j15 jrel_trans [OF j0] w0
    show ?thesis by (simp add: call_ok_def evm_rel_def)
  next
    case False
    then show ?thesis
      using c r can i ex ct
      by (auto simp: Call_def Let_def s3_def [symmetric] s4_def [symmetric] split: if_splits)
  qed
qed

lemma call_ok_db:
  "jrel (static cx evm) (cx_ext cx) (db evm) s \<Longrightarrow> world (cx_ext cx) s = world (cx_ext cx) (db evm) \<Longrightarrow>
    call_ok cx evm err (evm\<lparr>db := s\<rparr>)"
  by (simp add: call_ok_def evm_rel_def)

lemma call_ok_refl: "evm_ok cx evm \<Longrightarrow> call_ok cx evm err evm"
  by (simp add: call_ok_def evm_rel_refl)

lemma CallCode_ok:
  assumes R: "runner_rel cx R" and ok: "evm_ok cx evm" and v0: "0 \<le> value"
    and c: "CallCode cx R evm caller addr inp gas value = Ok (ret, g, err, jd, evm')"
  shows "call_ok cx evm err evm'"
proof -
  let ?X = "cx_ext cx" and ?ro = "static cx evm"
  obtain can s0 where can: "CanTransfer ?X (db evm) (refAddress caller) value = (can, s0)" by fastforce
  obtain i s1 where i: "Snapshot s0 = (i, s1)" by fastforce
  obtain ct s2 where ct: "loadCode ?X s1 addr (NewContract caller (refAddress caller) value gas) = (ct, s2)"
    by fastforce
  have j0: "jrel ?ro ?X (db evm) s0" and w0: "world ?X s0 = world ?X (db evm)"
    using jrel_get(10) [OF ok can] CanTransfer_world [OF ok can] by simp_all
  have j2: "jrel ?ro ?X s1 s2" by (rule loadCode_jrel [OF jrel_ok [OF jrel_Snapshot [OF jrel_ok [OF j0] i]] ct])
  note r = call_ok_db [OF j0 w0] call_ok_refl [OF ok]
  show ?thesis
  proof (cases "bind_res (evm_run cx R (evm\<lparr>db := s2\<rparr>) ct inp) (settle cx i) = Ok (ret, g, err, jd, evm')")
    case True
    have cv: "0 \<le> c_value ct" using loadCode_value [OF ct] v0 by (simp add: NewContract_def)
    from run_settle_rel [OF R jrel_ok [OF j0] i _ cv True] j2 jrel_trans [OF j0] w0
    show ?thesis by (simp add: call_ok_def evm_rel_def)
  next
    case False
    then show ?thesis using c r can i ct by (auto simp: CallCode_def Let_def split: if_splits)
  qed
qed

fun refValue_ok :: "ContractRef \<Rightarrow> bool" where
  "refValue_ok (AccountRef a) = True"
| "refValue_ok (ContractPtr c) = (0 \<le> c_value c)"

lemma DelegateCall_ok:
  assumes R: "runner_rel cx R" and ok: "evm_ok cx evm" and v: "refValue_ok caller"
    and c: "DelegateCall cx R evm caller addr inp gas = Ok (ret, g, err, jd, evm')"
  shows "call_ok cx evm err evm'"
proof -
  let ?X = "cx_ext cx" and ?ro = "static cx evm"
  obtain i s1 where i: "Snapshot (db evm) = (i, s1)" by fastforce
  show ?thesis
  proof (cases "NoRecursion cx \<and> depth evm > 0 \<or> depth evm > CallCreateDepth")
    case True
    then have "evm' = evm" using c by (auto simp: DelegateCall_def Let_def split: if_splits)
    then show ?thesis using call_ok_refl [OF ok] by simp
  next
    case False
    then obtain c0 ct s2 where c0: "AsDelegate caller (NewContract caller (refAddress caller) 0 gas) = Ok c0"
      and ct: "loadCode ?X s1 addr c0 = (ct, s2)"
      and r: "bind_res (evm_run cx R (evm\<lparr>db := s2\<rparr>) ct inp) (settle cx i) = Ok (ret, g, err, jd, evm')"
      using c i by (auto simp: DelegateCall_def Let_def split: prod.splits elim!: bind_res_OkE)
    have j2: "jrel ?ro ?X s1 s2" by (rule loadCode_jrel [OF jrel_ok [OF jrel_Snapshot [OF ok i]] ct])
    have "0 \<le> c_value c0" using c0 v by (cases caller) auto
    then have cv: "0 \<le> c_value ct" using loadCode_value [OF ct] by simp
    from run_settle_rel [OF R ok i _ cv r] j2 show ?thesis by (simp add: call_ok_def evm_rel_def)
  qed
qed

lemma jrel_mono: "jrel ro X s t \<Longrightarrow> (ro' \<Longrightarrow> ro) \<Longrightarrow> jrel ro' X s t"
  by (auto simp: jrel_def)

lemma jrel_False: "jrel ro X s t \<Longrightarrow> jrel False X s t"
  by (simp add: jrel_def)

lemma jrel_not_ro: "jrel False X s t \<Longrightarrow> \<not> ro \<Longrightarrow> jrel ro X s t"
  by (simp add: jrel_def)

lemma StaticCall_body:
  assumes R: "runner_rel cx R" and ok: "evm_ok cx evm"
    and c: "StaticCall cx R evm caller addr inp gas = Ok (ret, g, err, jd, evm')"
  shows "jrel (cxByzantium cx) (cx_ext cx) (db evm) (db evm')"
    "depth evm' = depth evm \<and> readOnly evm' = readOnly evm \<and> abort evm' = abort evm"
    "err \<noteq> None \<Longrightarrow> world (cx_ext cx) (db evm') = world (cx_ext cx) (db evm)"
proof -
  let ?X = "cx_ext cx"
  obtain i s1 where i: "Snapshot (db evm) = (i, s1)" by fastforce
  have "jrel (cxByzantium cx) ?X (db evm) (db evm') \<and>
    (depth evm' = depth evm \<and> readOnly evm' = readOnly evm \<and> abort evm' = abort evm) \<and>
    (err \<noteq> None \<longrightarrow> world ?X (db evm') = world ?X (db evm))"
  proof (cases "NoRecursion cx \<and> depth evm > 0 \<or> depth evm > CallCreateDepth")
    case True
    then have "evm' = evm" using c by (auto simp: StaticCall_def Let_def split: if_splits)
    then show ?thesis using jrel_refl [OF ok] by simp
  next
    case False
    obtain ct s2 where ct: "loadCode ?X s1 addr (NewContract caller addr 0 gas) = (ct, s2)" by fastforce
    let ?body = "bind_res (evm_run cx R (evm\<lparr>db := s2, readOnly := True\<rparr>) ct inp) (settle cx i)"
    have "(if readOnly evm then ?body else clearReadOnly ?body) = Ok (ret, g, err, jd, evm')"
      using c False i ct unfolding StaticCall_def Let_def by (simp only: prod.case if_False de_Morgan_disj)
    then obtain evm2 where r: "?body = Ok (ret, g, err, jd, evm2)"
      and e: "evm' = (if readOnly evm then evm2 else evm2\<lparr>readOnly := False\<rparr>)"
      by (cases ?body) (auto simp: clearReadOnly_def split: if_splits)
    have "jrel (cxByzantium cx) ?X s1 s2" by (rule loadCode_jrel [OF jrel_ok [OF jrel_Snapshot [OF ok i]] ct])
    moreover have "0 \<le> c_value ct" using loadCode_value [OF ct] by (simp add: NewContract_def)
    ultimately show ?thesis using run_settle_rel [OF R ok i _ _ r] e by (simp split: if_splits)
  qed
  then show "jrel (cxByzantium cx) (cx_ext cx) (db evm) (db evm')"
    "depth evm' = depth evm \<and> readOnly evm' = readOnly evm \<and> abort evm' = abort evm"
    "err \<noteq> None \<Longrightarrow> world (cx_ext cx) (db evm') = world (cx_ext cx) (db evm)"
    by blast+
qed

lemma StaticCall_ok:
  assumes "runner_rel cx R" "evm_ok cx evm"
    and "StaticCall cx R evm caller addr inp gas = Ok (ret, g, err, jd, evm')"
  shows "call_ok cx evm err evm'"
  using StaticCall_body [OF assms] jrel_mono [of "cxByzantium cx" "cx_ext cx" "db evm" "db evm'"]
  by (simp add: call_ok_def evm_rel_def)

text \<open>
  Contract creation is never run in read-only mode. What is kept of a failed creation is the nonce of
  the creator.
\<close>

lemma settleCreate_rel:
  assumes "db_ok (cx_ext cx) s" "Snapshot s = (i, s1)" "jrel False (cx_ext cx) s1 (db evm2)"
    and "settleCreate cx i a (ret, err, c, evm2) = Ok (ret', a', g, err', jd, evm3)"
  shows "jrel False (cx_ext cx) s (db evm3) \<and> evm3 = evm2\<lparr>db := db evm3\<rparr>"
proof -
  let ?X = "cx_ext cx"
  have ss: "jrel False ?X s s1" by (rule jrel_Snapshot [OF assms(1,2)])
  have w: "jrel False ?X s1 (SetCode ?X (db evm2) a ret)"
    by (rule jrel_trans [OF assms(3) jrel_writers(2) [OF jrel_ok [OF assms(3)]]]) simp
  have rv: "jrel False ?X s s3" if "RevertToSnapshot ?X t i = Ok s3" "jrel False ?X s1 t" for s3 t
    by (rule jrel_revert(1) [OF assms(1,2) that(2,1)])
  from assms(4) show ?thesis
    using jrel_trans [OF ss assms(3)] jrel_trans [OF ss w] rv [OF _ w] rv [OF _ assms(3)]
    by (auto simp: settleCreate_def Let_def split: if_splits prod.splits bool.splits elim!: bind_res_OkE)
qed

lemma Create_rel:
  assumes R: "runner_rel cx R" and ok: "evm_ok cx evm" and st: "\<not> static cx evm" and v0: "0 \<le> value"
    and c: "Create cx R evm caller code gas value = Ok (ret, a, g, err, jd, evm')"
  shows "evm_rel cx evm evm'"
proof -
  let ?X = "cx_ext cx" and ?self = "refAddress caller"
  obtain can s0 where can: "CanTransfer ?X (db evm) ?self value = (can, s0)" by fastforce
  obtain n s1 where n: "GetNonce ?X s0 ?self = (n, s1)" by fastforce
  define s2 where "s2 = SetNonce ?X s1 ?self (n + 1)"
  define addr where "addr = CreateAddress ?X ?self n"
  obtain h s3 where h: "GetCodeHash ?X s2 addr = (h, s3)" by fastforce
  obtain n' s4 where n': "GetNonce ?X s3 addr = (n', s4)" by fastforce
  obtain i s5 where i: "Snapshot s4 = (i, s5)" by fastforce
  define s6 where "s6 = CreateAccount ?X s5 addr"
  define s7 where "s7 = (if cxEIP158 cx then SetNonce ?X s6 addr 1 else s6)"
  define s8 where "s8 = Transfer ?X s7 ?self addr value"
  let ?c = "SetCallCode (NewContract caller addr value gas) addr (Keccak256 ?X code) code"
  have j0: "jrel False ?X (db evm) s0" by (rule jrel_get(10) [OF ok can])
  have j1: "jrel False ?X s0 s1" by (rule jrel_get(4) [OF jrel_ok [OF j0] n])
  have j2: "jrel False ?X s1 s2" unfolding s2_def by (rule jrel_writers(1) [OF jrel_ok [OF j1]]) simp
  have j3: "jrel False ?X s2 s3" by (rule jrel_get(7) [OF jrel_ok [OF j2] h])
  have j4: "jrel False ?X s3 s4" by (rule jrel_get(4) [OF jrel_ok [OF j3] n'])
  have j04: "jrel False ?X (db evm) s4"
    by (rule jrel_trans [OF j0 jrel_trans [OF j1 jrel_trans [OF j2 jrel_trans [OF j3 j4]]]])
  have j5: "jrel False ?X s4 s5" by (rule jrel_Snapshot [OF jrel_ok [OF j4] i])
  have j6: "jrel False ?X s5 s6" unfolding s6_def by (rule jrel_writers(4) [OF jrel_ok [OF j5]]) simp
  have j7: "jrel False ?X s6 s7"
    unfolding s7_def using jrel_writers(1) [OF jrel_ok [OF j6], where ro = False] jrel_refl [OF jrel_ok [OF j6]] by simp
  have "world ?X s0 = world ?X (db evm)" by (rule CanTransfer_world [OF ok can])
  moreover have "world ?X s1 = world ?X s0" by (rule jrel_get_world(2) [OF jrel_ok [OF j0] n])
  moreover have "bal ?X s2 = bal ?X s1"
    by (simp add: s2_def fun_eq_iff bal_write [OF db_okD(2) [OF jrel_ok [OF j1]]])
  moreover have "world ?X s3 = world ?X s2" by (rule jrel_get_world(3) [OF jrel_ok [OF j2] h])
  moreover have "world ?X s4 = world ?X s3" by (rule jrel_get_world(2) [OF jrel_ok [OF j3] n'])
  moreover have "world ?X s5 = world ?X s4" by (rule Snapshot_sees [OF jrel_ok [OF j4] i])
  moreover have "bal ?X s6 = bal ?X s5"
    by (simp add: s6_def fun_eq_iff bal_write [OF db_okD(2) [OF jrel_ok [OF j5]]])
  moreover have "bal ?X s7 = bal ?X s6"
    by (simp add: s7_def fun_eq_iff bal_write [OF db_okD(2) [OF jrel_ok [OF j6]]])
  ultimately have "bal ?X s7 = bal ?X (db evm)" by (metis bal_world)
  then have le: "can \<Longrightarrow> value \<le> bal ?X s7 ?self" using CanTransfer_bal [OF ok can] by simp
  have j8: "jrel False ?X s7 s8" if can
    unfolding s8_def by (rule jrel_Transfer [OF jrel_ok [OF j7] v0 le [OF that]]) simp
  have j58: "jrel False ?X s5 s8" if can by (rule jrel_trans [OF j6 jrel_trans [OF j7 j8 [OF that]]])
  have r: "evm_rel cx evm (evm\<lparr>db := s\<rparr>)" if "jrel False ?X (db evm) s" for s
    by (rule evm_rel_db [OF jrel_not_ro [OF that st]])
  show ?thesis
  proof (cases "can \<and> bind_res (evm_run cx R (evm\<lparr>db := s8\<rparr>) ?c []) (settleCreate cx i addr) =
      Ok (ret, a, g, err, jd, evm')")
    case True
    then have c1: can by simp
    from True obtain ret2 err2 c2 evm2 where
      2: "evm_run cx R (evm\<lparr>db := s8\<rparr>) ?c [] = Ok (ret2, err2, c2, evm2)"
      "settleCreate cx i addr (ret2, err2, c2, evm2) = Ok (ret, a, g, err, jd, evm')"
      by (auto elim!: bind_res_OkE)
    have e: "evm_rel cx (evm\<lparr>db := s8\<rparr>) evm2"
      by (rule evm_run_rel [OF R _ 2(1)]) (simp_all add: jrel_ok [OF j8 [OF c1]] SetCallCode_def NewContract_def v0)
    then have "jrel False ?X s8 (db evm2)" by (auto simp: evm_rel_def intro: jrel_False)
    then have "jrel False ?X s5 (db evm2)" by (rule jrel_trans [OF j58 [OF c1]])
    from settleCreate_rel [OF jrel_ok [OF j4] i this 2(2)] have
      "jrel False ?X s4 (db evm')" "evm' = evm2\<lparr>db := db evm'\<rparr>" by simp_all
    with e jrel_not_ro [OF jrel_trans [OF j04] st] show ?thesis
      by (cases evm'; cases evm2) (simp add: evm_rel_def)
  next
    case False
    moreover have "Create cx R evm caller code gas value =
      (if depth evm > CallCreateDepth then Ok ([], zeroAddress ?X, gas, Some ErrDepth, refJumpdests caller, evm)
       else if \<not> can
       then Ok ([], zeroAddress ?X, gas, Some ErrInsufficientBalance, refJumpdests caller, evm\<lparr>db := s0\<rparr>)
       else if n' \<noteq> 0 \<or> (h \<noteq> zeroHash \<and> h \<noteq> emptyCodeHash ?X)
       then Ok ([], zeroAddress ?X, 0, Some ErrContractAddressCollision, refJumpdests caller, evm\<lparr>db := s4\<rparr>)
       else if NoRecursion cx \<and> depth evm > 0
       then Ok ([], addr, gas, None, refJumpdests caller, evm\<lparr>db := s8\<rparr>)
       else bind_res (evm_run cx R (evm\<lparr>db := s8\<rparr>) ?c []) (settleCreate cx i addr))"
      using can n h n' i unfolding s8_def s7_def s6_def s2_def addr_def
      by (simp add: Create_def Let_def)
    ultimately show ?thesis
      using c r [OF j0] r [OF j04] r [OF jrel_trans [OF j04 jrel_trans [OF j5 j58]]] evm_rel_refl [OF ok]
      by (cases can) (auto split: if_splits)
  qed
qed

end
