(* ===== verification/EvmOps.thy ===== *)
theory EvmOps
  imports EvmFrame
begin

text \<open>
  Contracts of the instructions that call no interpreter and of all gas functions: they keep the
  relation of \<open>EvmFrame\<close> and the well-formedness of the machine, they leave the gas of the contract
  alone, they never report missing fuel, and the fees of operations that do not end the run are
  positive.
\<close>

section \<open>Results that are never \<open>NoFuel\<close>\<close>

lemma slc_nofuel [simp]: "slc xs i j \<noteq> NoFuel"
  by (simp add: slc_def)

lemma Back_nofuel [simp]: "Back st i \<noteq> NoFuel"
  by (simp add: Back_def)

lemma mem_nofuel [simp]: "GetPtr mem i n \<noteq> NoFuel" "mem_Get mem i n \<noteq> NoFuel" "mem_Set mem j k d \<noteq> NoFuel"
proof -
  show *: "GetPtr mem i n \<noteq> NoFuel" by (simp add: GetPtr_def Let_def)
  show "mem_Get mem i n \<noteq> NoFuel" using * by (simp add: mem_Get_def res_simps)
  show "mem_Set mem j k d \<noteq> NoFuel" by (simp add: mem_Set_def Let_def)
qed

lemma getData_nofuel [simp]: "getData d s n \<noteq> NoFuel" "getDataBig d i l \<noteq> NoFuel"
  by (simp_all add: getData_def getDataBig_def Let_def res_simps)

lemma destinations_has_nofuel [simp]: "destinations_has d h c p \<noteq> NoFuel"
  by (auto simp: destinations_has_def codeSegment_def Let_def res_simps split: prod.splits if_splits)

lemma memRegion_nofuel [simp]: "memRegion i j st \<noteq> NoFuel" "memRegions i j i' j' st \<noteq> NoFuel"
proof -
  show *: "memRegion i j st \<noteq> NoFuel" for i j by (simp add: memRegion_def res_simps)
  show "memRegions i j i' j' st \<noteq> NoFuel" by (simp add: memRegions_def res_simps *)
qed

lemma RunPrecompiledContract_nofuel [simp]: "RunPrecompiledContract cx p inp c \<noteq> NoFuel"
proof -
  have b: "bigData d s n \<noteq> NoFuel" for d s n by (simp add: bigData_def res_simps)
  have h: "modExpExpHead d x y \<noteq> NoFuel" for d x y by (simp add: modExpExpHead_def b)
  have "bigModExpGas inp \<noteq> NoFuel" by (simp add: bigModExpGas_def Let_def res_simps b h)
  then have g: "RequiredGas p inp \<noteq> NoFuel" by (cases p) simp_all
  have m: "bigModExpRun inp \<noteq> NoFuel" by (auto simp: bigModExpRun_def Let_def res_simps b split: if_splits)
  have "ecrecoverRun cx inp \<noteq> NoFuel"
    by (auto simp: ecrecoverRun_def Let_def res_simps split: if_splits option.splits)
  with m have "precompileRun cx p inp \<noteq> NoFuel" by (cases p) (simp_all add: res_simps split_beta)
  with g show ?thesis
    by (auto simp: RunPrecompiledContract_def res_simps split: prod.splits bool.splits)
qed

section \<open>Instructions that call no interpreter\<close>

text \<open>
  Items of the stack and the value of a contract are never negative. A machine is well-formed when
  that holds and its database is; \<open>mach_rel\<close> is what an instruction keeps of it.
\<close>

abbreviation stack_ok :: "int list \<Rightarrow> bool" where
  "stack_ok st \<equiv> \<forall>x \<in> set st. 0 \<le> x"

definition mach_ok :: "Ctx \<Rightarrow> Machine \<Rightarrow> bool" where
  "mach_ok cx m \<longleftrightarrow> evm_ok cx (m_evm m) \<and> 0 \<le> GasPrice cx \<and> 0 \<le> c_value (m_contract m) \<and> stack_ok (m_stack m)"

definition mach_rel :: "Ctx \<Rightarrow> Machine \<Rightarrow> Machine \<Rightarrow> bool" where
  "mach_rel cx m m' \<longleftrightarrow> evm_rel cx (m_evm m) (m_evm m') \<and> c_value (m_contract m') = c_value (m_contract m) \<and>
     stack_ok (m_stack m')"

lemma mach_rel_ok: "mach_ok cx m \<Longrightarrow> mach_rel cx m m' \<Longrightarrow> mach_ok cx m'"
  using evm_rel_ok [of cx "m_evm m" "m_evm m'"] by (simp add: mach_ok_def mach_rel_def)

lemma mach_rel_trans: "mach_rel cx m m1 \<Longrightarrow> mach_rel cx m1 m2 \<Longrightarrow> mach_rel cx m m2"
  using evm_rel_trans [of cx "m_evm m" "m_evm m1" "m_evm m2"] by (simp add: mach_rel_def)

lemma mach_rel_refl: "mach_ok cx m \<Longrightarrow> mach_rel cx m m"
  by (simp add: mach_ok_def mach_rel_def evm_rel_refl)

text \<open>\<open>w\<close> marks the instructions that read-only mode forbids.\<close>

definition exec_plain :: "bool \<Rightarrow> executionFunc \<Rightarrow> bool" where
  "exec_plain w ex \<longleftrightarrow> (\<forall>cx R m. ex cx R m \<noteq> NoFuel \<and>
     (\<forall>res err m'. ex cx R m = Ok (res, err, m') \<longrightarrow> m_Gas m' = m_Gas m \<and>
       (mach_ok cx m \<longrightarrow> (w \<longrightarrow> \<not> static cx (m_evm m)) \<longrightarrow> mach_rel cx m m')))"

named_theorems exec_contracts \<open>contracts of the instructions\<close>

lemma exec_localI:
  assumes "\<And>cx R m. ex cx R m \<noteq> NoFuel"
    and "\<And>cx R m res err m'. ex cx R m = Ok (res, err, m') \<Longrightarrow>
      m_evm m' = m_evm m \<and> m_Gas m' = m_Gas m \<and> c_value (m_contract m') = c_value (m_contract m)"
    and "\<And>cx R m res err m'. ex cx R m = Ok (res, err, m') \<Longrightarrow> 0 \<le> GasPrice cx \<Longrightarrow> 0 \<le> c_value (m_contract m) \<Longrightarrow>
      stack_ok (m_stack m) \<Longrightarrow> stack_ok (m_stack m')"
  shows "exec_plain w ex"
  unfolding exec_plain_def
proof (intro allI conjI impI)
  fix cx R m res err m'
  assume x: "ex cx R m = Ok (res, err, m')"
  note a = assms(2) [OF x]
  show "m_Gas m' = m_Gas m" using a by simp
  assume "mach_ok cx m"
  then show "mach_rel cx m m'"
    using a assms(3) [OF x] evm_rel_refl [of cx "m_evm m"] unfolding mach_ok_def mach_rel_def by metis
qed (rule assms(1))

lemma nonneg [simp]: "0 \<le> U256 x" "0 \<le> N_Big h" "0 \<le> Exp x y"
  by (simp_all add: U256_range N_Big_def Exp_range)

lemma nonneg_bits [simp]: "0 \<le> x \<Longrightarrow> 0 \<le> bigAnd x y" "0 \<le> x \<Longrightarrow> 0 \<le> y \<Longrightarrow> 0 \<le> bigOr x y"
  "0 \<le> x \<Longrightarrow> 0 \<le> y \<Longrightarrow> 0 \<le> bigXor x y"
  by (simp_all add: bigAnd_def bigOr_def bigXor_def)

lemma exec_shapes [exec_contracts]:
  "(\<And>cx m. 0 \<le> GasPrice cx \<Longrightarrow> 0 \<le> c_value (m_contract m) \<Longrightarrow> 0 \<le> v cx m) \<Longrightarrow> exec_plain w (pushOp v)"
  "(\<And>x. 0 \<le> x \<Longrightarrow> 0 \<le> f x) \<Longrightarrow> exec_plain w (unOp f)"
  "(\<And>x y. 0 \<le> x \<Longrightarrow> 0 \<le> y \<Longrightarrow> 0 \<le> g x y) \<Longrightarrow> exec_plain w (binOp g)"
  "(\<And>x y z. 0 \<le> x \<Longrightarrow> 0 \<le> y \<Longrightarrow> 0 \<le> z \<Longrightarrow> 0 \<le> h x y z) \<Longrightarrow> exec_plain w (triOp h)"
  by (rule exec_localI; auto simp: pushOp_def unOp_def binOp_def triOp_def split: list.splits)+

lemmas pushOps = opAddress_def opOrigin_def opCaller_def opCallValue_def opCallDataSize_def
  opReturnDataSize_def opCodeSize_def opGasprice_def opCoinbase_def opTimestamp_def opNumber_def
  opDifficulty_def opGasLimit_def opPc_def opMsize_def opGas_def

lemmas arithOps = opAdd_def opSub_def opMul_def opDiv_def opSdiv_def opMod_def opSmod_def opExp_def
  opNot_def opLt_def opGt_def opSlt_def opSgt_def opEq_def opIszero_def opAnd_def opOr_def opXor_def
  opByte_def opAddmod_def opMulmod_def

lemma exec_stack [exec_contracts]:
  "exec_plain w opSignExtend" "exec_plain w opBlockhash" "exec_plain w opPop" "exec_plain w opJumpdest"
  "exec_plain w opStop" "exec_plain w (makePush n z)" "exec_plain w (makeDup k)"
  by (rule exec_localI; auto simp: opSignExtend_def signExtend_def opBlockhash_def opPop_def opJumpdest_def
      opStop_def makePush_def makeDup_def Let_def res_simps split: list.splits if_splits)+

lemma exec_Swap [exec_contracts]: "exec_plain w (makeSwap k)"
proof (rule exec_localI)
  fix cx R m res err m'
  assume x: "makeSwap k cx R m = Ok (res, err, m')" and ok: "stack_ok (m_stack m)"
  then have k: "k < length (m_stack m)" and m': "m_stack m' = (m_stack m)[0 := m_stack m ! k, k := m_stack m ! 0]"
    by (auto simp: makeSwap_def Let_def split: if_splits)
  have "0 < length (m_stack m)" using k by linarith
  from set_swap [OF this k] ok show "stack_ok (m_stack m')" by (simp add: m')
qed (auto simp: makeSwap_def Let_def split: if_splits)

lemma exec_memory [exec_contracts]:
  "exec_plain w opCallDataLoad" "exec_plain w opCallDataCopy" "exec_plain w opReturnDataCopy"
  "exec_plain w opCodeCopy" "exec_plain w opMload" "exec_plain w opMstore" "exec_plain w opMstore8"
  "exec_plain w opReturn" "exec_plain w opRevert"
  by (rule exec_localI; auto simp: opCallDataLoad_def opCallDataCopy_def opReturnDataCopy_def opCodeCopy_def
      opMload_def opMstore_def opMstore8_def opReturn_def opRevert_def copyData_def Let_def res_simps
      split: list.splits if_splits)+

lemma exec_jumps [exec_contracts]: "exec_plain w opJump" "exec_plain w opJumpi"
  by (rule exec_localI; auto simp: opJump_def opJumpi_def jumpTo_def Let_def res_simps
      split: list.splits if_splits prod.splits)+

text \<open>Instructions that read or write the database.\<close>

lemma exec_dbI:
  assumes "\<And>cx R m. ex cx R m \<noteq> NoFuel"
    and "\<And>cx R m res err m'. ex cx R m = Ok (res, err, m') \<Longrightarrow> m_contract m' = m_contract m"
    and "\<And>cx R m res err m'. ex cx R m = Ok (res, err, m') \<Longrightarrow> db_ok (cx_ext cx) (m_db m) \<Longrightarrow>
      w \<longrightarrow> \<not> static cx (m_evm m) \<Longrightarrow> stack_ok (m_stack m) \<Longrightarrow> stack_ok (m_stack m') \<and>
      (\<exists>s. m_evm m' = (m_evm m)\<lparr>db := s\<rparr> \<and> jrel (static cx (m_evm m)) (cx_ext cx) (m_db m) s)"
  shows "exec_plain w ex"
  unfolding exec_plain_def
proof (intro allI conjI impI)
  fix cx R m res err m'
  assume x: "ex cx R m = Ok (res, err, m')"
  show "m_Gas m' = m_Gas m" using assms(2) [OF x] by simp
  assume "mach_ok cx m" "w \<longrightarrow> \<not> static cx (m_evm m)"
  then obtain s where "stack_ok (m_stack m')" "m_evm m' = (m_evm m)\<lparr>db := s\<rparr>"
    "jrel (static cx (m_evm m)) (cx_ext cx) (m_db m) s"
    using assms(3) [OF x] unfolding mach_ok_def by blast
  then show "mach_rel cx m m'"
    using assms(2) [OF x] evm_rel_db [of cx "m_evm m" s] by (simp add: mach_rel_def)
qed (rule assms(1))

lemma read_nonneg:
  "db_ok X s \<Longrightarrow> GetBalance X s a = (b, s') \<Longrightarrow> b = bal X s a" "db_ok X s \<Longrightarrow> 0 \<le> bal X s a"
  "GetCodeSize X s a = (n, s') \<Longrightarrow> 0 \<le> n"
proof -
  show "db_ok X s \<Longrightarrow> GetBalance X s a = (b, s') \<Longrightarrow> b = bal X s a"
    using GetBalance_spec [OF db_okD(2), of X s a] by (simp add: bal_def)
  show "db_ok X s \<Longrightarrow> 0 \<le> bal X s a" using db_okD(3) [of X s] by (simp add: sane_def)
  show "GetCodeSize X s a = (n, s') \<Longrightarrow> 0 \<le> n"
    by (auto simp: GetCodeSize_def ContractCodeSize_def Let_def split: prod.splits option.splits if_splits)
qed

lemma exec_reads [exec_contracts]:
  "exec_plain w opBalance" "exec_plain w opExtCodeSize" "exec_plain w opSload" "exec_plain w opExtCodeCopy"
  by (rule exec_dbI; auto simp: opBalance_def opExtCodeSize_def opSload_def opExtCodeCopy_def copyData_def
      res_simps read_nonneg intro: jrel_get dest: read_nonneg split: list.splits prod.splits)+

lemma exec_Sha3 [exec_contracts]: "exec_plain w opSha3"
proof (rule exec_dbI)
  fix cx R m res err m'
  assume *: "opSha3 cx R m = Ok (res, err, m')" and ok: "db_ok (cx_ext cx) (m_db m)" and "stack_ok (m_stack m)"
  then show "stack_ok (m_stack m') \<and>
      (\<exists>s. m_evm m' = (m_evm m)\<lparr>db := s\<rparr> \<and> jrel (static cx (m_evm m)) (cx_ext cx) (m_db m) s)"
    using * jrel_AddPreimage [OF ok] jrel_refl [OF ok]
    by (auto simp: opSha3_def Let_def res_simps split: list.splits if_splits
        intro: exI [of _ "m_db m"])
qed (auto simp: opSha3_def Let_def res_simps split: list.splits if_splits)

lemma exec_Sstore [exec_contracts]: "exec_plain True opSstore"
  by (rule exec_dbI; auto simp: opSstore_def intro: jrel_writers(3) split: list.splits)

lemma exec_Log [exec_contracts]: "exec_plain True (makeLog n)"
  by (rule exec_dbI; auto simp: makeLog_def Let_def res_simps intro: jrel_writers(5) dest!: in_set_dropD
      split: list.splits if_splits)

lemma exec_Suicide [exec_contracts]: "exec_plain True opSuicide"
proof (rule exec_dbI)
  fix cx R m res err m'
  assume *: "opSuicide cx R m = Ok (res, err, m')" and ok: "db_ok (cx_ext cx) (m_db m)"
    and w: "True \<longrightarrow> \<not> static cx (m_evm m)" and st: "stack_ok (m_stack m)"
  let ?X = "cx_ext cx" and ?self = "c_self (m_contract m)"
  obtain b s1 where b: "GetBalance ?X (m_db m) ?self = (b, s1)" by fastforce
  obtain x st where x: "m_stack m = x # st" using * by (auto simp: opSuicide_def split: list.splits)
  let ?s2 = "AddBalance ?X s1 (cxAddress cx x) b"
  have j1: "jrel False ?X (m_db m) s1" by (rule jrel_get(3) [OF ok b])
  have "world ?X s1 = world ?X (m_db m)"
    using GetBalance_spec [OF db_okD(2) [OF ok], of ?self] b by (simp add: quiet_def)
  then have "b = bal ?X s1 ?self" using read_nonneg(1) [OF ok b] bal_world [of ?X s1] by simp
  then have j2: "jrel False ?X s1 (snd (Suicide ?X ?s2 ?self))"
    using jrel_Suicide [OF jrel_ok [OF j1], of False] by simp
  have "jrel (static cx (m_evm m)) ?X (m_db m) (snd (Suicide ?X ?s2 ?self))"
    by (rule jrel_not_ro [OF jrel_trans [OF j1 j2]]) (use w in blast)
  moreover have "m_evm m' = (m_evm m)\<lparr>db := snd (Suicide ?X ?s2 ?self)\<rparr>" "m_stack m' = st"
    using * b x by (auto simp: opSuicide_def Let_def)
  ultimately show "stack_ok (m_stack m') \<and>
      (\<exists>s. m_evm m' = (m_evm m)\<lparr>db := s\<rparr> \<and> jrel (static cx (m_evm m)) ?X (m_db m) s)"
    using st x by auto
qed (auto simp: opSuicide_def Let_def split: list.splits prod.splits)

section \<open>Gas functions\<close>

definition gas_plain :: "bool \<Rightarrow> gasFunc \<Rightarrow> bool" where
  "gas_plain w g \<longleftrightarrow> (\<forall>cx m ms. g cx m ms \<noteq> NoFuel \<and>
     (\<forall>r m'. g cx m ms = Ok (r, m') \<longrightarrow> m_contract m' = m_contract m \<and>
       length (m_stack m') = length (m_stack m) \<and> tl (m_stack m') = tl (m_stack m) \<and>
       (mach_ok cx m \<longrightarrow> (w \<longrightarrow> \<not> static cx (m_evm m)) \<longrightarrow> mach_rel cx m m')))"

definition gas_pos :: "gasFunc \<Rightarrow> bool" where
  "gas_pos g \<longleftrightarrow> (\<forall>cx m ms c m'. g cx m ms = Ok (Inr c, m') \<longrightarrow> 0 < c)"

named_theorems gas_contracts \<open>contracts of the gas functions\<close>

lemma gas_localI:
  assumes "\<And>cx m ms. g cx m ms \<noteq> NoFuel"
    and "\<And>cx m ms r m'. g cx m ms = Ok (r, m') \<Longrightarrow>
      m_evm m' = m_evm m \<and> m_contract m' = m_contract m \<and> m_stack m' = m_stack m"
  shows "gas_plain w g"
  unfolding gas_plain_def
proof (intro allI conjI impI)
  fix cx m ms r m'
  assume "g cx m ms = Ok (r, m')"
  from assms(2) [OF this]
  show "m_contract m' = m_contract m" "length (m_stack m') = length (m_stack m)" "tl (m_stack m') = tl (m_stack m)"
    "mach_ok cx m \<Longrightarrow> mach_rel cx m m'"
    by (simp_all add: mach_ok_def mach_rel_def evm_rel_refl)
qed (rule assms(1))

lemma withMemoryGas_frame: "withMemoryGas m ms k = (r, m') \<Longrightarrow> \<exists>mem. m' = m\<lparr>m_mem := mem\<rparr>"
  by (auto simp: withMemoryGas_def split: prod.splits)

lemma withMemoryGas_frame' [simp]:
  "m_evm (snd (withMemoryGas m ms k)) = m_evm m" "m_contract (snd (withMemoryGas m ms k)) = m_contract m"
  "m_stack (snd (withMemoryGas m ms k)) = m_stack m" "m_pc (snd (withMemoryGas m ms k)) = m_pc m"
  by (simp_all add: withMemoryGas_def split: prod.splits)

lemma withMemoryGas_Ok: "withMemoryGas m ms k = (r, m') \<Longrightarrow> m_evm m' = m_evm m \<and> m_contract m' = m_contract m
    \<and> m_stack m' = m_stack m"
  by (drule withMemoryGas_frame) auto

lemma gas_local [gas_contracts]:
  "gas_plain w (constGasFunc c)" "gas_plain w (gasWords b i p)"
  "gas_plain w (gasMemPlus b)" "gas_plain w gasBalance" "gas_plain w gasExtCodeSize" "gas_plain w gasSLoad"
  "gas_plain w gasExp" "gas_plain w gasReturn" "gas_plain w gasRevert" "gas_plain w gasPush"
  "gas_plain w gasSwap" "gas_plain w gasDup" "gas_plain w gasExtCodeCopy"
  by (rule gas_localI; auto simp: constGasFunc_def gasWords_def gasMemPlus_def gasBalance_def
      gasExtCodeSize_def gasSLoad_def gasExp_def gasReturn_def gasRevert_def gasPush_def gasSwap_def
      gasDup_def gasExtCodeCopy_def Let_def res_simps dest: withMemoryGas_Ok)+

lemma gas_Log [gas_contracts]: "gas_plain w (makeGasLog n)"
proof (rule gas_localI)
  fix cx :: Ctx and m m' :: Machine and ms r
  assume "makeGasLog n cx m ms = Ok (r, m')"
  then show "m_evm m' = m_evm m \<and> m_contract m' = m_contract m \<and> m_stack m' = m_stack m"
    by (auto simp: makeGasLog_def dest: withMemoryGas_Ok split: sum.split_asm elim!: bind_res_OkE)
qed (auto simp: makeGasLog_def res_simps split: sum.splits)

text \<open>The gas functions that look at the database or count refunds.\<close>

lemma gas_dbI:
  assumes "\<And>cx m ms. g cx m ms \<noteq> NoFuel"
    and "\<And>cx m ms r m'. g cx m ms = Ok (r, m') \<Longrightarrow> db_ok (cx_ext cx) (m_db m) \<Longrightarrow> w \<longrightarrow> \<not> static cx (m_evm m) \<Longrightarrow>
      jrel (static cx (m_evm m)) (cx_ext cx) (m_db m) (m_db m')"
    and "\<And>cx m ms r m'. g cx m ms = Ok (r, m') \<Longrightarrow> \<exists>s. m' = set_db s m"
  shows "gas_plain w g"
  unfolding gas_plain_def
proof (intro allI conjI impI)
  fix cx m ms r m'
  assume g: "g cx m ms = Ok (r, m')"
  obtain s where m': "m' = set_db s m" using assms(3) [OF g] by blast
  show "m_contract m' = m_contract m" "length (m_stack m') = length (m_stack m)" "tl (m_stack m') = tl (m_stack m)"
    by (simp_all add: m')
  assume ok: "mach_ok cx m" and w: "w \<longrightarrow> \<not> static cx (m_evm m)"
  have "db_ok (cx_ext cx) (m_db m)" using ok by (simp add: mach_ok_def)
  from assms(2) [OF g this w] ok show "mach_rel cx m m'" by (simp add: m' mach_ok_def mach_rel_def evm_rel_db)
qed (rule assms(1))

lemma gas_SStore [gas_contracts]: "gas_plain True gasSStore"
proof (rule gas_dbI)
  fix cx m ms r m'
  assume *: "gasSStore cx m ms = Ok (r, m')" and ok: "db_ok (cx_ext cx) (m_db m)"
    and w: "True \<longrightarrow> \<not> static cx (m_evm m)"
  let ?X = "cx_ext cx"
  from * obtain x v s where g: "GetState ?X (m_db m) (c_self (m_contract m)) (BigToHash x) = (v, s)"
    and m': "m_db m' = s \<or> m_db m' = AddRefund s (uint SstoreRefundGas)"
    by (auto simp: gasSStore_def split: prod.splits if_splits elim!: bind_res_OkE)
  have j: "jrel (static cx (m_evm m)) ?X (m_db m) s" by (rule jrel_get(8) [OF ok g])
  have "jrel (static cx (m_evm m)) ?X s (AddRefund s (uint SstoreRefundGas))"
    by (rule jrel_writers(6) [OF jrel_ok [OF j]]) (use w in simp_all)
  with j m' show "jrel (static cx (m_evm m)) ?X (m_db m) (m_db m')" using jrel_trans [OF j] by auto
next
  fix cx m ms r m'
  assume "gasSStore cx m ms = Ok (r, m')"
  then show "\<exists>s. m' = set_db s m"
    by (auto simp: gasSStore_def split: prod.split_asm if_split_asm elim!: bind_res_OkE)
qed (auto simp: gasSStore_def res_simps split: prod.splits)

lemma gas_Suicide [gas_contracts]: "gas_plain True gasSuicide"
proof (rule gas_dbI)
  fix cx m ms r m'
  assume *: "gasSuicide cx m ms = Ok (r, m')" and ok: "db_ok (cx_ext cx) (m_db m)"
    and w: "True \<longrightarrow> \<not> static cx (m_evm m)"
  let ?X = "cx_ext cx" and ?self = "c_self (m_contract m)"
  have K: "jrel False ?X (m_db m) (snd (HasSuicided ?X s ?self))"
      "jrel False ?X (m_db m) (AddRefund (snd (HasSuicided ?X s ?self)) (uint SuicideRefundGas))"
    if j: "jrel False ?X (m_db m) s" for s
  proof -
    show h: "jrel False ?X (m_db m) (snd (HasSuicided ?X s ?self))"
      by (rule jrel_trans [OF j jrel_getters(9) [OF jrel_ok [OF j]]])
    show "jrel False ?X (m_db m) (AddRefund (snd (HasSuicided ?X s ?self)) (uint SuicideRefundGas))"
      by (rule jrel_trans [OF h jrel_writers(6) [OF jrel_ok [OF h]]]) simp_all
  qed
  have e: "jrel False ?X (m_db m) (snd (Empty ?X (m_db m) a))" for a by (rule jrel_getters [OF ok])
  have b: "jrel False ?X (m_db m) (snd (GetBalance ?X (snd (Empty ?X (m_db m) a)) ?self))" for a
    by (rule jrel_trans [OF e jrel_getters(3) [OF jrel_ok [OF e]]])
  have x: "jrel False ?X (m_db m) (snd (Exist ?X (m_db m) a))" for a by (rule jrel_getters [OF ok])
  have "jrel False ?X (m_db m) (m_db m')"
    using * K [OF e, simplified] K [OF b, simplified] K [OF x, simplified] K [OF jrel_refl [OF ok], simplified]
    by (auto simp: gasSuicide_def Let_def split_beta split: if_split_asm elim!: bind_res_OkE)
  then show "jrel (static cx (m_evm m)) ?X (m_db m) (m_db m')" by (rule jrel_not_ro) (use w in blast)
next
  fix cx m ms r m'
  assume "gasSuicide cx m ms = Ok (r, m')"
  then show "\<exists>s. m' = set_db s m"
    by (auto simp: gasSuicide_def Let_def split: prod.split_asm if_split_asm elim!: bind_res_OkE)
qed (auto simp: gasSuicide_def Let_def res_simps split: prod.splits if_splits)

text \<open>
  The call family: the gas passed on is on top of the stack and is charged together with the base
  fee, which for a call that moves value exceeds the stipend.
\<close>

definition gas_pass :: "bool \<Rightarrow> gasFunc \<Rightarrow> bool" where
  "gas_pass v g \<longleftrightarrow> (\<forall>cx m ms c m'. g cx m ms = Ok (Inr c, m') \<longrightarrow>
     (\<exists>(cg :: uint64) st. m_stack m' = uint cg # st \<and>
       unat cg + 40 + (if v \<and> m_stack m ! 2 \<noteq> 0 then 9000 else 0) \<le> unat c))"

lemma gasAdd_exact: "gasAdd x y = Inr c \<longleftrightarrow> unat x + unat y < 2 ^ 64 \<and> unat c = unat x + unat y"
  using SafeAdd_exact [of x y] SafeAdd_overflow [of x y]
  by (cases "SafeAdd x y") (auto simp: gasAdd_def word_unat_eq_iff)

lemma chargeCall_frame:
  assumes "chargeCall cx m r = Ok (r', m')"
  shows "m_evm m' = m_evm m \<and> m_contract m' = m_contract m \<and>
    length (m_stack m') = length (m_stack m) \<and> tl (m_stack m') = tl (m_stack m) \<and>
    (stack_ok (m_stack m) \<longrightarrow> stack_ok (m_stack m'))"
proof -
  have "tl (st[0 := x]) = tl st" for st and x :: int by (cases st) simp_all
  moreover have "stack_ok (st[0 := uint c])" if "stack_ok st" for st and c :: uint64
    using that set_update_subset_insert [of st 0 "uint c"] by auto
  ultimately show ?thesis using assms by (auto simp: chargeCall_def split: sum.split_asm elim!: bind_res_OkE)
qed

lemma chargeCall_nofuel [simp]: "chargeCall cx m r \<noteq> NoFuel"
  by (auto simp: chargeCall_def res_simps split: sum.splits)

lemma chargeCall_pass:
  assumes "chargeCall cx m r = Ok (Inr c, m')"
  obtains g and cg :: uint64 and st where "r = Inr g" "m_stack m' = uint cg # st" "unat c = unat g + unat cg"
proof -
  from assms obtain g x cg where r: "r = Inr g" "Back (m_stack m) 0 = Ok x" "gasAdd g cg = Inr c"
    and m': "m' = m\<lparr>m_stack := (m_stack m)[0 := uint cg]\<rparr>"
    by (auto simp: chargeCall_def split: sum.split_asm elim!: bind_res_OkE)
  have "m_stack m' = uint cg # tl (m_stack m)" using r(2) m' by (cases "m_stack m") (auto simp: Back_def)
  with r show thesis using that [of g cg] unfolding gasAdd_exact by blast
qed

text \<open>What the four gas functions do before \<open>chargeCall\<close>.\<close>

lemma gas_callI:
  assumes "\<And>cx m ms. g cx m ms \<noteq> NoFuel"
    and "\<And>cx m ms r m'. g cx m ms = Ok (r, m') \<Longrightarrow> \<exists>s k b mm. chargeCall cx mm b = Ok (r, m') \<and>
      withMemoryGas (set_db s m) ms k = (b, mm) \<and>
      (db_ok (cx_ext cx) (m_db m) \<longrightarrow> jrel (static cx (m_evm m)) (cx_ext cx) (m_db m) s) \<and>
      (\<forall>x c. k x = Inr c \<longrightarrow> 40 + (if v \<and> m_stack m ! 2 \<noteq> 0 then 9000 else 0) \<le> unat c)"
  shows "gas_plain w g" "gas_pass v g"
proof -
  have "m_contract m' = m_contract m \<and> length (m_stack m') = length (m_stack m) \<and> tl (m_stack m') = tl (m_stack m)
      \<and> (mach_ok cx m \<longrightarrow> mach_rel cx m m')"
    if g: "g cx m ms = Ok (r, m')" for cx m ms r m'
  proof -
    from assms(2) [OF g] obtain s k b mm where c: "chargeCall cx mm b = Ok (r, m')"
      and k: "withMemoryGas (set_db s m) ms k = (b, mm)"
      and j: "evm_ok cx (m_evm m) \<longrightarrow> jrel (static cx (m_evm m)) (cx_ext cx) (m_db m) s" by blast
    show ?thesis
      using chargeCall_frame [OF c] withMemoryGas_Ok [OF k] evm_rel_db [of cx "m_evm m" s] j
      by (simp add: mach_ok_def mach_rel_def)
  qed
  then show "gas_plain w g" unfolding gas_plain_def using assms(1) by blast
  show "gas_pass v g" unfolding gas_pass_def
  proof (intro allI impI)
    fix cx m ms c m'
    assume g: "g cx m ms = Ok (Inr c, m')"
    from assms(2) [OF g] obtain s k b mm where c: "chargeCall cx mm b = Ok (Inr c, m')"
      and k: "withMemoryGas (set_db s m) ms k = (b, mm)"
        "\<And>x c. k x = Inr c \<Longrightarrow> 40 + (if v \<and> m_stack m ! 2 \<noteq> 0 then 9000 else 0) \<le> unat c" by blast
    from chargeCall_pass [OF c] obtain gg and cg :: uint64 and st
      where p: "b = Inr gg" "m_stack m' = uint cg # st" "unat c = unat gg + unat cg" .
    obtain x where "k x = Inr gg"
      using k(1) p(1) by (auto simp: withMemoryGas_def split: prod.split_asm elim: bind_err.elims)
    from k(2) [OF this] p(2,3)
    show "\<exists>(cg :: uint64) st. m_stack m' = uint cg # st \<and>
        unat cg + 40 + (if v \<and> m_stack m ! 2 \<noteq> 0 then 9000 else 0) \<le> unat c"
      by (intro exI [of _ cg] exI [of _ st]) simp
  qed
qed

lemma Calls_cases: "Calls (cxGasTable cx) = 40 \<or> Calls (cxGasTable cx) = 700"
  by (simp add: chainGasTable_def GasTableHomestead_def GasTableEIP150_def GasTableEIP158_def)

lemma gas_CallCode: "gas_plain w gasCallCode" "gas_pass True gasCallCode"
proof -
  have n: "gasCallCode cx m ms \<noteq> NoFuel" for cx m ms
    by (auto simp: gasCallCode_def Let_def res_simps split: prod.splits)
  have *: "\<exists>s k b mm. chargeCall cx mm b = Ok (r, m') \<and> withMemoryGas (set_db s m) ms k = (b, mm) \<and>
      (db_ok (cx_ext cx) (m_db m) \<longrightarrow> jrel (static cx (m_evm m)) (cx_ext cx) (m_db m) s) \<and>
      (\<forall>x c. k x = Inr c \<longrightarrow> 40 + (if True \<and> m_stack m ! 2 \<noteq> 0 then 9000 else 0) \<le> unat c)"
    if "gasCallCode cx m ms = Ok (r, m')" for cx m ms r m'
  proof (intro exI conjI)
    let ?g = "Calls (cxGasTable cx) + (if m_stack m ! 2 \<noteq> 0 then CallValueTransferGas else 0)"
    let ?b = "withMemoryGas m ms (\<lambda>memoryGas. gasAdd ?g memoryGas)"
    show "chargeCall cx (snd ?b) (fst ?b) = Ok (r, m')"
      using that by (auto simp: gasCallCode_def Let_def Back_def split_beta split: if_split_asm elim!: bind_res_OkE)
    show "withMemoryGas (set_db (m_db m) m) ms (\<lambda>memoryGas. gasAdd ?g memoryGas) = (fst ?b, snd ?b)" by simp
    show "db_ok (cx_ext cx) (m_db m) \<longrightarrow> jrel (static cx (m_evm m)) (cx_ext cx) (m_db m) (m_db m)"
      using jrel_refl by blast
    have "unat ?g \<ge> 40 + (if True \<and> m_stack m ! 2 \<noteq> 0 then 9000 else 0)"
      using Calls_cases [of cx] by auto
    then show "\<forall>x c. gasAdd ?g x = Inr c \<longrightarrow> 40 + (if True \<and> m_stack m ! 2 \<noteq> 0 then 9000 else 0) \<le> unat c"
      by (auto simp only: gasAdd_exact)
  qed
  show "gas_plain w gasCallCode" by (rule gas_callI(1) [OF n *])
  show "gas_pass True gasCallCode" by (rule gas_callI(2) [OF n *])
qed

lemma gas_Call: "gas_plain w gasCall" "gas_pass True gasCall"
proof -
  have n: "gasCall cx m ms \<noteq> NoFuel" for cx m ms
    by (auto simp: gasCall_def Let_def res_simps split: prod.splits)
  have *: "\<exists>s k b mm. chargeCall cx mm b = Ok (r, m') \<and> withMemoryGas (set_db s m) ms k = (b, mm) \<and>
      (db_ok (cx_ext cx) (m_db m) \<longrightarrow> jrel (static cx (m_evm m)) (cx_ext cx) (m_db m) s) \<and>
      (\<forall>x c. k x = Inr c \<longrightarrow> 40 + (if True \<and> m_stack m ! 2 \<noteq> 0 then 9000 else 0) \<le> unat c)"
    if "gasCall cx m ms = Ok (r, m')" for cx m ms r m'
  proof -
    let ?X = "cx_ext cx" and ?a = "cxAddress cx (m_stack m ! 1)" and ?tv = "m_stack m ! 2 \<noteq> 0"
    define q where "q = (if cxEIP158 cx then (if ?tv then Empty ?X (m_db m) ?a else (False, m_db m))
               else (case Exist ?X (m_db m) ?a of (e, s) \<Rightarrow> (\<not> e, s)))"
    define g where "g = Calls (cxGasTable cx) + (if fst q then CallNewAccountGas else 0)
                    + (if ?tv then CallValueTransferGas else 0)"
    let ?b = "withMemoryGas (set_db (snd q) m) ms (\<lambda>memoryGas. gasAdd g memoryGas)"
    have c: "chargeCall cx (snd ?b) (fst ?b) = Ok (r, m')"
      using that unfolding gasCall_def Let_def g_def q_def
      by (auto simp: Back_def split_beta split: if_split_asm elim!: bind_res_OkE)
    have j: "db_ok ?X (m_db m) \<longrightarrow> jrel (static cx (m_evm m)) ?X (m_db m) (snd q)"
      using jrel_refl jrel_getters(1,2) by (auto simp: q_def split_beta)
    have "unat g \<ge> 40 + (if True \<and> ?tv then 9000 else 0)"
      using Calls_cases [of cx] by (auto simp: g_def)
    then have k: "\<forall>x c. gasAdd g x = Inr c \<longrightarrow> 40 + (if True \<and> ?tv then 9000 else 0) \<le> unat c"
      by (auto simp only: gasAdd_exact)
    have b: "?b = (fst ?b, snd ?b)" by simp
    show ?thesis by (intro exI conjI, rule c, rule b, rule j, rule k)
  qed
  show "gas_plain w gasCall" by (rule gas_callI(1) [OF n *])
  show "gas_pass True gasCall" by (rule gas_callI(2) [OF n *])
qed

lemma gas_Delegate:
  "gas_plain w gasDelegateCall" "gas_pass False gasDelegateCall"
  "gas_plain w gasStaticCall" "gas_pass False gasStaticCall"
proof -
  have e: "gasStaticCall = gasDelegateCall" by (intro ext) (simp add: gasStaticCall_def gasDelegateCall_def)
  have n: "gasDelegateCall cx m ms \<noteq> NoFuel" for cx m ms by (auto simp: gasDelegateCall_def split: prod.splits)
  have *: "\<exists>s k b mm. chargeCall cx mm b = Ok (r, m') \<and> withMemoryGas (set_db s m) ms k = (b, mm) \<and>
      (db_ok (cx_ext cx) (m_db m) \<longrightarrow> jrel (static cx (m_evm m)) (cx_ext cx) (m_db m) s) \<and>
      (\<forall>x c. k x = Inr c \<longrightarrow> 40 + (if False \<and> m_stack m ! 2 \<noteq> 0 then 9000 else 0) \<le> unat c)"
    if "gasDelegateCall cx m ms = Ok (r, m')" for cx m ms r m'
  proof (intro exI conjI)
    let ?b = "withMemoryGas m ms (\<lambda>gas. gasAdd gas (Calls (cxGasTable cx)))"
    show "chargeCall cx (snd ?b) (fst ?b) = Ok (r, m')" using that by (simp add: gasDelegateCall_def split_beta)
    show "withMemoryGas (set_db (m_db m) m) ms (\<lambda>gas. gasAdd gas (Calls (cxGasTable cx))) = (fst ?b, snd ?b)" by simp
    show "db_ok (cx_ext cx) (m_db m) \<longrightarrow> jrel (static cx (m_evm m)) (cx_ext cx) (m_db m) (m_db m)"
      using jrel_refl by blast
    have "unat (Calls (cxGasTable cx)) \<ge> 40" using Calls_cases [of cx] by auto
    then show "\<forall>x c. gasAdd x (Calls (cxGasTable cx)) = Inr c \<longrightarrow>
        40 + (if False \<and> m_stack m ! 2 \<noteq> 0 then 9000 else 0) \<le> unat c"
      by (auto simp only: gasAdd_exact if_False simp_thms)
  qed
  show p: "gas_plain w gasDelegateCall" by (rule gas_callI(1) [OF n *])
  show q: "gas_pass False gasDelegateCall" by (rule gas_callI(2) [OF n *])
  show "gas_plain w gasStaticCall" "gas_pass False gasStaticCall" using p q by (simp_all add: e)
qed

text \<open>Every fee of an operation that does not end the run is positive.\<close>

lemma bind_err_Inr: "bind_err r f = Inr c \<longleftrightarrow> (\<exists>x. r = Inr x \<and> f x = Inr c)"
  by (cases r) auto

lemma withMemoryGas_Inr: "withMemoryGas m ms k = (Inr c, m') \<Longrightarrow> \<exists>x. k x = Inr c"
  by (auto simp: withMemoryGas_def bind_err_Inr split: prod.split_asm)

lemma gasAdd_pos: "gasAdd x y = Inr c \<Longrightarrow> 0 < x \<Longrightarrow> 0 < c" "gasAdd x y = Inr c \<Longrightarrow> 0 < y \<Longrightarrow> 0 < c"
  unfolding gasAdd_exact by (auto simp: word_less_nat_alt)

lemma gas_pos_const: "0 < c \<Longrightarrow> gas_pos (constGasFunc c)"
  by (simp add: gas_pos_def constGasFunc_def)

lemma gasTable_pos:
  "0 < ExtcodeSize (cxGasTable cx)" "0 < ExtcodeCopy (cxGasTable cx)" "0 < gt_Balance (cxGasTable cx)"
  "0 < SLoad (cxGasTable cx)"
  by (simp_all add: chainGasTable_def GasTableHomestead_def GasTableEIP150_def GasTableEIP158_def)

lemma gas_pos_words: "0 < b \<Longrightarrow> gas_pos (gasWords b i p)"
  by (auto simp: gas_pos_def gasWords_def res_simps bind_err_Inr gasAdd_exact word_less_nat_alt
      dest!: withMemoryGas_Inr)

lemma gas_pos_mem: "0 < b \<Longrightarrow> gas_pos (gasMemPlus b)"
  by (auto simp: gas_pos_def gasMemPlus_def dest!: withMemoryGas_Inr intro: gasAdd_pos)

lemma gas_pos_misc:
  "gas_pos gasBalance" "gas_pos gasExtCodeSize" "gas_pos gasSLoad" "gas_pos gasExp" "gas_pos gasPush"
  "gas_pos gasSwap" "gas_pos gasDup" "gas_pos gasExtCodeCopy" "gas_pos gasSStore" "gas_pos (makeGasLog n)"
proof -
  show "gas_pos gasBalance" "gas_pos gasExtCodeSize" "gas_pos gasSLoad" "gas_pos gasPush" "gas_pos gasSwap"
      "gas_pos gasDup"
    by (auto simp: gas_pos_def gasBalance_def gasExtCodeSize_def gasSLoad_def gasPush_def gasSwap_def
        gasDup_def gasTable_pos)
  show "gas_pos gasExp" by (auto simp: gas_pos_def gasExp_def Let_def res_simps intro: gasAdd_pos)
  show "gas_pos gasExtCodeCopy"
    using gas_pos_words [OF gasTable_pos(2)] unfolding gas_pos_def gasExtCodeCopy_def by blast
  show "gas_pos gasSStore"
    by (auto simp: gas_pos_def gasSStore_def split: prod.split_asm if_split_asm elim!: bind_res_OkE)
  show "gas_pos (makeGasLog n)"
    by (auto simp: gas_pos_def makeGasLog_def bind_err_Inr gasAdd_exact word_less_nat_alt
        split: sum.split_asm elim!: bind_res_OkE dest!: withMemoryGas_Inr)
qed

lemmas gas_defs = gasCallDataCopy_def gasReturnDataCopy_def gasSha3_def gasCodeCopy_def gasMLoad_def
  gasMStore8_def gasMStore_def gasCreate_def

end
