(* ===== verification/EvmStep.thy ===== *)
theory EvmStep
  imports EvmOps
begin

text \<open>
  Contracts of the calling instructions and, with those of \<open>EvmOps\<close>, of one turn of the interpreter
  loop, for every entry of every instruction table: the turn keeps the relation of \<open>EvmFrame\<close>, it
  never adds gas, it uses some unless it ends the run, and the fuel of the nested interpreter is
  enough when it exceeds the gas.
\<close>

section \<open>One turn of the loop\<close>

primrec stepMachine :: "StepResult \<Rightarrow> Machine" where
  "stepMachine (Continue m) = m"
| "stepMachine (Halt ret err m) = m"

definition step_frame :: "Ctx \<Rightarrow> byte \<Rightarrow> operation \<Rightarrow> bool" where
  "step_frame cx b op \<longleftrightarrow> (\<forall>R m ms r. runner_rel cx R \<longrightarrow> mach_ok cx m \<longrightarrow>
     enforceRestrictions cx (m_evm m) b op (m_stack m) = Ok None \<longrightarrow> stepExec cx R op m ms = Ok r \<longrightarrow>
     mach_rel cx m (stepMachine r))"

text \<open>The interpreter never gives back more gas than it was given.\<close>

definition runner_gas :: "runner \<Rightarrow> bool" where
  "runner_gas R \<longleftrightarrow> (\<forall>evm c inp ret err c' evm'. R evm c inp = Ok (ret, err, c', evm') \<longrightarrow> c_Gas c' \<le> c_Gas c)"

definition step_gas :: "Ctx \<Rightarrow> operation \<Rightarrow> bool" where
  "step_gas cx op \<longleftrightarrow> (\<forall>R m ms r. \<not> DisableGasMetering cx \<longrightarrow> runner_gas R \<longrightarrow> stepExec cx R op m ms = Ok r \<longrightarrow>
     (case r of Continue m' \<Rightarrow> m_Gas m' < m_Gas m | Halt ret err m' \<Rightarrow> m_Gas m' \<le> m_Gas m))"

text \<open>The interpreter ends when it is given less than \<open>g\<close> gas.\<close>

definition runner_ends :: "nat \<Rightarrow> runner \<Rightarrow> bool" where
  "runner_ends g R \<longleftrightarrow> (\<forall>evm c inp. unat (c_Gas c) < g \<longrightarrow> R evm c inp \<noteq> NoFuel)"

definition step_ends :: "Ctx \<Rightarrow> operation \<Rightarrow> bool" where
  "step_ends cx op \<longleftrightarrow> (\<forall>R m ms. \<not> DisableGasMetering cx \<longrightarrow> runner_ends (unat (m_Gas m)) R \<longrightarrow>
     stepExec cx R op m ms \<noteq> NoFuel)"

lemma stepGas_frame:
  assumes "gas_plain w (gasCost op)" "stepGas cx op m ms = Ok (ok, m1)"
  shows "length (m_stack m1) = length (m_stack m)" "tl (m_stack m1) = tl (m_stack m)"
    "c_self (m_contract m1) = c_self (m_contract m)" "m_Gas m1 \<le> m_Gas m"
    "mach_ok cx m \<Longrightarrow> w \<longrightarrow> \<not> static cx (m_evm m) \<Longrightarrow> mach_rel cx m m1"
proof -
  have "length (m_stack m1) = length (m_stack m) \<and> tl (m_stack m1) = tl (m_stack m) \<and>
    c_self (m_contract m1) = c_self (m_contract m) \<and> m_Gas m1 \<le> m_Gas m \<and>
    (mach_ok cx m \<longrightarrow> (w \<longrightarrow> \<not> static cx (m_evm m)) \<longrightarrow> mach_rel cx m m1)"
  proof (cases "DisableGasMetering cx")
    case True
    then show ?thesis using assms(2) mach_rel_refl by (auto simp: stepGas_def)
  next
    case False
    then obtain r m2 where g: "gasCost op cx m ms = Ok (r, m2)"
      and r: "(case r of Inl e \<Rightarrow> Ok (False, m2)
         | Inr cost \<Rightarrow> (case UseGas (m_contract m2) cost of (ok, c) \<Rightarrow> Ok (ok, m2\<lparr>m_contract := c\<rparr>))) = Ok (ok, m1)"
      using assms(2) by (auto simp: stepGas_def elim!: bind_res_OkE)
    have m1: "m_evm m1 = m_evm m2 \<and> m_stack m1 = m_stack m2 \<and> c_self (m_contract m1) = c_self (m_contract m2) \<and>
        c_value (m_contract m1) = c_value (m_contract m2) \<and> m_Gas m1 \<le> m_Gas m2"
      using r by (auto simp: UseGas_def not_less word_le_nat_alt unat_sub split: sum.split_asm if_split_asm)
    then have "mach_rel cx m m1 = mach_rel cx m m2" by (simp add: mach_rel_def)
    moreover have "m_contract m2 = m_contract m \<and> length (m_stack m2) = length (m_stack m) \<and>
        tl (m_stack m2) = tl (m_stack m) \<and> (mach_ok cx m \<longrightarrow> (w \<longrightarrow> \<not> static cx (m_evm m)) \<longrightarrow> mach_rel cx m m2)"
      using g assms(1) unfolding gas_plain_def by blast
    ultimately show ?thesis using m1 by simp
  qed
  then show "length (m_stack m1) = length (m_stack m)" "tl (m_stack m1) = tl (m_stack m)"
    "c_self (m_contract m1) = c_self (m_contract m)" "m_Gas m1 \<le> m_Gas m"
    "mach_ok cx m \<Longrightarrow> w \<longrightarrow> \<not> static cx (m_evm m) \<Longrightarrow> mach_rel cx m m1"
    by blast+
qed

lemma stepExec_OkE:
  assumes "stepExec cx R op m ms = Ok r"
  obtains (gas) m1 where "stepGas cx op m ms = Ok (False, m1)" "r = Halt [] (Some ErrOutOfGas) m1"
  | (run) m1 mem res err m' where "stepGas cx op m ms = Ok (True, m1)"
      "execute op cx R (m1\<lparr>m_mem := mem\<rparr>) = Ok (res, err, m')" "r = stepDone op (res, err, m')"
proof -
  from assms obtain ok m1 where g: "stepGas cx op m ms = Ok (ok, m1)"
    and r: "(if \<not> ok then Ok (Halt [] (Some ErrOutOfGas) m1)
       else bind_res (execute op cx R (if ms > 0 then m1\<lparr>m_mem := Resize (m_mem m1) ms\<rparr> else m1))
         (\<lambda>r. Ok (stepDone op r))) = Ok r"
    unfolding stepExec_def Let_def by (elim bind_res_OkE) (simp add: split_beta, metis prod.collapse)
  have "(if ms > 0 then m1\<lparr>m_mem := Resize (m_mem m1) ms\<rparr> else m1) =
      m1\<lparr>m_mem := if ms > 0 then Resize (m_mem m1) ms else m_mem m1\<rparr>" by simp
  with g r gas run show thesis by (cases ok) (auto elim!: bind_res_OkE)
qed

lemma evm_rel_returnData [simp]: "evm_rel cx e (e'\<lparr>returnData := d\<rparr>) = evm_rel cx e e'"
  by (simp add: evm_rel_def)

lemma stepDone_frame:
  "mach_rel cx m0 (stepMachine (stepDone op (res, err, m))) = mach_rel cx m0 m"
  "m_contract (stepMachine (stepDone op (res, err, m))) = m_contract m"
  by (simp_all add: stepDone_def mach_rel_def Let_def)

lemma stepDone_Continue: "stepDone op r = Continue m' \<Longrightarrow> \<not> halts op \<and> \<not> reverts op"
  by (cases r) (auto simp: stepDone_def Let_def split: if_splits)

text \<open>Frame: \<open>v\<close> marks the call instruction, which may move no value in read-only mode.\<close>

definition exec_rel :: "bool \<Rightarrow> bool \<Rightarrow> executionFunc \<Rightarrow> bool" where
  "exec_rel v w ex \<longleftrightarrow> (\<forall>cx R m res err m'. runner_rel cx R \<longrightarrow> mach_ok cx m \<longrightarrow>
     (w \<longrightarrow> \<not> static cx (m_evm m)) \<longrightarrow> (v \<and> static cx (m_evm m) \<longrightarrow> 2 < length (m_stack m) \<and> m_stack m ! 2 = 0) \<longrightarrow>
     ex cx R m = Ok (res, err, m') \<longrightarrow> mach_rel cx m m')"

lemma exec_plain_rel: "exec_plain w ex \<Longrightarrow> exec_rel v w ex"
  unfolding exec_plain_def exec_rel_def by blast

lemma evm_rel_static: "evm_rel cx e e' \<Longrightarrow> static cx e' = static cx e"
  by (simp add: evm_rel_def)

lemma mach_rel_mem [simp]: "mach_rel cx m (m1\<lparr>m_mem := mem\<rparr>) = mach_rel cx m m1"
  "mach_rel cx (m1\<lparr>m_mem := mem\<rparr>) m' = mach_rel cx m1 m'"
  by (simp_all add: mach_rel_def)

lemma step_frameI:
  assumes g: "gas_plain (writes op) (gasCost op)" and e: "exec_rel (b = opCALL) (writes op) (execute op)"
  shows "step_frame cx b op"
  unfolding step_frame_def
proof (intro allI impI)
  fix R m ms r
  assume R: "runner_rel cx R" and ok: "mach_ok cx m"
    and rs: "enforceRestrictions cx (m_evm m) b op (m_stack m) = Ok None" and x: "stepExec cx R op m ms = Ok r"
  have w: "writes op \<longrightarrow> \<not> static cx (m_evm m)" using rs by (auto simp: enforceRestrictions_def split: if_splits)
  have v: "b = opCALL \<and> static cx (m_evm m) \<longrightarrow> 2 < length (m_stack m) \<and> m_stack m ! 2 = 0"
    using rs by (auto simp: enforceRestrictions_def Back_def split: if_splits)
  from x show "mach_rel cx m (stepMachine r)"
  proof (cases rule: stepExec_OkE)
    case (gas m1)
    then show ?thesis using stepGas_frame(5) [OF g gas(1) ok w] by simp
  next
    case (run m1 mem res err m')
    note f = stepGas_frame [OF g run(1)]
    have j: "mach_rel cx m m1" by (rule f(5) [OF ok w])
    let ?m = "m1\<lparr>m_mem := mem\<rparr>"
    have st: "static cx (m_evm m1) = static cx (m_evm m)" using j evm_rel_static by (simp add: mach_rel_def)
    have "m_stack m1 ! 2 = m_stack m ! 2" if "2 < length (m_stack m)"
      using that f(1,2) by (cases "m_stack m"; cases "m_stack m1") (auto simp: numeral_2_eq_2)
    then have v': "b = opCALL \<and> static cx (m_evm ?m) \<longrightarrow> 2 < length (m_stack ?m) \<and> m_stack ?m ! 2 = 0"
      using v f(1) st by auto
    have w': "writes op \<longrightarrow> \<not> static cx (m_evm ?m)" using w st by auto
    have "mach_ok cx ?m" using mach_rel_ok [OF ok, of ?m] j by simp
    with e R w' v' run(2) have "mach_rel cx ?m m'" unfolding exec_rel_def by blast
    with j have "mach_rel cx m m'" using mach_rel_trans [of cx m m1 m'] by simp
    then show ?thesis by (simp add: run(3) stepDone_frame)
  qed
qed

section \<open>Calls: gas and fuel\<close>

lemma undo_nofuel [simp]: "undo X s e \<noteq> NoFuel"
  by (cases e) (auto simp: onObject_def Let_def split: prod.splits option.splits list.splits if_splits)

lemma undoAll_nofuel [simp]: "undoAll X es s \<noteq> NoFuel"
  by (induction es arbitrary: s) (auto simp: res_simps)

lemma RevertToSnapshot_nofuel [simp]: "RevertToSnapshot X s i \<noteq> NoFuel"
  by (simp add: RevertToSnapshot_def Let_def res_simps)

lemma UseGas_le: "UseGas c g = (ok, c') \<Longrightarrow> c_Gas c' \<le> c_Gas c"
  by (auto simp: UseGas_def not_less word_le_nat_alt unat_sub split: if_splits)

lemma evm_run_gas:
  assumes "runner_gas R" "evm_run cx R evm c inp = Ok (ret, err, c', evm')"
  shows "c_Gas c' \<le> c_Gas c"
proof (cases "case CodeAddr c of None \<Rightarrow> None | Some a \<Rightarrow> precompiles cx a")
  case None
  then have "R evm c inp = Ok (ret, err, c', evm')" using assms(2) by (simp add: evm_run_def)
  then show ?thesis using assms(1) unfolding runner_gas_def by blast
next
  case (Some p)
  then show ?thesis
    using assms(2) UseGas_le
    by (auto simp: evm_run_def RunPrecompiledContract_def split: prod.split_asm bool.split_asm elim!: bind_res_OkE)
qed

lemma evm_run_ends: "runner_ends g R \<Longrightarrow> unat (c_Gas c) < g \<Longrightarrow> evm_run cx R evm c inp \<noteq> NoFuel"
  by (auto simp: evm_run_def runner_ends_def res_simps split: option.splits prod.splits)

lemma settle_gas: "settle cx i (ret, err, c, evm) = Ok (ret', g, err', jd, evm') \<Longrightarrow> g \<le> c_Gas c"
  by (auto simp: settle_def Let_def UseGas_def split: if_split_asm elim!: bind_res_OkE)

lemma settle_nofuel [simp]: "settle cx i r \<noteq> NoFuel"
  by (auto simp: settle_def Let_def res_simps split: prod.splits if_splits)

text \<open>The two ways a call goes: it ends early with all its gas, or it runs a contract with it.\<close>

definition call_form :: "Ctx \<Rightarrow> runner \<Rightarrow> bytes \<Rightarrow> uint64 \<Rightarrow> callRes \<Rightarrow> bool" where
  "call_form cx R inp gas r \<longleftrightarrow> (\<exists>ret e jd evm. r = Ok (ret, gas, e, jd, evm)) \<or> r = Panic \<or>
     (\<exists>evm ct i. c_Gas ct = gas \<and> (let b = bind_res (evm_run cx R evm ct inp) (settle cx i) in
        b = r \<or> clearReadOnly b = r))"

lemma call_formI:
  "call_form cx R inp gas (Ok (ret, gas, e, jd, evm))" "call_form cx R inp gas Panic"
  "c_Gas ct = gas \<Longrightarrow> call_form cx R inp gas (bind_res (evm_run cx R evm ct inp) (settle cx i))"
  "c_Gas ct = gas \<Longrightarrow> call_form cx R inp gas (clearReadOnly (bind_res (evm_run cx R evm ct inp) (settle cx i)))"
  unfolding call_form_def Let_def by blast+

lemma loadCode_Gas: "loadCode X s a c = (ct, s') \<Longrightarrow> c_Gas ct = c_Gas c"
  by (auto simp: loadCode_def SetCallCode_def split: prod.splits)

lemma calls_form:
  "call_form cx R inp gas (Call cx R evm caller addr inp gas value)"
  "call_form cx R inp gas (CallCode cx R evm caller addr inp gas value)"
  "call_form cx R inp gas (StaticCall cx R evm caller addr inp gas)"
  "call_form cx R inp gas (DelegateCall cx R evm caller addr inp gas)"
proof -
  have n: "c_Gas (NewContract caller a v gas) = gas" for a v by (simp add: NewContract_def)
  note defs = Call_def CallCode_def StaticCall_def Let_def
  show "call_form cx R inp gas (Call cx R evm caller addr inp gas value)"
    "call_form cx R inp gas (CallCode cx R evm caller addr inp gas value)"
    "call_form cx R inp gas (StaticCall cx R evm caller addr inp gas)"
    using loadCode_Gas n by (auto simp: defs intro!: call_formI split: prod.split)
  show "call_form cx R inp gas (DelegateCall cx R evm caller addr inp gas)"
    by (cases caller) (use loadCode_Gas n in \<open>auto simp: DelegateCall_def NewContract_def Let_def
      intro!: call_formI split: prod.split\<close>)
qed

lemma clearReadOnly_Ok:
  "clearReadOnly b = Ok (ret, g, err, jd, evm) \<Longrightarrow> \<exists>evm'. b = Ok (ret, g, err, jd, evm')"
  by (cases b) (auto simp: clearReadOnly_def)

lemma clearReadOnly_nofuel: "clearReadOnly b = NoFuel \<longleftrightarrow> b = NoFuel"
  by (cases b) (auto simp: clearReadOnly_def)

lemma call_form_gas:
  assumes "runner_gas R" "call_form cx R inp gas (Ok (ret, g, err, jd, evm))"
  shows "g \<le> gas"
proof -
  have *: "g \<le> c_Gas ct" if r: "bind_res (evm_run cx R evm2 ct inp) (settle cx i) = Ok (ret, g, err, jd, evm3)" for ct evm2 i evm3
  proof -
    obtain ret' err' c' evm' where 1: "evm_run cx R evm2 ct inp = Ok (ret', err', c', evm')"
      and 2: "settle cx i (ret', err', c', evm') = Ok (ret, g, err, jd, evm3)"
      using r by (auto elim!: bind_res_OkE)
    show ?thesis using evm_run_gas [OF assms(1) 1] settle_gas [OF 2] by simp
  qed
  from assms(2) show ?thesis
    unfolding call_form_def Let_def by (elim disjE exE conjE) (auto dest!: clearReadOnly_Ok dest: *)
qed

lemma call_form_ends:
  assumes "runner_ends n R" "unat gas < n" "call_form cx R inp gas r"
  shows "r \<noteq> NoFuel"
proof -
  have "bind_res (evm_run cx R evm ct inp) (settle cx i) \<noteq> NoFuel" if "c_Gas ct = gas" for evm ct i
    using evm_run_ends [OF assms(1), of ct cx evm inp] assms(2) that by (simp add: res_simps)
  then show ?thesis using assms(3) unfolding call_form_def Let_def by (auto simp: clearReadOnly_nofuel)
qed

text \<open>Contract creation.\<close>

lemma settleCreate_gas:
  assumes "settleCreate cx i a (ret, err, c, evm) = Ok (ret', a', g, err', jd, evm')"
  shows "g \<le> c_Gas c"
proof -
  obtain ok c1 where u: "UseGas c (of_nat (length ret) * CreateDataGas) = (ok, c1)" by fastforce
  have z: "c_Gas (snd (UseGas d (c_Gas d))) = 0" for d by (simp add: UseGas_def)
  show ?thesis
    using assms u UseGas_le [OF u] z
    by (auto simp: settleCreate_def Let_def split: if_split_asm prod.split_asm bool.split_asm elim!: bind_res_OkE)
qed

lemma settleCreate_nofuel [simp]: "settleCreate cx i a r \<noteq> NoFuel"
  by (cases r) (auto simp: settleCreate_def Let_def res_simps split: if_splits prod.splits bool.splits)

definition create_form :: "Ctx \<Rightarrow> runner \<Rightarrow> uint64 \<Rightarrow> createRes \<Rightarrow> bool" where
  "create_form cx R gas r \<longleftrightarrow> (\<exists>ret a g e jd evm. g \<le> gas \<and> r = Ok (ret, a, g, e, jd, evm)) \<or>
     (\<exists>evm ct i a. c_Gas ct = gas \<and> bind_res (evm_run cx R evm ct []) (settleCreate cx i a) = r)"

lemma create_formI:
  "g \<le> gas \<Longrightarrow> create_form cx R gas (Ok (ret, a, g, e, jd, evm))"
  "c_Gas ct = gas \<Longrightarrow> create_form cx R gas (bind_res (evm_run cx R evm ct []) (settleCreate cx i a))"
  unfolding create_form_def by blast+

lemma Create_form: "create_form cx R gas (Create cx R evm caller code gas value)"
  by (auto simp: Create_def NewContract_def SetCallCode_def Let_def intro!: create_formI split: prod.split)

lemma Create_gas:
  assumes R: "runner_gas R" and c: "Create cx R evm caller code gas value = Ok (ret, a, g, err, jd, evm')"
  shows "g \<le> gas"
proof -
  have *: "g \<le> c_Gas ct" if r: "bind_res (evm_run cx R evm2 ct []) (settleCreate cx i b) = Ok (ret, a, g, err, jd, evm')"
    for ct evm2 i b
  proof -
    obtain ret' err' c' evm3 where 1: "evm_run cx R evm2 ct [] = Ok (ret', err', c', evm3)"
      and 2: "settleCreate cx i b (ret', err', c', evm3) = Ok (ret, a, g, err, jd, evm')"
      using r by (auto elim!: bind_res_OkE)
    show ?thesis using evm_run_gas [OF R 1] settleCreate_gas [OF 2] by simp
  qed
  from Create_form [of cx R gas evm caller code "value"] show ?thesis
    unfolding create_form_def c by (elim disjE exE conjE) (auto dest: *)
qed

lemma Create_ends:
  assumes "runner_ends n R" "unat gas < n"
  shows "Create cx R evm caller code gas value \<noteq> NoFuel"
proof -
  have "bind_res (evm_run cx R evm ct []) (settleCreate cx i a) \<noteq> NoFuel" if "c_Gas ct = gas" for evm ct i a
    using evm_run_ends [OF assms(1), of ct cx evm "[]"] assms(2) that by (simp add: res_simps)
  then show ?thesis using Create_form [of cx R gas evm caller code "value"] unfolding create_form_def by auto
qed

section \<open>Instructions that call\<close>

lemma callDone_OkE:
  assumes "callDone m st off n r = Ok (res, err, m')"
  obtains ret g e jd where "r = Ok (ret, g, e, jd, m_evm m')" "m_Gas m' = m_Gas m + g"
    "c_value (m_contract m') = c_value (m_contract m)" "m_stack m' = (if e \<noteq> None then 0 else 1) # st"
  using assms by (auto simp: callDone_def Let_def elim!: bind_res_OkE)

lemma callDone_nofuel: "r \<noteq> NoFuel \<Longrightarrow> callDone m st off n r \<noteq> NoFuel"
  by (auto simp: callDone_def Let_def res_simps split: prod.splits if_splits)

lemma U256_0 [simp]: "U256 0 = 0"
  by (simp add: U256_def bigAnd_def)

definition call_keeps :: "Ctx \<Rightarrow> Machine \<Rightarrow> (bytes \<times> vmerr option \<times> Machine) res \<Rightarrow> bool" where
  "call_keeps cx m r \<longleftrightarrow> (\<forall>res err m'. r = Ok (res, err, m') \<longrightarrow> mach_rel cx m m')"

lemma call_keepsI:
  "call_keeps cx m Panic"
  "mach_ok cx m \<Longrightarrow> set st \<subseteq> set (m_stack m) \<Longrightarrow>
    (\<And>ret g e jd evm. K = Ok (ret, g, e, jd, evm) \<Longrightarrow> call_ok cx (m_evm m) e evm) \<Longrightarrow>
    call_keeps cx m (callDone m st off n K)"
  "(\<And>args. call_keeps cx m (f args)) \<Longrightarrow> call_keeps cx m (bind_res (mem_Get mem i j) f)"
proof -
  assume ok: "mach_ok cx m" and st: "set st \<subseteq> set (m_stack m)"
    and c: "\<And>ret g e jd evm. K = Ok (ret, g, e, jd, evm) \<Longrightarrow> call_ok cx (m_evm m) e evm"
  show "call_keeps cx m (callDone m st off n K)" unfolding call_keeps_def
  proof (intro allI impI)
    fix res err m'
    assume "callDone m st off n K = Ok (res, err, m')"
    then obtain ret g e jd where "K = Ok (ret, g, e, jd, m_evm m')"
      "c_value (m_contract m') = c_value (m_contract m)" "m_stack m' = (if e \<noteq> None then 0 else 1) # st"
      by (rule callDone_OkE)
    with c st ok show "mach_rel cx m m'" by (auto simp: mach_rel_def mach_ok_def call_ok_def)
  qed
qed (auto simp: call_keeps_def elim!: bind_res_OkE)

lemma call_keeps_calls:
  assumes R: "runner_rel cx R" and ok: "mach_ok cx m" and st: "set st \<subseteq> set (m_stack m)"
  shows "static cx (m_evm m) \<longrightarrow> U256 x = 0 \<Longrightarrow>
      call_keeps cx m (callDone m st off n (Call cx R (m_evm m) (ContractPtr (m_contract m)) a args g (U256 x)))"
    "call_keeps cx m (callDone m st off n (CallCode cx R (m_evm m) (ContractPtr (m_contract m)) a args g (U256 x)))"
    "call_keeps cx m (callDone m st off n (DelegateCall cx R (m_evm m) (ContractPtr (m_contract m)) a args g))"
    "call_keeps cx m (callDone m st off n (StaticCall cx R (m_evm m) (ContractPtr (m_contract m)) a args g))"
proof -
  have e: "evm_ok cx (m_evm m)" "refValue_ok (ContractPtr (m_contract m))" using ok by (simp_all add: mach_ok_def)
  note k = call_keepsI(2) [OF ok st]
  show "static cx (m_evm m) \<longrightarrow> U256 x = 0 \<Longrightarrow>
      call_keeps cx m (callDone m st off n (Call cx R (m_evm m) (ContractPtr (m_contract m)) a args g (U256 x)))"
    by (rule k, rule Call_ok [OF R e(1) _ nonneg(1)])
  show "call_keeps cx m (callDone m st off n (CallCode cx R (m_evm m) (ContractPtr (m_contract m)) a args g (U256 x)))"
    by (rule k, rule CallCode_ok [OF R e(1) nonneg(1)])
  show "call_keeps cx m (callDone m st off n (DelegateCall cx R (m_evm m) (ContractPtr (m_contract m)) a args g))"
    by (rule k, rule DelegateCall_ok [OF R e])
  show "call_keeps cx m (callDone m st off n (StaticCall cx R (m_evm m) (ContractPtr (m_contract m)) a args g))"
    by (rule k, rule StaticCall_ok [OF R e(1)])
qed

lemma exec_rel_calls:
  "exec_rel True w opCall" "exec_rel v w opCallCode" "exec_rel v w opDelegateCall" "exec_rel v w opStaticCall"
proof -
  have I: "exec_rel v w ex" if "\<And>cx R m. runner_rel cx R \<Longrightarrow> mach_ok cx m \<Longrightarrow>
      v \<and> static cx (m_evm m) \<longrightarrow> 2 < length (m_stack m) \<and> m_stack m ! 2 = 0 \<Longrightarrow> call_keeps cx m (ex cx R m)" for v ex
    using that unfolding exec_rel_def call_keeps_def by blast
  show "exec_rel True w opCall"
    by (rule I, unfold opCall_def Let_def)
      (auto simp only: list.case split: list.split intro!: call_keepsI(1,3) call_keeps_calls,
       auto simp: numeral_2_eq_2)
  show "exec_rel v w opCallCode" "exec_rel v w opDelegateCall" "exec_rel v w opStaticCall"
    unfolding opCallCode_def opDelegateCall_def opStaticCall_def Let_def
    by (rule I; auto simp only: list.case split: list.split intro!: call_keepsI(1,3) call_keeps_calls; auto)+
qed

lemma exec_rel_Create: "exec_rel v True opCreate"
  unfolding exec_rel_def
proof (intro allI impI)
  fix cx R m res err m'
  assume R: "runner_rel cx R" and ok: "mach_ok cx m" and w: "True \<longrightarrow> \<not> static cx (m_evm m)"
    and c: "opCreate cx R m = Ok (res, err, m')"
  from c obtain x i j st inp c1 gas ret a g e jd where st: "m_stack m = x # i # j # st"
    and cr: "Create cx R (m_evm m) (ContractPtr c1) inp gas x = Ok (ret, a, g, e, jd, m_evm m')"
    and m': "c_value (m_contract m') = c_value c1" "c_value c1 = c_value (m_contract m)"
      "m_stack m' = 0 # st \<or> m_stack m' = N_Big a # st"
    by (auto simp: opCreate_def UseGas_def Let_def split: list.split_asm if_split_asm elim!: bind_res_OkE)
  have "evm_rel cx (m_evm m) (m_evm m')"
    by (rule Create_rel [OF R _ _ _ cr]) (use ok w st in \<open>auto simp: mach_ok_def\<close>)
  then show "mach_rel cx m m'" using ok m' st by (auto simp: mach_rel_def mach_ok_def)
qed

text \<open>
  Gas of the call instructions: at most the gas passed on, plus the stipend of a call that moves
  value, comes back; and the callee is given no more than that.
\<close>

definition passed :: "bool \<Rightarrow> uint64 \<Rightarrow> Machine \<Rightarrow> nat" where
  "passed v cg m = unat cg + (if v \<and> m_stack m ! 2 \<noteq> 0 then 2300 else 0)"

definition exec_call :: "bool \<Rightarrow> executionFunc \<Rightarrow> bool" where
  "exec_call v ex \<longleftrightarrow> (\<forall>cx R m cg st. m_stack m = uint cg # st \<longrightarrow>
     (\<forall>n. runner_ends n R \<longrightarrow> passed v cg m < n \<longrightarrow> ex cx R m \<noteq> NoFuel) \<and>
     (\<forall>res err m'. runner_gas R \<longrightarrow> ex cx R m = Ok (res, err, m') \<longrightarrow>
        (\<exists>g. unat g \<le> passed v cg m \<and> m_Gas m' = m_Gas m + g)))"

lemma Uint64_uint [simp]: "Uint64 (uint w) = w"
  by (simp add: Uint64_def)

text \<open>What the four instructions have in common: \<open>G\<close> is the gas they pass to the call \<open>K\<close>.\<close>

definition call_result ::
  "bool \<Rightarrow> Ctx \<Rightarrow> runner \<Rightarrow> Machine \<Rightarrow> int \<Rightarrow> (bytes \<times> vmerr option \<times> Machine) res \<Rightarrow> bool" where
  "call_result v cx R m e r \<longleftrightarrow> r = Panic \<or>
     (\<exists>st inp off n K G. r = callDone m st off n K \<and> call_form cx R inp G K \<and>
        unat G \<le> unat (Uint64 e) + (if v \<and> m_stack m ! 2 \<noteq> 0 then 2300 else 0))"

definition call_shape :: "bool \<Rightarrow> executionFunc \<Rightarrow> bool" where
  "call_shape v ex \<longleftrightarrow> (\<forall>cx R m e st. m_stack m = e # st \<longrightarrow> call_result v cx R m e (ex cx R m))"

lemma call_resultI:
  "call_result v cx R m e Panic"
  "call_form cx R inp G K \<Longrightarrow> unat G \<le> unat (Uint64 e) + (if v \<and> m_stack m ! 2 \<noteq> 0 then 2300 else 0) \<Longrightarrow>
    call_result v cx R m e (callDone m st off n K)"
  "(\<And>args. call_result v cx R m e (f args)) \<Longrightarrow> call_result v cx R m e (bind_res (mem_Get mem i j) f)"
proof -
  show "(\<And>args. call_result v cx R m e (f args)) \<Longrightarrow> call_result v cx R m e (bind_res (mem_Get mem i j) f)"
    by (cases "mem_Get mem i j") (simp_all add: call_result_def)
qed (auto simp: call_result_def)

lemma stipend_le:
  "unat (g + (if U256 x \<noteq> 0 then CallStipend else 0)) \<le> unat g + (if x \<noteq> 0 then 2300 else 0)"
  for g :: uint64
  using unat_plus_if_size [of g CallStipend] by (auto simp: word_size split: if_splits)

lemma callDone_results:
  "m_stack m ! 2 = x \<Longrightarrow> call_result True cx R m e (callDone m st off n (Call cx R evm c a args
     (Uint64 e + (if U256 x \<noteq> 0 then CallStipend else 0)) y))"
  "m_stack m ! 2 = x \<Longrightarrow> call_result True cx R m e (callDone m st off n (CallCode cx R evm c a args
     (Uint64 e + (if U256 x \<noteq> 0 then CallStipend else 0)) y))"
  "call_result False cx R m e (callDone m st off n (DelegateCall cx R evm c a args (Uint64 e)))"
  "call_result False cx R m e (callDone m st off n (StaticCall cx R evm c a args (Uint64 e)))"
  using stipend_le [of "Uint64 e" x]
  by (simp_all only: call_resultI(2) [OF calls_form(1)] call_resultI(2) [OF calls_form(2)]
      call_resultI(2) [OF calls_form(3)] call_resultI(2) [OF calls_form(4)] simp_thms if_False order_refl add_0_right)

lemma call_shapes:
  "call_shape True opCall" "call_shape True opCallCode" "call_shape False opDelegateCall"
  "call_shape False opStaticCall"
  unfolding call_shape_def opCall_def opCallCode_def opDelegateCall_def opStaticCall_def Let_def
  by (auto simp only: list.case split: list.split intro!: call_resultI(1,3) callDone_results)
    (simp_all add: numeral_2_eq_2)

lemma call_shapeE:
  assumes "call_shape v ex" "m_stack m = uint (cg :: uint64) # st"
  obtains "ex cx R m = Panic"
  | st' inp off n K G where "ex cx R m = callDone m st' off n K" "call_form cx R inp G K" "unat G \<le> passed v cg m"
  using assms unfolding call_shape_def call_result_def passed_def by fastforce

lemma exec_callI:
  assumes c: "call_shape v ex"
  shows "exec_call v ex"
  unfolding exec_call_def
proof (intro allI impI conjI)
  fix cx R m and cg :: uint64 and st n
  assume st: "m_stack m = uint cg # st" and R: "runner_ends n R" and n: "passed v cg m < n"
  show "ex cx R m \<noteq> NoFuel"
  proof (rule call_shapeE [OF c st, of cx R])
    fix st' inp off k K G
    assume x: "ex cx R m = callDone m st' off k K" and K: "call_form cx R inp G K" and G: "unat G \<le> passed v cg m"
    show ?thesis unfolding x by (rule callDone_nofuel, rule call_form_ends [OF R _ K]) (use G n in simp)
  qed simp
next
  fix cx R m and cg :: uint64 and st res err m'
  assume st: "m_stack m = uint cg # st" and R: "runner_gas R" and x: "ex cx R m = Ok (res, err, m')"
  show "\<exists>g. unat g \<le> passed v cg m \<and> m_Gas m' = m_Gas m + g"
  proof (rule call_shapeE [OF c st, of cx R])
    fix st' inp off k K G
    assume y: "ex cx R m = callDone m st' off k K" and K: "call_form cx R inp G K" and G: "unat G \<le> passed v cg m"
    from x y obtain ret g e jd where *: "K = Ok (ret, g, e, jd, m_evm m')" "m_Gas m' = m_Gas m + g"
      using callDone_OkE by metis
    have "g \<le> G" using call_form_gas [OF R] K * by blast
    with G * show ?thesis by (auto simp: word_le_nat_alt intro!: exI [of _ g])
  qed (use x in simp)
qed

text \<open>Contract creation passes on at most the gas there is, and gives the rest back.\<close>

lemma opCreate_le:
  assumes R: "runner_gas R" and x: "opCreate cx R m = Ok (res, err, m')"
  shows "m_Gas m' \<le> m_Gas m"
proof -
  let ?gas = "if cxEIP150 cx then m_Gas m - m_Gas m div 64 else m_Gas m"
  have le: "?gas \<le> m_Gas m" by (simp add: word_le_nat_alt unat_sub unat_div)
  then have u: "c_Gas (snd (UseGas (m_contract m) ?gas)) = m_Gas m - ?gas" by (auto simp: UseGas_def)
  from x obtain evm c code v ret a g e jd where
    "Create cx R evm c code ?gas v = Ok (ret, a, g, e, jd, m_evm m')"
    and m': "m_Gas m' = c_Gas (snd (UseGas (m_contract m) ?gas)) + g"
    by (auto simp: opCreate_def Let_def split: list.split_asm elim!: bind_res_OkE)
  then have "g \<le> ?gas" using Create_gas [OF R] by blast
  with le have "unat (m_Gas m - ?gas) + unat g \<le> unat (m_Gas m)"
    by (simp add: word_le_nat_alt unat_sub)
  then show ?thesis
    using le_less_trans [OF _ unat_lt64, of "unat (m_Gas m - ?gas) + unat g"]
    unfolding m' u by (simp add: word_le_nat_alt unat_add_lem [THEN iffD1])
qed

lemma opCreate_ends:
  assumes R: "runner_ends n R" and n: "unat (m_Gas m) < n"
  shows "opCreate cx R m \<noteq> NoFuel"
proof -
  have "unat (m_Gas m - m_Gas m div 64) < n"
    using n by (simp add: unat_sub word_le_nat_alt unat_div)
  with n show ?thesis
    using Create_ends [OF R]
    by (auto simp: opCreate_def Let_def res_simps split: list.splits prod.splits if_splits)
qed

text \<open>The charge of a turn.\<close>

lemma stepGas_cost:
  assumes "\<not> DisableGasMetering cx" "gas_plain w (gasCost op)" "stepGas cx op m ms = Ok (True, m1)"
  obtains c m2 where "gasCost op cx m ms = Ok (Inr c, m2)" "m_stack m1 = m_stack m2" "c \<le> m_Gas m"
    "m_Gas m1 = m_Gas m - c"
proof -
  from assms(1,3) obtain c m2 where g: "gasCost op cx m ms = Ok (Inr c, m2)"
    and u: "UseGas (m_contract m2) c = (True, m_contract m1)" "m_stack m1 = m_stack m2"
    by (auto simp: stepGas_def split: sum.split_asm prod.split_asm elim!: bind_res_OkE)
  have "m_contract m2 = m_contract m" using assms(2) g unfolding gas_plain_def by blast
  with u(1) have "UseGas (m_contract m) c = (True, m_contract m1)" by simp
  then have "\<not> m_Gas m < c" "m_contract m1 = (m_contract m)\<lparr>c_Gas := m_Gas m - c\<rparr>"
    unfolding UseGas_def by (simp_all split: if_splits)
  then have "c \<le> m_Gas m" "m_Gas m1 = m_Gas m - c" by simp_all
  with g u(2) that show thesis by blast
qed

lemma stepGas_ends:
  assumes "gas_plain w (gasCost op)"
  shows "stepGas cx op m ms \<noteq> NoFuel"
proof -
  have "gasCost op cx m ms \<noteq> NoFuel" using assms unfolding gas_plain_def by blast
  then show ?thesis by (auto simp: stepGas_def res_simps split: sum.splits prod.splits)
qed

lemma stepExec_ends:
  assumes g: "gas_plain w (gasCost op)"
    and x: "\<And>m1 mem. stepGas cx op m ms = Ok (True, m1) \<Longrightarrow> execute op cx R (m1\<lparr>m_mem := mem\<rparr>) \<noteq> NoFuel"
  shows "stepExec cx R op m ms \<noteq> NoFuel"
proof
  assume "stepExec cx R op m ms = NoFuel"
  then obtain m1 where m1: "stepGas cx op m ms = Ok (True, m1)"
    and e: "execute op cx R (if ms > 0 then m1\<lparr>m_mem := Resize (m_mem m1) ms\<rparr> else m1) = NoFuel"
    using stepGas_ends [OF g, of cx m ms]
    by (auto simp: stepExec_def Let_def res_simps split: prod.split_asm if_split_asm)
  have "(if ms > 0 then m1\<lparr>m_mem := Resize (m_mem m1) ms\<rparr> else m1) =
      m1\<lparr>m_mem := if ms > 0 then Resize (m_mem m1) ms else m_mem m1\<rparr>" by simp
  with e x [OF m1] show False by metis
qed

text \<open>
  From the contracts of its two functions, the gas of an operation: \<open>le\<close> when it may return all it
  was charged for, \<open>plain\<close>, \<open>create\<close> and \<open>call\<close> as above.
\<close>

lemma step_gasI:
  assumes g: "gas_plain w (gasCost op)"
    and x: "\<And>R m ms m1 mem res err m'. \<not> DisableGasMetering cx \<Longrightarrow> runner_gas R \<Longrightarrow>
      stepGas cx op m ms = Ok (True, m1) \<Longrightarrow> execute op cx R (m1\<lparr>m_mem := mem\<rparr>) = Ok (res, err, m') \<Longrightarrow>
      m_Gas m' < m_Gas m \<or> (halts op \<or> reverts op) \<and> m_Gas m' \<le> m_Gas m"
  shows "step_gas cx op"
  unfolding step_gas_def
proof (intro allI impI)
  fix R m ms r
  assume d: "\<not> DisableGasMetering cx" and R: "runner_gas R" and r: "stepExec cx R op m ms = Ok r"
  from r show "case r of Continue m' \<Rightarrow> m_Gas m' < m_Gas m | Halt ret err m' \<Rightarrow> m_Gas m' \<le> m_Gas m"
  proof (cases rule: stepExec_OkE)
    case (gas m1)
    then show ?thesis using stepGas_frame(4) [OF g gas(1)] by simp
  next
    case (run m1 mem res err m')
    from x [OF d R run(1,2)] have "m_Gas m' < m_Gas m \<or> (halts op \<or> reverts op) \<and> m_Gas m' \<le> m_Gas m" .
    moreover have "m_contract (stepMachine r) = m_contract m'" by (simp add: run(3) stepDone_frame)
    moreover have "\<not> halts op \<and> \<not> reverts op" if "r = Continue m2" for m2
      using that run(3) stepDone_Continue by metis
    ultimately show ?thesis by (cases r) auto
  qed
qed

definition op_good :: "Ctx \<Rightarrow> byte \<Rightarrow> operation \<Rightarrow> bool" where
  "op_good cx b op \<longleftrightarrow> step_frame cx b op \<and> step_gas cx op \<and> step_ends cx op"

lemma sub_less: "0 < c \<Longrightarrow> c \<le> g \<Longrightarrow> g - c < g" for c g :: uint64
  by (simp add: word_less_nat_alt word_le_nat_alt unat_sub)

lemma op_good_plain:
  assumes g: "gas_plain (writes op) (gasCost op)" and e: "exec_plain (writes op) (execute op)"
    and p: "halts op \<or> reverts op \<or> gas_pos (gasCost op)"
  shows "op_good cx b op"
  unfolding op_good_def
proof (intro conjI)
  show "step_frame cx b op" by (rule step_frameI [OF g exec_plain_rel [OF e]])
  show "step_gas cx op"
  proof (rule step_gasI [OF g])
    fix R m ms m1 mem res err m'
    assume d: "\<not> DisableGasMetering cx" and s: "stepGas cx op m ms = Ok (True, m1)"
      and x: "execute op cx R (m1\<lparr>m_mem := mem\<rparr>) = Ok (res, err, m')"
    have m': "m_Gas m' = m_Gas m1" using e x unfolding exec_plain_def by fastforce
    from stepGas_cost [OF d g s] obtain c m2 where c: "gasCost op cx m ms = Ok (Inr c, m2)"
      "c \<le> m_Gas m" "m_Gas m1 = m_Gas m - c" .
    have "0 < c" if "gas_pos (gasCost op)" using that c(1) unfolding gas_pos_def by blast
    with p c(2,3) sub_less [of c "m_Gas m"]
    show "m_Gas m' < m_Gas m \<or> (halts op \<or> reverts op) \<and> m_Gas m' \<le> m_Gas m"
      unfolding m' by (auto simp: word_le_nat_alt unat_sub)
  qed
  show "step_ends cx op"
    unfolding step_ends_def using stepExec_ends [OF g] e unfolding exec_plain_def by blast
qed

lemma op_good_Create:
  assumes op: "execute op = opCreate" "gasCost op = gasCreate" "writes op"
  shows "op_good cx b op"
  unfolding op_good_def
proof (intro conjI)
  have g: "gas_plain (writes op) (gasCost op)" unfolding op gas_defs by (rule gas_local)
  have lt: "m_Gas m1 < m_Gas m" if "\<not> DisableGasMetering cx" "stepGas cx op m ms = Ok (True, m1)" for m ms m1
  proof -
    from stepGas_cost [OF that(1) g that(2)] obtain c m2 where c: "gasCost op cx m ms = Ok (Inr c, m2)"
      "c \<le> m_Gas m" "m_Gas m1 = m_Gas m - c" .
    have "0 < c" using c(1) gas_pos_mem [of CreateGas] unfolding op gas_defs gas_pos_def by fastforce
    with c(2,3) sub_less show ?thesis by simp
  qed
  show "step_frame cx b op"
    by (rule step_frameI [OF g]) (simp add: op exec_rel_Create)
  show "step_gas cx op"
    by (rule step_gasI [OF g]) (use lt opCreate_le op in fastforce)
  show "step_ends cx op"
    unfolding step_ends_def
    by (intro allI impI, rule stepExec_ends [OF g]) (use lt opCreate_ends op in \<open>simp add: word_less_nat_alt\<close>)
qed

lemma passed_mem [simp]: "passed v cg (m\<lparr>m_mem := mem\<rparr>) = passed v cg m"
  by (simp add: passed_def)

lemma exec_callD:
  assumes "exec_call v ex" "m_stack m = uint (cg :: uint64) # st"
  shows "runner_ends n R \<Longrightarrow> passed v cg m < n \<Longrightarrow> ex cx R m \<noteq> NoFuel"
    "runner_gas R \<Longrightarrow> ex cx R m = Ok (res, err, m') \<Longrightarrow> \<exists>g. unat g \<le> passed v cg m \<and> m_Gas m' = m_Gas m + g"
  using assms unfolding exec_call_def by blast+

lemma op_good_call:
  assumes g: "gas_plain (writes op) (gasCost op)" and p: "gas_pass v (gasCost op)"
    and r: "exec_rel (b = opCALL) (writes op) (execute op)" and e: "exec_call v (execute op)"
  shows "op_good cx b op"
  unfolding op_good_def
proof (intro conjI)
  have charge: "\<exists>cg st c. m_stack m1 = uint (cg :: uint64) # st \<and> passed v cg m1 < unat c \<and> c \<le> m_Gas m \<and> m_Gas m1 = m_Gas m - c"
    if d: "\<not> DisableGasMetering cx" and s: "stepGas cx op m ms = Ok (True, m1)" for m ms m1
  proof -
    from stepGas_cost [OF d g s] obtain c m2 where c: "gasCost op cx m ms = Ok (Inr c, m2)"
      "m_stack m1 = m_stack m2" "c \<le> m_Gas m" "m_Gas m1 = m_Gas m - c" .
    from p c(1) obtain cg :: uint64 and st where st: "m_stack m2 = uint cg # st"
      and le: "unat cg + 40 + (if v \<and> m_stack m ! 2 \<noteq> 0 then 9000 else 0) \<le> unat c"
      unfolding gas_pass_def by blast
    have "tl (m_stack m1) = tl (m_stack m)" "length (m_stack m1) = length (m_stack m)"
      using stepGas_frame(1,2) [OF g s] by simp_all
    then have "m_stack m1 ! 2 = m_stack m ! 2"
      using c(2) st by (cases "m_stack m") (auto simp: numeral_2_eq_2)
    with le have "passed v cg m1 < unat c" by (auto simp: passed_def split: if_splits)
    with c st show ?thesis by metis
  qed
  show "step_frame cx b op" by (rule step_frameI [OF g r])
  show "step_gas cx op"
  proof (rule step_gasI [OF g])
    fix R m ms m1 mem res err m'
    assume d: "\<not> DisableGasMetering cx" and R: "runner_gas R" and s: "stepGas cx op m ms = Ok (True, m1)"
      and x: "execute op cx R (m1\<lparr>m_mem := mem\<rparr>) = Ok (res, err, m')"
    from charge [OF d s] obtain cg :: uint64 and st c where c: "m_stack m1 = uint cg # st"
      "passed v cg m1 < unat c" "c \<le> m_Gas m" "m_Gas m1 = m_Gas m - c" by blast
    have "m_stack (m1\<lparr>m_mem := mem\<rparr>) = uint cg # st" using c(1) by simp
    from exec_callD(2) [OF e this R x] obtain y where y: "unat y \<le> passed v cg m1" "m_Gas m' = m_Gas m1 + y"
      by auto
    have "unat (m_Gas m1) + unat y < unat (m_Gas m)"
      using c(2,3,4) y(1) by (simp add: word_le_nat_alt unat_sub)
    then have "m_Gas m' < m_Gas m"
      using unat_lt64 [of "m_Gas m"] unfolding y(2) by (simp add: word_less_nat_alt unat_add_lem [THEN iffD1])
    then show "m_Gas m' < m_Gas m \<or> (halts op \<or> reverts op) \<and> m_Gas m' \<le> m_Gas m" ..
  qed
  show "step_ends cx op"
    unfolding step_ends_def
  proof (intro allI impI, rule stepExec_ends [OF g])
    fix R m ms m1 mem
    assume d: "\<not> DisableGasMetering cx" and R: "runner_ends (unat (m_Gas m)) R"
      and s: "stepGas cx op m ms = Ok (True, m1)"
    from charge [OF d s] obtain cg :: uint64 and st c where c: "m_stack m1 = uint cg # st"
      "passed v cg m1 < unat c" "c \<le> m_Gas m" by blast
    have "m_stack (m1\<lparr>m_mem := mem\<rparr>) = uint cg # st" using c(1) by simp
    from exec_callD(1) [OF e this R] show "execute op cx R (m1\<lparr>m_mem := mem\<rparr>) \<noteq> NoFuel"
      using c(2,3) by (simp add: word_le_nat_alt)
  qed
qed

section \<open>The instruction tables\<close>

definition table_good :: "Ctx \<Rightarrow> jumpTable \<Rightarrow> bool" where
  "table_good cx t \<longleftrightarrow> list_all (\<lambda>(b, op). op_good cx b op) t"

lemma table_good_simps [simp]:
  "table_good cx []" "table_good cx ((b, op) # t) \<longleftrightarrow> op_good cx b op \<and> table_good cx t"
  "table_good cx (t @ t') \<longleftrightarrow> table_good cx t \<and> table_good cx t'"
  by (simp_all add: table_good_def)

lemmas entry_simps = op_good_plain plainOp_def exec_contracts gas_contracts gas_pos_const gas_pos_misc
  gas_pos_words gas_pos_mem gas_defs

lemma tables_good:
  "table_good cx arithTable" "table_good cx compareTable" "table_good cx environmentTable"
  "table_good cx blockTable" "table_good cx storageTable" "table_good cx logTable"
  by (simp_all add: arithTable_def compareTable_def environmentTable_def blockTable_def storageTable_def
      logTable_def arithOps pushOps entry_simps Let_def)

lemma entries_good: "op_good cx (fst (pushEntry n)) (snd (pushEntry n))"
  "op_good cx (fst (dupEntry n)) (snd (dupEntry n))" "op_good cx (fst (swapEntry n)) (snd (swapEntry n))"
  by (simp_all add: pushEntry_def dupEntry_def swapEntry_def entry_simps)

lemma stackTables_good:
  "table_good cx pushTable1" "table_good cx pushTable2" "table_good cx dupTable" "table_good cx swapTable"
  using entries_good
  by (auto simp: table_good_def pushTable1_def pushTable2_def dupTable_def swapTable_def list_all_iff split_beta)

lemmas call_entry = op_good_call plainOp_def gas_Call gas_CallCode gas_Delegate exec_rel_calls
  exec_callI [OF call_shapes(1)] exec_callI [OF call_shapes(2)] exec_callI [OF call_shapes(3)]
  exec_callI [OF call_shapes(4)]

lemma callTable_good: "table_good cx callTable"
proof -
  have "op_good cx opCALL ((plainOp opCall gasCall 7 1)\<lparr>memorySize := Some memoryCall, returns := True\<rparr>)"
    by (rule op_good_call [of _ True]) (simp_all add: call_entry)
  moreover have "op_good cx 0xf2 ((plainOp opCallCode gasCallCode 7 1)\<lparr>memorySize := Some memoryCall, returns := True\<rparr>)"
    by (rule op_good_call [of _ True]) (simp_all add: call_entry)
  ultimately show ?thesis
    by (simp add: callTable_def op_good_Create plainOp_def entry_simps)
qed

lemma instructionSet_good: "table_good cx (instructionSet cx)"
proof -
  have f: "table_good cx frontierInstructionSet"
    by (simp add: frontierInstructionSet_def tables_good stackTables_good callTable_good)
  have "op_good cx 0xf4 ((plainOp opDelegateCall gasDelegateCall 6 1)\<lparr>memorySize := Some memoryDelegateCall, returns := True\<rparr>)"
    by (rule op_good_call [of _ False]) (simp_all add: call_entry)
  with f have h: "table_good cx homesteadInstructionSet" by (simp add: homesteadInstructionSet_def)
  have "op_good cx 0xfa ((plainOp opStaticCall gasStaticCall 6 1)\<lparr>memorySize := Some memoryStaticCall, returns := True\<rparr>)"
    by (rule op_good_call [of _ False]) (simp_all add: call_entry)
  with h have "table_good cx byzantiumInstructionSet"
    by (simp add: byzantiumInstructionSet_def pushOps entry_simps)
  with f h show ?thesis by (simp add: instructionSet_def)
qed

lemma instructionSet_op:
  assumes "map_of (instructionSet cx) b = Some op"
  shows "op_good cx b op"
  using instructionSet_good [of cx] map_of_SomeD [OF assms] by (auto simp: table_good_def list_all_iff)

end
