(* ===== verification/EvmSafety.thy ===== *)
theory EvmSafety
  imports EvmStep
begin

text \<open>
  The interpreter as a whole. \<open>interpreter\<close> is what its callers rely on; the interpretation on
  \<open>Run\<close> discharges it by induction on the fuel, from the contracts of one turn in \<open>EvmStep\<close>. The
  properties are those of a transaction's code: nested calls that fail leave no trace, a static call
  changes nothing that can be read, gas is never created, and a run ends within its gas.
\<close>

section \<open>One turn\<close>

lemma stepOp_OkE:
  assumes "stepOp cx R m = Ok r"
  obtains (halt) err where "r = Halt [] (Some err) m"
  | (exec) op ms where "map_of (instructionSet cx) (GetOp (m_contract m) (m_pc m)) = Some op"
      "enforceRestrictions cx (m_evm m) (GetOp (m_contract m) (m_pc m)) op (m_stack m) = Ok None"
      "stepExec cx R op m ms = Ok r"
  using assms
  by (auto simp: stepOp_def Let_def split: option.split_asm sum.split_asm elim!: bind_res_OkE)

lemma stepOp_rel:
  assumes R: "runner_rel cx R" and ok: "mach_ok cx m" and r: "stepOp cx R m = Ok r"
  shows "mach_rel cx m (stepMachine r)"
  using r
proof (cases rule: stepOp_OkE)
  case (exec op ms)
  have "step_frame cx (GetOp (m_contract m) (m_pc m)) op"
    using instructionSet_op [OF exec(1)] by (simp add: op_good_def)
  then show ?thesis using R ok exec(2,3) unfolding step_frame_def by blast
qed (simp add: mach_rel_refl ok)

lemma stepOp_gas:
  assumes d: "\<not> DisableGasMetering cx" and R: "runner_gas R" and r: "stepOp cx R m = Ok r"
  shows "case r of Continue m' \<Rightarrow> m_Gas m' < m_Gas m | Halt ret err m' \<Rightarrow> m_Gas m' \<le> m_Gas m"
  using r
proof (cases rule: stepOp_OkE)
  case (exec op ms)
  have "step_gas cx op" using instructionSet_op [OF exec(1)] by (simp add: op_good_def)
  then show ?thesis using d R exec(3) unfolding step_gas_def by blast
qed simp

lemma memory_nofuel [simp]:
  "memorySha3 st \<noteq> NoFuel" "memoryCallDataCopy st \<noteq> NoFuel" "memoryReturnDataCopy st \<noteq> NoFuel"
  "memoryCodeCopy st \<noteq> NoFuel" "memoryExtCodeCopy st \<noteq> NoFuel" "memoryMLoad st \<noteq> NoFuel"
  "memoryMStore8 st \<noteq> NoFuel" "memoryMStore st \<noteq> NoFuel" "memoryCreate st \<noteq> NoFuel"
  "memoryReturn st \<noteq> NoFuel" "memoryRevert st \<noteq> NoFuel" "memoryLog st \<noteq> NoFuel" "memoryCall st \<noteq> NoFuel"
  "memoryDelegateCall st \<noteq> NoFuel" "memoryStaticCall st \<noteq> NoFuel"
  by (simp_all add: memorySha3_def memoryCallDataCopy_def memoryReturnDataCopy_def memoryCodeCopy_def
      memoryExtCodeCopy_def memoryMLoad_def memoryMStore8_def memoryMStore_def memoryCreate_def
      memoryReturn_def memoryRevert_def memoryLog_def memoryCall_def memoryDelegateCall_def
      memoryStaticCall_def res_simps)

lemma stepMemory_nofuel:
  assumes "map_of (instructionSet cx) b = Some op"
  shows "stepMemory op st \<noteq> NoFuel"
proof -
  let ?P = "\<lambda>(b :: byte, op). \<forall>f st. memorySize op = Some f \<longrightarrow> f st \<noteq> NoFuel"
  have s: "list_all ?P pushTable1" "list_all ?P pushTable2" "list_all ?P dupTable" "list_all ?P swapTable"
    by (auto simp: pushTable1_def pushTable2_def dupTable_def swapTable_def pushEntry_def dupEntry_def
        swapEntry_def plainOp_def list_all_iff)
  have t: "list_all ?P arithTable" "list_all ?P compareTable" "list_all ?P environmentTable"
    "list_all ?P blockTable" "list_all ?P storageTable" "list_all ?P logTable" "list_all ?P callTable"
    by (auto simp: plainOp_def arithTable_def compareTable_def environmentTable_def blockTable_def
        storageTable_def logTable_def callTable_def)
  have f: "list_all ?P frontierInstructionSet" by (simp only: frontierInstructionSet_def list_all_append s t simp_thms)
  then have h: "list_all ?P homesteadInstructionSet" by (auto simp: homesteadInstructionSet_def plainOp_def)
  then have "list_all ?P byzantiumInstructionSet" by (auto simp: byzantiumInstructionSet_def plainOp_def)
  with f h have "list_all ?P (instructionSet cx)" by (simp add: instructionSet_def)
  with map_of_SomeD [OF assms] have "\<forall>f st. memorySize op = Some f \<longrightarrow> f st \<noteq> NoFuel"
    by (auto simp: list_all_iff)
  then show ?thesis by (auto simp: stepMemory_def res_simps split: option.splits)
qed

lemma stepOp_ends:
  assumes d: "\<not> DisableGasMetering cx" and R: "runner_ends (unat (m_Gas m)) R"
  shows "stepOp cx R m \<noteq> NoFuel"
proof -
  have "stepExec cx R op m ms \<noteq> NoFuel"
    if "map_of (instructionSet cx) (GetOp (m_contract m) (m_pc m)) = Some op" for op ms
    using instructionSet_op [OF that] d R unfolding op_good_def step_ends_def by blast
  then show ?thesis
    using stepMemory_nofuel
    by (auto simp: stepOp_def enforceRestrictions_def Let_def res_simps split: option.splits sum.splits if_splits)
qed

section \<open>The loop\<close>

lemma interpRun_rel:
  assumes l: "\<And>m ret err m'. mach_ok cx m \<Longrightarrow> loop m = Ok (ret, err, m') \<Longrightarrow> mach_rel cx m m'"
    and p: "0 \<le> GasPrice cx"
  shows "runner_rel cx (interpRun cx loop)"
  unfolding runner_rel_def
proof (intro allI impI)
  fix evm c inp ret err c' evm'
  assume ok: "evm_ok cx evm" and v: "0 \<le> c_value c" and r: "interpRun cx loop evm c inp = Ok (ret, err, c', evm')"
  let ?evm1 = "evm\<lparr>depth := depth evm + 1, returnData := []\<rparr>"
  let ?m = "\<lparr>m_evm = ?evm1, m_contract = c\<lparr>c_Input := inp\<rparr>, m_mem = NewMemory, m_stack = [], m_pc = 0\<rparr>"
  show "evm_rel cx evm evm'"
  proof (cases "length (c_Code c) = 0")
    case True
    then show ?thesis using r evm_rel_refl [OF ok] by (auto simp: interpRun_def evm_rel_def)
  next
    case False
    then obtain m' where m': "loop ?m = Ok (ret, err, m')" "evm' = (m_evm m')\<lparr>depth := depth (m_evm m') - 1\<rparr>"
      using r by (auto simp: interpRun_def Let_def elim!: bind_res_OkE)
    have "mach_rel cx ?m m'" by (rule l [OF _ m'(1)]) (simp add: mach_ok_def ok v p)
    then show ?thesis by (simp add: mach_rel_def evm_rel_def m'(2))
  qed
qed

lemma runLoop_rel: "mach_ok cx m \<Longrightarrow> runLoop n cx m = Ok (ret, err, m') \<Longrightarrow> mach_rel cx m m'"
proof (induction n arbitrary: m ret err m')
  case (Suc n)
  show ?case
  proof (cases "abort (m_evm m)")
    case True
    then show ?thesis using Suc.prems mach_rel_refl by auto
  next
    case False
    then obtain r where r: "stepOp cx (interpRun cx (runLoop n cx)) m = Ok r"
      and k: "(case r of Continue m1 \<Rightarrow> runLoop n cx m1 | Halt ret err m1 \<Rightarrow> Ok (ret, err, m1)) = Ok (ret, err, m')"
      using Suc.prems(2) by (auto elim!: bind_res_OkE)
    have "0 \<le> GasPrice cx" using Suc.prems(1) by (simp add: mach_ok_def)
    from interpRun_rel [OF Suc.IH this] have R: "runner_rel cx (interpRun cx (runLoop n cx))" .
    note s = stepOp_rel [OF R Suc.prems(1) r]
    show ?thesis
    proof (cases r)
      case (Continue m1)
      then have s1: "mach_rel cx m m1" and k1: "runLoop n cx m1 = Ok (ret, err, m')" using s k by simp_all
      show ?thesis by (rule mach_rel_trans [OF s1 Suc.IH [OF mach_rel_ok [OF Suc.prems(1) s1] k1]])
    next
      case (Halt x1 x2 m1)
      then show ?thesis using s k by simp
    qed
  qed
qed simp

lemma interpRun_gas:
  assumes "\<And>m ret err m'. loop m = Ok (ret, err, m') \<Longrightarrow> m_Gas m' \<le> m_Gas m"
  shows "runner_gas (interpRun cx loop)"
  unfolding runner_gas_def using assms
  by (fastforce simp: interpRun_def Let_def split: if_split_asm elim!: bind_res_OkE)

lemma runLoop_gas:
  assumes d: "\<not> DisableGasMetering cx"
  shows "runLoop n cx m = Ok (ret, err, m') \<Longrightarrow> m_Gas m' \<le> m_Gas m"
proof (induction n arbitrary: m ret err m')
  case (Suc n)
  show ?case
  proof (cases "abort (m_evm m)")
    case False
    then obtain r where r: "stepOp cx (interpRun cx (runLoop n cx)) m = Ok r"
      and k: "(case r of Continue m1 \<Rightarrow> runLoop n cx m1 | Halt ret err m1 \<Rightarrow> Ok (ret, err, m1)) = Ok (ret, err, m')"
      using Suc.prems by (auto elim!: bind_res_OkE)
    have "runner_gas (interpRun cx (runLoop n cx))" by (rule interpRun_gas) (rule Suc.IH)
    from stepOp_gas [OF d this r] k Suc.IH show ?thesis by (cases r) fastforce+
  qed (use Suc.prems in simp)
qed simp

lemma interpRun_ends:
  assumes "\<And>m. unat (m_Gas m) < n \<Longrightarrow> loop m \<noteq> NoFuel"
  shows "runner_ends n (interpRun cx loop)"
  unfolding runner_ends_def using assms
  by (auto simp: interpRun_def Let_def res_simps split: prod.splits)

lemma runLoop_ends:
  assumes d: "\<not> DisableGasMetering cx"
  shows "unat (m_Gas m) < n \<Longrightarrow> runLoop n cx m \<noteq> NoFuel"
proof (induction n arbitrary: m)
  case (Suc n)
  have "runner_ends n (interpRun cx (runLoop n cx))" by (rule interpRun_ends) (rule Suc.IH)
  then have e: "runner_ends (unat (m_Gas m)) (interpRun cx (runLoop n cx))"
    using Suc.prems unfolding runner_ends_def by auto
  have g: "runner_gas (interpRun cx (runLoop n cx))" by (rule interpRun_gas) (rule runLoop_gas [OF d])
  have c: "runLoop n cx m1 \<noteq> NoFuel" if "stepOp cx (interpRun cx (runLoop n cx)) m = Ok (Continue m1)" for m1
    using stepOp_gas [OF d g that] Suc.prems by (intro Suc.IH) (simp add: word_less_nat_alt)
  show ?case
    using stepOp_ends [OF d e] c by (auto simp: res_simps split: StepResult.splits)
qed simp

section \<open>More fuel changes nothing\<close>

definition le_res :: "'a res \<Rightarrow> 'a res \<Rightarrow> bool" where
  "le_res r r' \<longleftrightarrow> r = NoFuel \<or> r = r'"

definition le_runner :: "runner \<Rightarrow> runner \<Rightarrow> bool" where
  "le_runner R R' \<longleftrightarrow> (\<forall>evm c inp. le_res (R evm c inp) (R' evm c inp))"

lemma le_res_refl [simp]: "le_res r r"
  by (simp add: le_res_def)

lemma le_res_bind:
  "le_res r r' \<Longrightarrow> (\<And>x. le_res (f x) (f' x)) \<Longrightarrow> le_res (bind_res r f) (bind_res r' f')"
  by (cases r; cases r') (auto simp: le_res_def)

lemma le_res_if: "(c \<Longrightarrow> le_res a a') \<Longrightarrow> (\<not> c \<Longrightarrow> le_res b b') \<Longrightarrow> le_res (if c then a else b) (if c then a' else b')"
  by simp

lemma le_res_prod: "(\<And>x y. le_res (f x y) (f' x y)) \<Longrightarrow> le_res (case p of (x, y) \<Rightarrow> f x y) (case p of (x, y) \<Rightarrow> f' x y)"
  by (cases p) simp

lemma le_res_list:
  "le_res a a' \<Longrightarrow> (\<And>x xs. le_res (f x xs) (f' x xs)) \<Longrightarrow>
    le_res (case st of [] \<Rightarrow> a | x # xs \<Rightarrow> f x xs) (case st of [] \<Rightarrow> a' | x # xs \<Rightarrow> f' x xs)"
  by (cases st) simp_all

lemmas le_res_intros = le_res_refl le_res_bind le_res_if le_res_prod le_res_list

lemma evm_run_mono: "le_runner R R' \<Longrightarrow> le_res (evm_run cx R evm c inp) (evm_run cx R' evm c inp)"
  by (simp add: evm_run_def le_runner_def split: option.split)

lemma calls_mono:
  assumes "le_runner R R'"
  shows "le_res (Call cx R evm caller addr inp gas value) (Call cx R' evm caller addr inp gas value)"
    "le_res (CallCode cx R evm caller addr inp gas value) (CallCode cx R' evm caller addr inp gas value)"
    "le_res (DelegateCall cx R evm caller addr inp gas) (DelegateCall cx R' evm caller addr inp gas)"
    "le_res (StaticCall cx R evm caller addr inp gas) (StaticCall cx R' evm caller addr inp gas)"
    "le_res (Create cx R evm caller code gas value) (Create cx R' evm caller code gas value)"
  unfolding Call_def CallCode_def DelegateCall_def StaticCall_def Create_def clearReadOnly_def Let_def
  by (intro le_res_intros evm_run_mono [OF assms])+

definition exec_mono :: "executionFunc \<Rightarrow> bool" where
  "exec_mono ex \<longleftrightarrow> (\<forall>cx R R' m. le_runner R R' \<longrightarrow> le_res (ex cx R m) (ex cx R' m))"

lemma exec_mono_const: "(\<And>cx R R' m. ex cx R m = ex cx R' m) \<Longrightarrow> exec_mono ex"
  unfolding exec_mono_def by (metis le_res_refl)

lemma mono_shapes:
  "exec_mono (pushOp v)" "exec_mono (unOp f)" "exec_mono (binOp g)" "exec_mono (triOp h)"
  "exec_mono opSignExtend" "exec_mono opBlockhash" "exec_mono opPop" "exec_mono opJumpdest" "exec_mono opStop"
  "exec_mono (makePush a z)" "exec_mono (makeDup k)" "exec_mono (makeSwap k)" "exec_mono (makeLog k)"
  by (rule exec_mono_const; simp add: pushOp_def unOp_def binOp_def triOp_def opSignExtend_def opBlockhash_def
      opPop_def opJumpdest_def opStop_def makePush_def makeDup_def makeSwap_def makeLog_def)+

lemma mono_state:
  "exec_mono opCallDataLoad" "exec_mono opCallDataCopy" "exec_mono opReturnDataCopy" "exec_mono opCodeCopy"
  "exec_mono opMload" "exec_mono opMstore" "exec_mono opMstore8" "exec_mono opReturn" "exec_mono opRevert"
  "exec_mono opJump" "exec_mono opJumpi" "exec_mono opBalance" "exec_mono opExtCodeSize" "exec_mono opSload"
  "exec_mono opExtCodeCopy" "exec_mono opSha3" "exec_mono opSstore" "exec_mono opSuicide"
  by (rule exec_mono_const; simp add: opCallDataLoad_def opCallDataCopy_def opReturnDataCopy_def opCodeCopy_def
      opMload_def opMstore_def opMstore8_def opReturn_def opRevert_def opJump_def opJumpi_def opBalance_def
      opExtCodeSize_def opSload_def opExtCodeCopy_def opSha3_def opSstore_def opSuicide_def)+

lemma mono_calls:
  "exec_mono opCall" "exec_mono opCallCode" "exec_mono opDelegateCall" "exec_mono opStaticCall" "exec_mono opCreate"
  unfolding exec_mono_def opCall_def opCallCode_def opDelegateCall_def opStaticCall_def opCreate_def
    callDone_def Let_def
  by (intro allI impI le_res_intros calls_mono; assumption)+

lemma table_mono:
  assumes "map_of (instructionSet cx) b = Some op"
  shows "exec_mono (execute op)"
proof -
  let ?P = "\<lambda>(b :: byte, op). exec_mono (execute op)"
  have s: "list_all ?P pushTable1" "list_all ?P pushTable2" "list_all ?P dupTable" "list_all ?P swapTable"
    by (auto simp: pushTable1_def pushTable2_def dupTable_def swapTable_def pushEntry_def dupEntry_def
        swapEntry_def plainOp_def list_all_iff mono_shapes)
  have t: "list_all ?P arithTable" "list_all ?P compareTable" "list_all ?P environmentTable"
    "list_all ?P blockTable" "list_all ?P storageTable" "list_all ?P logTable" "list_all ?P callTable"
    by (simp_all add: plainOp_def arithTable_def compareTable_def environmentTable_def blockTable_def
        storageTable_def logTable_def callTable_def arithOps pushOps mono_shapes mono_state mono_calls)
  have f: "list_all ?P frontierInstructionSet" by (simp only: frontierInstructionSet_def list_all_append s t simp_thms)
  then have h: "list_all ?P homesteadInstructionSet"
    by (simp add: homesteadInstructionSet_def plainOp_def mono_calls)
  then have "list_all ?P byzantiumInstructionSet"
    by (simp add: byzantiumInstructionSet_def plainOp_def pushOps mono_shapes mono_state mono_calls)
  with f h have "list_all ?P (instructionSet cx)" by (simp add: instructionSet_def)
  with map_of_SomeD [OF assms] show ?thesis by (auto simp: list_all_iff)
qed

lemma stepOp_mono:
  assumes "le_runner R R'"
  shows "le_res (stepOp cx R m) (stepOp cx R' m)"
proof -
  have "le_res (stepExec cx R op m ms) (stepExec cx R' op m ms)"
    if "map_of (instructionSet cx) (GetOp (m_contract m) (m_pc m)) = Some op" for op ms
    unfolding stepExec_def Let_def
    by (intro le_res_intros) (use table_mono [OF that] assms in \<open>simp_all add: exec_mono_def\<close>)
  then show ?thesis
    unfolding stepOp_def Let_def
    by (auto split: option.split sum.split intro!: le_res_bind)
qed

lemma runLoop_mono: "le_res (runLoop n cx m) (runLoop (Suc n) cx m)"
proof (induction n arbitrary: m)
  case 0
  then show ?case by (simp add: le_res_def)
next
  case (Suc n)
  have "le_runner (interpRun cx (runLoop n cx)) (interpRun cx (runLoop (Suc n) cx))"
    unfolding le_runner_def interpRun_def Let_def by (intro allI le_res_intros Suc.IH)
  from stepOp_mono [OF this, of cx m] show ?case
    unfolding runLoop.simps(2) [of "Suc n"] runLoop.simps(2) [of n cx m]
    by (intro le_res_if le_res_refl le_res_bind) (auto split: StepResult.split intro: Suc.IH simp del: runLoop.simps)
qed

lemma runLoop_fuel:
  assumes "runLoop n cx m \<noteq> NoFuel" "n \<le> k"
  shows "runLoop k cx m = runLoop n cx m"
  using assms(2)
proof (induction k rule: dec_induct)
  case (step k)
  then show ?case using runLoop_mono [of k cx m] assms(1) by (simp add: le_res_def)
qed simp

section \<open>What the callers of the interpreter rely on\<close>

locale interpreter =
  fixes cx :: Ctx and R :: runner
  assumes frame: "0 \<le> GasPrice cx \<Longrightarrow> db_ok (cx_ext cx) (db evm) \<Longrightarrow> 0 \<le> c_value c \<Longrightarrow>
      R evm c inp = Ok (ret, err, c', evm') \<Longrightarrow> evm_rel cx evm evm'"
    and gas: "\<not> DisableGasMetering cx \<Longrightarrow> R evm c inp = Ok (ret, err, c', evm') \<Longrightarrow> c_Gas c' \<le> c_Gas c"
begin

lemma rel: "0 \<le> GasPrice cx \<Longrightarrow> runner_rel cx R"
  unfolding runner_rel_def using frame by blast

lemma call:
  assumes "0 \<le> GasPrice cx" "db_ok (cx_ext cx) (db evm)" "static cx evm \<longrightarrow> value = 0" "0 \<le> value"
    and "Call cx R evm caller addr inp g value = Ok (ret, g', err, jd, evm')"
  shows "call_ok cx evm err evm'"
  by (rule Call_ok [OF rel [OF assms(1)] assms(2-5)])

lemma static_call:
  assumes "0 \<le> GasPrice cx" "db_ok (cx_ext cx) (db evm)" "cxByzantium cx"
    and "StaticCall cx R evm caller addr inp g = Ok (ret, g', err, jd, evm')"
  shows "sameview (cx_ext cx) (db evm) (db evm')"
  using StaticCall_body(1) [OF rel [OF assms(1)] assms(2,4)] assms(3) by (simp add: jrel_def)

lemma revertible:
  assumes p: "0 \<le> GasPrice cx" and ok: "db_ok (cx_ext cx) (db evm)" and v: "0 \<le> c_value c"
    and i: "Snapshot (db evm) = (i, s1)"
    and r: "R (evm\<lparr>db := s1\<rparr>) c inp = Ok (ret, err, c', evm')"
  shows "\<exists>s. RevertToSnapshot (cx_ext cx) (db evm') i = Ok s \<and> world (cx_ext cx) s = world (cx_ext cx) (db evm)"
proof -
  have "db_ok (cx_ext cx) s1" by (rule jrel_ok [OF jrel_Snapshot [OF ok i]])
  then have "evm_rel cx (evm\<lparr>db := s1\<rparr>) evm'" using frame [OF p _ v r] by simp
  then have "journalled (cx_ext cx) s1 (db evm')" by (simp add: evm_rel_def jrel_def)
  from db.revert_ok [OF db_okD(1) [OF ok] i this] show ?thesis by blast
qed

lemma call_gas:
  assumes "\<not> DisableGasMetering cx" "Call cx R evm caller addr inp g value = Ok (ret, g', err, jd, evm')"
  shows "g' \<le> g"
proof -
  have "runner_gas R" unfolding runner_gas_def using gas [OF assms(1)] by blast
  then show ?thesis using call_form_gas [of R cx inp g ret g' err jd evm'] calls_form(1) [of cx R inp g evm caller addr "value"]
      assms(2) by simp
qed

end

interpretation run: interpreter cx "Run n cx" for cx n
proof
  fix evm c inp ret err c' evm'
  assume r: "Run n cx evm c inp = Ok (ret, err, c', evm')"
  show "evm_rel cx evm evm'" if "0 \<le> GasPrice cx" "db_ok (cx_ext cx) (db evm)" "0 \<le> c_value c"
    using interpRun_rel [of cx "runLoop n cx"] runLoop_rel that r unfolding Run_def runner_rel_def by blast
  show "c_Gas c' \<le> c_Gas c" if "\<not> DisableGasMetering cx"
    using interpRun_gas [of "runLoop n cx" cx] runLoop_gas [OF that] r unfolding Run_def runner_gas_def by blast
qed

lemma Run_ends:
  assumes "\<not> DisableGasMetering cx" "unat (c_Gas c) < n"
  shows "Run n cx evm c inp \<noteq> NoFuel" "n \<le> k \<Longrightarrow> Run k cx evm c inp = Run n cx evm c inp"
proof -
  define m where "m = \<lparr>m_evm = evm\<lparr>depth := depth evm + 1, returnData := []\<rparr>, m_contract = c\<lparr>c_Input := inp\<rparr>,
    m_mem = NewMemory, m_stack = [], m_pc = 0\<rparr>"
  have r: "Run k cx evm c inp = (if length (c_Code c) = 0 then Ok ([], None, c, evm\<lparr>returnData := []\<rparr>)
      else bind_res (runLoop k cx m) (\<lambda>(ret, err, m). Ok (ret, err, m_contract m, (m_evm m)\<lparr>depth := depth (m_evm m) - 1\<rparr>)))"
    for k by (simp add: Run_def interpRun_def Let_def m_def)
  have e: "runLoop n cx m \<noteq> NoFuel" by (rule runLoop_ends [OF assms(1)]) (simp add: m_def assms(2))
  show "Run n cx evm c inp \<noteq> NoFuel" unfolding r using e by (simp add: res_simps split_beta)
  show "Run k cx evm c inp = Run n cx evm c inp" if "n \<le> k"
    unfolding r runLoop_fuel [OF e that] by simp
qed

lemma settle_burns:
  "settle cx i (ret, err, c, evm) = Ok (ret', g, Some e, jd, evm') \<Longrightarrow> e \<noteq> ErrExecutionReverted \<Longrightarrow> g = 0"
  by (auto simp: settle_def Let_def UseGas_def split: if_split_asm elim!: bind_res_OkE)

lemma Call_burns:
  assumes c: "Call cx R evm caller addr inp gas value = Ok (ret, g, Some e, jd, evm')"
    and e: "e \<notin> {ErrExecutionReverted, ErrDepth, ErrInsufficientBalance}"
  shows "g = 0"
proof -
  have "\<exists>evm2 ct i. bind_res (evm_run cx R evm2 ct inp) (settle cx i) = Ok (ret, g, Some e, jd, evm')"
    using c e by (auto simp: Call_def Let_def split: if_split_asm prod.split_asm)
  then show ?thesis using settle_burns e by (fastforce elim!: bind_res_OkE)
qed

section \<open>An environment for evaluation\<close>

text \<open>All forks active, an empty database, stand-ins for the cryptography.\<close>

definition plainCtx :: Ctx where
  "plainCtx = \<lparr>cx_ext = plainExt, GetHash = (\<lambda>_. zeroHash), Origin = [], GasPrice = 1, Coinbase = [],
     GasLimit = 5000, BlockNumber = 1, Time = 0, Difficulty = 0,
     chainConfig = \<lparr>ChainId = Some 1, HomesteadBlock = Some 0, DAOForkBlock = None, DAOForkSupport = False,
       EIP150Block = Some 0, EIP150Hash = zeroHash, EIP155Block = Some 0, EIP158Block = Some 0,
       ByzantiumBlock = Some 0\<rparr>,
     NoRecursion = False, DisableGasMetering = False, EnablePreimageRecording = False,
     Ecrecover = (\<lambda>_ _. None), sha256Sum = (\<lambda>b. b), ripemd160Sum = (\<lambda>b. b),
     bn256AddRun = (\<lambda>b. (b, None)), bn256ScalarMulRun = (\<lambda>b. (b, None)), bn256PairingRun = (\<lambda>b. (b, None))\<rparr>"

definition plainEVM :: EVM where
  "plainEVM = \<lparr>db = plainDB, depth = 0, abort = False, readOnly = False, returnData = []\<rparr>"

definition plainContract :: "bytes \<Rightarrow> uint64 \<Rightarrow> Contract" where
  "plainContract code gas = SetCallCode (NewContract (AccountRef []) [] 0 gas) [] zeroHash code"

lemma plainDB_ok: "db_ok plainExt plainDB"
  using plain_ok
  by (auto simp: db_ok_def sane_def bal_def acctOr_def emptyView_def world_def lookupObject_def loadObject_def
      plainExt_def plainDB_def emptyTrie_def)

lemma plainEVM_ok: "db_ok (cx_ext plainCtx) (db plainEVM)"
  by (simp add: plainCtx_def plainEVM_def plainDB_ok)

lemma plainCtx_price: "0 \<le> GasPrice plainCtx"
  by (simp add: plainCtx_def)

text \<open>The same with a contract at the address 7.\<close>

definition codeEVM :: "bytes \<Rightarrow> EVM" where
  "codeEVM code = plainEVM\<lparr>db := SetCode plainExt plainDB [7] code\<rparr>"

lemma codeEVM_ok: "db_ok (cx_ext plainCtx) (db (codeEVM code))"
  using jrel_ok [OF jrel_writers(2) [OF plainDB_ok, of False]] by (simp add: codeEVM_def plainCtx_def)

text \<open>The same with money at the address 5.\<close>

definition richEVM :: EVM where
  "richEVM = plainEVM\<lparr>db := AddBalance plainExt plainDB [5] 1000000\<rparr>"

lemma richEVM_ok: "db_ok (cx_ext plainCtx) (db richEVM)"
proof -
  note w = db_okD(2) [OF plainDB_ok]
  have "wf_db plainExt (AddBalance plainExt plainDB [5] 1000000)"
    by (rule journalled_wf_db [OF plain_ok AddBalance_spec(1) [OF w]])
  moreover have "sane plainExt (AddBalance plainExt plainDB [5] 1000000)"
    using db_okD(3) [OF plainDB_ok] by (auto simp: sane_def bal_write [OF w] refund_write [OF w])
  ultimately show ?thesis by (simp add: db_ok_def richEVM_def plainCtx_def)
qed

section \<open>Properties\<close>

text \<open>
  C3. A call that fails leaves no trace: whatever the code it ran did, nested calls included, the
  accounts, logs, preimages and the refund counter read as before the call, the call depth and the
  read-only flag are restored, and unless it was a revert (or failed before it started) all the gas
  passed to it is gone.
\<close>

theorem failed_call_restores:
  assumes "0 \<le> GasPrice cx" "db_ok (cx_ext cx) (db evm)" "cxByzantium cx \<and> readOnly evm \<longrightarrow> value = 0" "0 \<le> value"
    and "Call cx (Run n cx) evm caller addr inp gas value = Ok (ret, g, Some e, jd, evm')"
  shows "world (cx_ext cx) (db evm') = world (cx_ext cx) (db evm) \<and> depth evm' = depth evm \<and>
    readOnly evm' = readOnly evm \<and>
    (e \<notin> {ErrExecutionReverted, ErrDepth, ErrInsufficientBalance} \<longrightarrow> g = 0)"
  using run.call [OF assms] Call_burns [OF assms(5)]
  by (auto simp: call_ok_def evm_rel_def)

theorem failed_call_restores_witness:
  "\<exists>ret jd evm'. Call plainCtx (Run 11 plainCtx) plainEVM (AccountRef []) (BytesToAddress plainExt [1]) [] 10 0 =
      Ok (ret, 0, Some ErrOutOfGas, jd, evm') \<and> world plainExt (db evm') = world plainExt (db plainEVM)"
proof -
  have "case Call plainCtx (Run 11 plainCtx) plainEVM (AccountRef []) (BytesToAddress plainExt [1]) [] 10 0 of
      Ok (ret, g, err, jd, e) \<Rightarrow> err = Some ErrOutOfGas \<and> g = 0 | _ \<Rightarrow> False" by code_simp
  then obtain ret jd evm' where *: "Call plainCtx (Run 11 plainCtx) plainEVM (AccountRef [])
      (BytesToAddress plainExt [1]) [] 10 0 = Ok (ret, 0, Some ErrOutOfGas, jd, evm')"
    by (auto split: res.split_asm)
  from failed_call_restores [OF plainCtx_price plainEVM_ok _ _ *] show ?thesis using * by (simp add: plainCtx_def)
qed

text \<open>
  C4. A static call changes nothing that any contract can read: after it, successful or not, and
  whatever code it ran, every account has the balance, nonce, code, storage and suicide mark it had
  (an account that did not exist may exist, but reads as empty), and no log and no refund was added.
\<close>

theorem static_call_pure:
  assumes "0 \<le> GasPrice cx" "db_ok (cx_ext cx) (db evm)" "cxByzantium cx"
    and "StaticCall cx (Run n cx) evm caller addr inp gas = Ok (ret, g, err, jd, evm')"
  shows "(\<forall>a. acctOr (cx_ext cx) (world (cx_ext cx) (db evm')) a = acctOr (cx_ext cx) (world (cx_ext cx) (db evm)) a) \<and>
    w_logs (world (cx_ext cx) (db evm')) = w_logs (world (cx_ext cx) (db evm)) \<and>
    w_refund (world (cx_ext cx) (db evm')) = w_refund (world (cx_ext cx) (db evm))"
  using run.static_call [OF assms] by (simp add: sameview_def)

text \<open>The contract executes \<^verbatim>\<open>PUSH1 1 PUSH1 0 SSTORE\<close>, which the static call rejects.\<close>

theorem static_call_pure_witness:
  "\<exists>ret jd evm'. StaticCall plainCtx (Run 50 plainCtx) (codeEVM [0x60, 1, 0x60, 0, 0x55]) (AccountRef []) [7] [] 30 =
      Ok (ret, 0, Some ErrWriteProtection, jd, evm') \<and>
    acctOr plainExt (world plainExt (db evm')) [7] =
      acctOr plainExt (world plainExt (db (codeEVM [0x60, 1, 0x60, 0, 0x55]))) [7]"
proof -
  have "case StaticCall plainCtx (Run 50 plainCtx) (codeEVM [0x60, 1, 0x60, 0, 0x55]) (AccountRef []) [7] [] 30 of
      Ok (ret, g, err, jd, e) \<Rightarrow> err = Some ErrWriteProtection \<and> g = 0 | _ \<Rightarrow> False" by code_simp
  then obtain ret jd evm' where *: "StaticCall plainCtx (Run 50 plainCtx) (codeEVM [0x60, 1, 0x60, 0, 0x55])
      (AccountRef []) [7] [] 30 = Ok (ret, 0, Some ErrWriteProtection, jd, evm')"
    by (auto split: res.split_asm)
  have b: "cxByzantium plainCtx" by code_simp
  from static_call_pure [OF plainCtx_price codeEVM_ok b *] show ?thesis using * by (simp add: plainCtx_def)
qed

text \<open>
  C7. Execution is revertible: a snapshot taken before the interpreter runs can be reverted to after
  it, whatever the code did and however it ended, and gives back the state of the snapshot.
\<close>

theorem Run_revertible:
  assumes "0 \<le> GasPrice cx" "db_ok (cx_ext cx) (db evm)" "0 \<le> c_value c" "Snapshot (db evm) = (i, s1)"
    and "Run n cx (evm\<lparr>db := s1\<rparr>) c inp = Ok (ret, err, c', evm')"
  shows "\<exists>s. RevertToSnapshot (cx_ext cx) (db evm') i = Ok s \<and> world (cx_ext cx) s = world (cx_ext cx) (db evm)"
  by (rule run.revertible [OF assms])

theorem Run_revertible_witness:
  "\<exists>ret c' evm' s. Run 10 plainCtx (plainEVM\<lparr>db := snd (Snapshot plainDB)\<rparr>)
      (plainContract [0x60, 1, 0x60, 0, 0x55] 30000) [] = Ok (ret, None, c', evm') \<and>
    RevertToSnapshot plainExt (db evm') 0 = Ok s \<and> world plainExt s = world plainExt plainDB"
proof -
  have "case Run 10 plainCtx (plainEVM\<lparr>db := snd (Snapshot plainDB)\<rparr>)
      (plainContract [0x60, 1, 0x60, 0, 0x55] 30000) [] of
      Ok (ret, err, c, e) \<Rightarrow> err = None \<and> c_Gas c = 9994 | _ \<Rightarrow> False" by code_simp
  then obtain ret c' evm' where *: "Run 10 plainCtx (plainEVM\<lparr>db := snd (Snapshot plainDB)\<rparr>)
      (plainContract [0x60, 1, 0x60, 0, 0x55] 30000) [] = Ok (ret, None, c', evm')"
    by (auto split: res.split_asm)
  have "Snapshot (db plainEVM) = (0, snd (Snapshot plainDB))" by (simp add: plainEVM_def plainDB_def Snapshot_def)
  from Run_revertible [OF plainCtx_price plainEVM_ok _ this *] * show ?thesis by (auto simp: plainCtx_def plainEVM_def plainContract_def SetCallCode_def NewContract_def)
qed

text \<open>
  C6. Gas is never created: the interpreter returns at most the gas its contract had, and so does
  every call made on the way.
\<close>

theorem Run_gas:
  assumes "\<not> DisableGasMetering cx" "Run n cx evm c inp = Ok (ret, err, c', evm')"
  shows "c_Gas c' \<le> c_Gas c"
  by (rule run.gas [OF assms])

theorem Run_gas_witness:
  "case Run 10 plainCtx plainEVM (plainContract [0x60, 1, 0x60, 0, 0x01] 9) [] of
     Ok (ret, err, c', evm') \<Rightarrow> c_Gas c' \<le> 9 \<and> err = None | _ \<Rightarrow> False"
proof -
  let ?c = "plainContract [0x60, 1, 0x60, 0, 0x01] 9"
  have 1: "case Run 10 plainCtx plainEVM ?c [] of Ok (ret, err, c', evm') \<Rightarrow> err = None | _ \<Rightarrow> False"
    by code_simp
  have "\<not> DisableGasMetering plainCtx" "c_Gas ?c = 9"
    by (simp_all add: plainCtx_def plainContract_def SetCallCode_def NewContract_def)
  then have "c_Gas c' \<le> 9" if "Run 10 plainCtx plainEVM ?c [] = Ok (ret, err, c', evm')" for ret err c' evm'
    using Run_gas [OF _ that] by simp
  with 1 show ?thesis by (auto split: res.split prod.split)
qed

text \<open>
  C5. Execution ends within its gas: with more fuel than the contract has gas the interpreter returns
  (or panics), every instruction and every nested call included, and the result does not depend on
  the fuel any more.
\<close>

theorem Run_terminates:
  assumes "\<not> DisableGasMetering cx" "unat (c_Gas c) < n"
  shows "Run n cx evm c inp \<noteq> NoFuel \<and> (\<forall>k \<ge> n. Run k cx evm c inp = Run n cx evm c inp)"
  using Run_ends [OF assms] by blast

theorem Run_terminates_witness:
  "Run 40 plainCtx plainEVM (plainContract [0x5b, 0x60, 0, 0x56] 30) [] \<noteq> NoFuel"
proof -
  have "\<not> DisableGasMetering plainCtx" "unat (c_Gas (plainContract [0x5b, 0x60, 0, 0x56] 30)) < 40"
    by (simp_all add: plainCtx_def plainContract_def SetCallCode_def NewContract_def)
  from Run_terminates [OF this] show ?thesis by blast
qed

text \<open>
  C14. No call creates value: whatever code it runs, nested calls, creations and suicides included, no
  balance becomes negative, only finitely many accounts change, and together with any finite set of
  others these hold at most what they held before.
\<close>

theorem call_creates_no_value:
  assumes "0 \<le> GasPrice cx" "db_ok (cx_ext cx) (db evm)" "cxByzantium cx \<and> readOnly evm \<longrightarrow> value = 0" "0 \<le> value"
    and "Call cx (Run n cx) evm caller addr inp gas value = Ok (ret, g, err, jd, evm')"
  shows "(\<forall>a. 0 \<le> bal (cx_ext cx) (db evm') a) \<and>
    (\<exists>D. finite D \<and> (\<forall>a. a \<notin> D \<longrightarrow> bal (cx_ext cx) (db evm') a = bal (cx_ext cx) (db evm) a) \<and>
       (\<forall>A. finite A \<longrightarrow> D \<subseteq> A \<longrightarrow> sum (bal (cx_ext cx) (db evm')) A \<le> sum (bal (cx_ext cx) (db evm)) A))"
proof -
  have j: "jrel (static cx evm) (cx_ext cx) (db evm) (db evm')"
    using run.call [OF assms] by (simp add: call_ok_def evm_rel_def)
  then obtain D where D: "finite D" "\<forall>a. a \<notin> D \<longrightarrow> bal (cx_ext cx) (db evm') a = bal (cx_ext cx) (db evm) a"
    "sum (bal (cx_ext cx) (db evm')) D \<le> sum (bal (cx_ext cx) (db evm)) D"
    unfolding jrel_def no_mint_def by blast
  have "\<forall>a. 0 \<le> bal (cx_ext cx) (db evm') a" using db_okD(3) [OF jrel_ok [OF j]] by (simp add: sane_def)
  with D sum_bal_mono [OF D] show ?thesis by blast
qed

theorem call_creates_no_value_witness:
  "\<exists>ret g jd evm'. Call plainCtx (Run 11 plainCtx) richEVM (AccountRef [5]) [7] [] 10 30 = Ok (ret, g, None, jd, evm') \<and>
    (\<forall>a. 0 \<le> bal plainExt (db evm') a)"
proof -
  have "case Call plainCtx (Run 11 plainCtx) richEVM (AccountRef [5]) [7] [] 10 30 of
      Ok (ret, g, err, jd, e) \<Rightarrow> err = None | _ \<Rightarrow> False" by code_simp
  then obtain ret g jd evm' where *: "Call plainCtx (Run 11 plainCtx) richEVM (AccountRef [5]) [7] [] 10 30 =
      Ok (ret, g, None, jd, evm')" by (auto split: res.split_asm)
  from call_creates_no_value [OF plainCtx_price richEVM_ok _ _ *] * show ?thesis
    by (simp add: plainCtx_def richEVM_def plainEVM_def)
qed

end
