(* ===== verification/Transition.thy ===== *)
theory Transition
  imports EvmSafety
begin

text \<open>
  Applying a message to the state: core/state\_transition.go and core/gaspool.go. The gas pool is a
  big integer; the fuel \<open>n\<close> is handed to the interpreter.
\<close>

section \<open>Data\<close>

datatype txerr =
    ErrNonceTooHigh
  | ErrNonceTooLow
  | ErrInsufficientBalanceForGas
  | ErrGasLimitReached
  | TxVmErr vmerr

record Message =
  msg_From :: Address
  msg_To :: "Address option"
  msg_GasPrice :: int
  msg_Gas :: int
  msg_Value :: int
  msg_Nonce :: uint64
  msg_CheckNonce :: bool
  msg_Data :: bytes

record StateTransition =
  st_gp :: int
  st_msg :: Message
  st_gas :: uint64
  st_gasPrice :: int
  st_initialGas :: int
  st_value :: int
  st_data :: bytes
  st_evm :: EVM

abbreviation st_db :: "StateTransition \<Rightarrow> StateDB" where
  "st_db st \<equiv> db (st_evm st)"
abbreviation st_set :: "StateDB \<Rightarrow> StateTransition \<Rightarrow> StateTransition" where
  "st_set s st \<equiv> st\<lparr>st_evm := (st_evm st)\<lparr>db := s\<rparr>\<rparr>"

section \<open>gaspool.go\<close>

definition AddGas :: "int \<Rightarrow> int \<Rightarrow> int" where
  "AddGas gp amount = gp + amount"

definition SubGas :: "int \<Rightarrow> int \<Rightarrow> txerr + int" where
  "SubGas gp amount = (if gp < amount then Inl ErrGasLimitReached else Inr (gp - amount))"

section \<open>state\_transition.go\<close>

fun countNonZero :: "bytes \<Rightarrow> int" where
  "countNonZero [] = 0"
| "countNonZero (byt # data) = (if byt \<noteq> 0 then 1 else 0) + countNonZero data"

definition IntrinsicGas :: "bytes \<Rightarrow> bool \<Rightarrow> bool \<Rightarrow> int" where
  "IntrinsicGas data contractCreation homestead =
     (let igas = (if contractCreation \<and> homestead then uint TxGasContractCreation else uint TxGas) in
      if 0 < length data
      then (let nz = countNonZero data in
            igas + nz * uint TxDataNonZeroGas + (int (length data) - nz) * uint TxDataZeroGas)
      else igas)"

definition NewEVM :: "StateDB \<Rightarrow> EVM" where
  "NewEVM s = \<lparr>db = s, depth = 0, abort = False, readOnly = False, returnData = []\<rparr>"

definition NewStateTransition :: "EVM \<Rightarrow> Message \<Rightarrow> int \<Rightarrow> StateTransition" where
  "NewStateTransition evm msg gp =
     \<lparr>st_gp = gp, st_msg = msg, st_gas = 0, st_gasPrice = msg_GasPrice msg, st_initialGas = 0,
      st_value = msg_Value msg, st_data = msg_Data msg, st_evm = evm\<rparr>"

text \<open>\<^verbatim>\<open>from\<close> and \<^verbatim>\<open>to\<close> create the account when it is missing.\<close>

definition ensureAccount :: "Ext \<Rightarrow> StateDB \<Rightarrow> Address \<Rightarrow> StateDB" where
  "ensureAccount X s a = (case Exist X s a of (e, s') \<Rightarrow> if \<not> e then CreateAccount X s' a else s')"

definition st_from :: "Ctx \<Rightarrow> StateTransition \<Rightarrow> Address \<times> StateTransition" where
  "st_from cx st =
     (let f = msg_From (st_msg st) in (f, st_set (ensureAccount (cx_ext cx) (st_db st) f) st))"

definition st_to :: "Ctx \<Rightarrow> StateTransition \<Rightarrow> Address \<times> StateTransition" where
  "st_to cx st =
     (case msg_To (st_msg st) of
        None \<Rightarrow> (zeroAddress (cx_ext cx), st)
      | Some to \<Rightarrow> (to, st_set (ensureAccount (cx_ext cx) (st_db st) to) st))"

definition useGas :: "StateTransition \<Rightarrow> uint64 \<Rightarrow> txerr option \<times> StateTransition" where
  "useGas st amount =
     (if st_gas st < amount then (Some (TxVmErr ErrOutOfGas), st)
      else (None, st\<lparr>st_gas := st_gas st - amount\<rparr>))"

definition buyGas :: "Ctx \<Rightarrow> StateTransition \<Rightarrow> txerr option \<times> StateTransition" where
  "buyGas cx st0 =
     (let mgas = msg_Gas (st_msg st0) in
      if BitLen mgas > 64 then (Some (TxVmErr ErrOutOfGas), st0)
      else
        (let mgval = mgas * st_gasPrice st0;
             (sender, st1) = st_from cx st0;
             (balance, s) = GetBalance (cx_ext cx) (st_db st1) sender;
             st2 = st_set s st1
         in if balance < mgval then (Some ErrInsufficientBalanceForGas, st2)
            else
              (case SubGas (st_gp st2) mgas of
                 Inl err \<Rightarrow> (Some err, st2)
               | Inr gp \<Rightarrow>
                   (None, st_set (SubBalance (cx_ext cx) (st_db st2) sender mgval)
                      (st2\<lparr>st_gp := gp, st_gas := st_gas st2 + Uint64 mgas, st_initialGas := mgas\<rparr>)))))"

definition preCheck :: "Ctx \<Rightarrow> StateTransition \<Rightarrow> txerr option \<times> StateTransition" where
  "preCheck cx st0 =
     (let (sender, st1) = st_from cx st0; msg = st_msg st1 in
      if msg_CheckNonce msg
      then (case GetNonce (cx_ext cx) (st_db st1) sender of (nonce, s) \<Rightarrow>
              (let st2 = st_set s st1 in
               if nonce < msg_Nonce msg then (Some ErrNonceTooHigh, st2)
               else if nonce > msg_Nonce msg then (Some ErrNonceTooLow, st2)
               else buyGas cx st2))
      else buyGas cx st1)"

definition gasUsed :: "StateTransition \<Rightarrow> int" where
  "gasUsed st = st_initialGas st - uint (st_gas st)"

text \<open>
  \<^verbatim>\<open>refund\<close> is the very big integer of the state's counter when that is the smaller one, and
  \<^verbatim>\<open>refund.Mul(refund, gasPrice)\<close> multiplies it in place.
\<close>

definition refundGas :: "Ctx \<Rightarrow> StateTransition \<Rightarrow> StateTransition" where
  "refundGas cx st0 =
     (let X = cx_ext cx;
          (sender, st1) = st_from cx st0;
          remaining = uint (st_gas st1) * st_gasPrice st1;
          s1 = AddBalance X (st_db st1) sender remaining;
          uhalf = gasUsed st1 div 2;
          refund' = BigMin uhalf (GetRefund s1);
          s2 = (if uhalf > GetRefund s1 then s1\<lparr>refund := refund' * st_gasPrice st1\<rparr> else s1);
          s3 = AddBalance X s2 sender (refund' * st_gasPrice st1);
          gas' = st_gas st1 + Uint64 refund'
      in (st_set s3 st1)\<lparr>st_gas := gas', st_gp := AddGas (st_gp st1) (uint gas')\<rparr>)"

text \<open>\<open>(ret, requiredGas, usedGas, failed)\<close>, or the error that makes the message invalid.\<close>

type_synonym transitionRes = "((txerr + bytes \<times> int \<times> int \<times> bool) \<times> StateTransition) res"

text \<open>The part after the EVM has run.\<close>

definition finishTransition :: "Ctx \<Rightarrow> bytes \<Rightarrow> vmerr option \<Rightarrow> StateTransition \<Rightarrow>
    (txerr + bytes \<times> int \<times> int \<times> bool) \<times> StateTransition" where
  "finishTransition cx ret vmerr st =
     (if vmerr = Some ErrInsufficientBalance then (Inl (TxVmErr ErrInsufficientBalance), st)
      else
        (let requiredGas = gasUsed st;
             st1 = refundGas cx st;
             st2 = st_set (AddBalance (cx_ext cx) (st_db st1) (Coinbase cx) (gasUsed st1 * st_gasPrice st1)) st1
         in (Inr (ret, requiredGas, gasUsed st2, vmerr \<noteq> None), st2)))"

definition executeMessage :: "nat \<Rightarrow> Ctx \<Rightarrow> Address \<Rightarrow> StateTransition \<Rightarrow> (bytes \<times> vmerr option \<times> StateTransition) res" where
  "executeMessage n cx sender st =
     (if msg_To (st_msg st) = None
      then bind_res (Create cx (Run n cx) (st_evm st) (AccountRef sender) (st_data st) (st_gas st) (st_value st))
             (\<lambda>(ret, addr, gas, vmerr, jd, evm). Ok (ret, vmerr, st\<lparr>st_gas := gas, st_evm := evm\<rparr>))
      else
        (let (nonce, s1) = GetNonce (cx_ext cx) (st_db st) sender;
             st1 = st_set (SetNonce (cx_ext cx) s1 sender (nonce + 1)) st;
             (to, st2) = st_to cx st1
         in bind_res (Call cx (Run n cx) (st_evm st2) (AccountRef sender) to (st_data st2) (st_gas st2) (st_value st2))
              (\<lambda>(ret, gas, vmerr, jd, evm). Ok (ret, vmerr, st2\<lparr>st_gas := gas, st_evm := evm\<rparr>))))"

definition TransitionDb :: "nat \<Rightarrow> Ctx \<Rightarrow> StateTransition \<Rightarrow> transitionRes" where
  "TransitionDb n cx st0 =
     (case preCheck cx st0 of
        (Some err, st1) \<Rightarrow> Ok (Inl err, st1)
      | (None, st1) \<Rightarrow>
          (let (sender, st2) = st_from cx st1;
               intrinsicGas = IntrinsicGas (st_data st2) (msg_To (st_msg st2) = None) (cxHomestead cx)
           in if BitLen intrinsicGas > 64 then Ok (Inl (TxVmErr ErrOutOfGas), st2)
              else
                (case useGas st2 (Uint64 intrinsicGas) of
                   (Some err, st3) \<Rightarrow> Ok (Inl err, st3)
                 | (None, st3) \<Rightarrow>
                     bind_res (executeMessage n cx sender st3)
                       (\<lambda>(ret, vmerr, st4). Ok (finishTransition cx ret vmerr st4)))))"

definition ApplyMessage :: "nat \<Rightarrow> Ctx \<Rightarrow> EVM \<Rightarrow> Message \<Rightarrow> int \<Rightarrow> transitionRes" where
  "ApplyMessage n cx evm msg gp = TransitionDb n cx (NewStateTransition evm msg gp)"

end
