(* ===== verification/TransitionSafety.thy ===== *)
theory TransitionSafety
  imports Transition
begin

text \<open>
  What applying a message does to gas and money: the gas pool loses what the message used, refunds
  are at most half of it, a message that is rejected up front changes nothing, the run ends, and no
  value is created: what the sender pays for gas, the refund and the miner's fee add up.
\<close>

section \<open>Money\<close>

text \<open>At most \<open>k\<close> is added to the balances between \<open>s\<close> and \<open>s'\<close>.\<close>

definition minted :: "Ext \<Rightarrow> int \<Rightarrow> StateDB \<Rightarrow> StateDB \<Rightarrow> bool" where
  "minted X k s s' \<longleftrightarrow> (\<exists>D. finite D \<and> (\<forall>a. a \<notin> D \<longrightarrow> bal X s' a = bal X s a) \<and> sum (bal X s') D \<le> sum (bal X s) D + k)"

lemma minted_0: "minted X 0 s s' \<longleftrightarrow> no_mint X s s'"
  by (simp add: minted_def no_mint_def)

lemma minted_widen:
  assumes "finite D" "\<forall>a. a \<notin> D \<longrightarrow> bal X s' a = bal X s a" "sum (bal X s') D \<le> sum (bal X s) D + k" "finite E" "D \<subseteq> E"
  shows "sum (bal X s') E \<le> sum (bal X s) E + k"
proof -
  have "sum (bal X t) E = sum (bal X t) (E - D) + sum (bal X t) D" for t
    by (rule sum.subset_diff [OF assms(5,4)])
  moreover have "sum (bal X s') (E - D) = sum (bal X s) (E - D)" using assms(2) by (intro sum.cong) auto
  ultimately show ?thesis using assms(3) by simp
qed

lemma minted_trans:
  assumes "minted X k s t" "minted X l t u"
  shows "minted X (k + l) s u"
proof -
  from assms obtain D E where
    D: "finite D" "\<forall>a. a \<notin> D \<longrightarrow> bal X t a = bal X s a" "sum (bal X t) D \<le> sum (bal X s) D + k" and
    E: "finite E" "\<forall>a. a \<notin> E \<longrightarrow> bal X u a = bal X t a" "sum (bal X u) E \<le> sum (bal X t) E + l"
    unfolding minted_def by blast
  have "sum (bal X t) (D \<union> E) \<le> sum (bal X s) (D \<union> E) + k" by (rule minted_widen [OF D]) (use D E in auto)
  moreover have "sum (bal X u) (D \<union> E) \<le> sum (bal X t) (D \<union> E) + l" by (rule minted_widen [OF E]) (use D E in auto)
  ultimately show ?thesis unfolding minted_def using D E by (intro exI [of _ "D \<union> E"]) auto
qed

lemma minted_jrel: "jrel ro X s t \<Longrightarrow> minted X 0 s t"
  by (simp add: minted_0 jrel_def)

lemma minted_same: "(\<And>a. bal X s' a = bal X s a) \<Longrightarrow> minted X 0 s s'"
  by (simp add: minted_0 no_mint_same)

text \<open>Payments to and from one account.\<close>

lemma AddBalance_ok:
  assumes ok: "db_ok X s" and n: "0 \<le> n"
  shows "db_ok X (AddBalance X s a n)" "minted X n s (AddBalance X s a n)"
proof -
  note w = db_okD(2) [OF ok]
  have "wf_db X (AddBalance X s a n)" by (rule journalled_wf_db [OF db_okD(1) [OF ok] AddBalance_spec(1) [OF w]])
  then show "db_ok X (AddBalance X s a n)"
    using db_okD(3) [OF ok] n by (auto simp: db_ok_def sane_def bal_write [OF w] refund_write [OF w])
  show "minted X n s (AddBalance X s a n)"
    unfolding minted_def by (rule exI [of _ "{a}"]) (simp add: bal_write [OF w])
qed

lemma SubBalance_ok:
  assumes ok: "db_ok X s" and n: "n \<le> bal X s a"
  shows "db_ok X (SubBalance X s a n)" "minted X (- n) s (SubBalance X s a n)"
proof -
  note w = db_okD(2) [OF ok]
  have "wf_db X (SubBalance X s a n)" by (rule journalled_wf_db [OF db_okD(1) [OF ok] SubBalance_spec(1) [OF w]])
  then show "db_ok X (SubBalance X s a n)"
    using db_okD(3) [OF ok] n by (auto simp: db_ok_def sane_def bal_write [OF w] refund_write [OF w])
  show "minted X (- n) s (SubBalance X s a n)"
    unfolding minted_def by (rule exI [of _ "{a}"]) (simp add: bal_write [OF w])
qed

section \<open>Steps\<close>

lemma ensureAccount_jrel:
  assumes ok: "db_ok X s"
  shows "jrel ro X s (ensureAccount X s a)"
proof -
  obtain e s' where e: "Exist X s a = (e, s')" by fastforce
  have j: "jrel ro X s s'" by (rule jrel_get(1) [OF ok e])
  have "e = (w_acct (world X s') a \<noteq> None)"
    using Exist_spec [OF db_okD(2) [OF ok], of a] e by (simp add: quiet_def)
  then have "\<not> e \<Longrightarrow> jrel ro X s' (CreateAccount X s' a)" by (intro jrel_CreateAccount [OF jrel_ok [OF j]]) simp
  then show ?thesis using j jrel_trans [OF j] by (auto simp: ensureAccount_def e)
qed

text \<open>The state transition with another database and nothing else changed.\<close>

definition stepped :: "Ctx \<Rightarrow> bool \<Rightarrow> StateTransition \<Rightarrow> StateTransition \<Rightarrow> bool" where
  "stepped cx ro st st' \<longleftrightarrow> (\<exists>s. st' = st_set s st \<and> jrel ro (cx_ext cx) (st_db st) s)"

lemma stepped_trans:
  assumes "stepped cx ro st st1" "stepped cx ro st1 st2"
  shows "stepped cx ro st st2"
proof -
  from assms obtain s t where *: "st1 = st_set s st" "jrel ro (cx_ext cx) (st_db st) s"
    "st2 = st_set t st1" "jrel ro (cx_ext cx) (st_db st1) t" unfolding stepped_def by blast
  then have "st2 = st_set t st" "jrel ro (cx_ext cx) (st_db st) t" using jrel_trans by simp_all
  then show ?thesis unfolding stepped_def by blast
qed

lemma stepped_ok: "stepped cx ro st st' \<Longrightarrow> db_ok (cx_ext cx) (st_db st')"
  by (auto simp: stepped_def intro: jrel_ok)

lemma stepped_set: "jrel ro (cx_ext cx) (st_db st) s \<Longrightarrow> stepped cx ro st (st_set s st)"
  by (auto simp: stepped_def)

lemma stepped_fields:
  assumes "stepped cx ro st st'"
  shows "st_gp st' = st_gp st" "st_msg st' = st_msg st" "st_gas st' = st_gas st" "st_gasPrice st' = st_gasPrice st"
    "st_initialGas st' = st_initialGas st" "st_value st' = st_value st" "st_data st' = st_data st"
    "readOnly (st_evm st') = readOnly (st_evm st)" "jrel ro (cx_ext cx) (st_db st) (st_db st')"
  using assms by (auto simp: stepped_def)

lemma st_from_stepped:
  assumes "db_ok (cx_ext cx) (st_db st)" "st_from cx st = (a, st')"
  shows "stepped cx ro st st'" "a = msg_From (st_msg st)"
  using assms ensureAccount_jrel [OF assms(1)] by (auto simp: st_from_def Let_def intro: stepped_set)

lemma st_to_stepped:
  assumes "db_ok (cx_ext cx) (st_db st)" "st_to cx st = (a, st')"
  shows "stepped cx ro st st'"
  using assms ensureAccount_jrel [OF assms(1)] jrel_refl [OF assms(1)]
  by (auto simp: st_to_def stepped_def split: option.splits intro: exI [of _ "st_db st"])

text \<open>Buying gas: either nothing happens, or the gas is taken from the pool and paid for.\<close>

lemma buyGas_cases:
  assumes ok: "db_ok (cx_ext cx) (st_db st)" and b: "buyGas cx st = (err, st')"
  obtains (fail) "err \<noteq> None" "stepped cx True st st'"
  | (buy) st1 where "err = None" "stepped cx True st st1" "BitLen (msg_Gas (st_msg st)) \<le> 64"
      "msg_Gas (st_msg st) * st_gasPrice st \<le> bal (cx_ext cx) (st_db st1) (msg_From (st_msg st))"
      "msg_Gas (st_msg st) \<le> st_gp st"
      "st' = (st_set (SubBalance (cx_ext cx) (st_db st1) (msg_From (st_msg st))
          (msg_Gas (st_msg st) * st_gasPrice st)) st1)\<lparr>st_gp := st_gp st - msg_Gas (st_msg st),
          st_gas := st_gas st + Uint64 (msg_Gas (st_msg st)), st_initialGas := msg_Gas (st_msg st)\<rparr>"
proof -
  let ?X = "cx_ext cx" and ?mgas = "msg_Gas (st_msg st)" and ?a = "msg_From (st_msg st)"
  obtain a st1 where f: "st_from cx st = (a, st1)" by fastforce
  note f1 = st_from_stepped [OF ok f]
  have ok1: "db_ok ?X (st_db st1)" by (rule stepped_ok [OF f1(1)])
  obtain bl s where g: "GetBalance ?X (st_db st1) ?a = (bl, s)" by fastforce
  have "jrel True ?X (st_db st1) s" by (rule jrel_get(3) [OF ok1 g])
  then have two: "stepped cx True st (st_set s st1)" by (rule stepped_trans [OF f1(1) stepped_set])
  have bl: "bl = bal ?X s ?a"
    using GetBalance_spec [OF db_okD(2) [OF ok1], of ?a] g bal_world [of ?X s "st_db st1"]
    by (simp add: quiet_def bal_def)
  have st0: "stepped cx True st st" using jrel_refl [OF ok] by (auto simp: stepped_def intro: exI [of _ "st_db st"])
  note fields = stepped_fields [OF f1(1)]
  consider "BitLen ?mgas > 64" | "BitLen ?mgas \<le> 64" "bl < ?mgas * st_gasPrice st"
    | "BitLen ?mgas \<le> 64" "\<not> bl < ?mgas * st_gasPrice st" "st_gp st < ?mgas"
    | "BitLen ?mgas \<le> 64" "\<not> bl < ?mgas * st_gasPrice st" "\<not> st_gp st < ?mgas" by linarith
  then show thesis
  proof cases
    case 1
    then have "err \<noteq> None" "st' = st" using b by (auto simp: buyGas_def)
    then show thesis using st0 fail by simp
  next
    case 2
    then have "err \<noteq> None" "st' = st_set s st1" using b f f1 g fields by (auto simp: buyGas_def Let_def)
    then show thesis using two fail by simp
  next
    case 3
    then have "err \<noteq> None" "st' = st_set s st1" using b f f1 g fields by (auto simp: buyGas_def SubGas_def Let_def)
    then show thesis using two fail by simp
  next
    case 4
    then have e: "err = None" and s': "st' = (st_set (SubBalance ?X s ?a (?mgas * st_gasPrice st)) st1)\<lparr>st_gp := st_gp st - ?mgas,
          st_gas := st_gas st + Uint64 ?mgas, st_initialGas := ?mgas\<rparr>"
      using b f f1 g fields by (auto simp: buyGas_def SubGas_def Let_def)
    show thesis
      by (rule buy [OF e two]) (use 4 bl s' in simp_all)
  qed
qed

definition bought :: "Ctx \<Rightarrow> StateTransition \<Rightarrow> StateTransition \<Rightarrow> bool" where
  "bought cx st st' \<longleftrightarrow> msg_Gas (st_msg st) < 2 ^ 64 \<and> msg_Gas (st_msg st) \<le> st_gp st \<and>
     st_gp st' = st_gp st - msg_Gas (st_msg st) \<and> st_gas st' = st_gas st + Uint64 (msg_Gas (st_msg st)) \<and>
     st_initialGas st' = msg_Gas (st_msg st) \<and> st_msg st' = st_msg st \<and> st_gasPrice st' = st_gasPrice st \<and>
     st_value st' = st_value st \<and> st_data st' = st_data st \<and> readOnly (st_evm st') = readOnly (st_evm st) \<and>
     db_ok (cx_ext cx) (st_db st') \<and>
     minted (cx_ext cx) (- (msg_Gas (st_msg st) * st_gasPrice st)) (st_db st) (st_db st')"

lemma buyGas_bought:
  assumes ok: "db_ok (cx_ext cx) (st_db st)" and b: "buyGas cx st = (None, st')" and m: "0 \<le> msg_Gas (st_msg st)"
  shows "bought cx st st'"
  using ok b
proof (cases rule: buyGas_cases)
  case (buy st1)
  note f = stepped_fields [OF buy(2)]
  note s = SubBalance_ok [OF stepped_ok [OF buy(2)] buy(4)]
  have "minted (cx_ext cx) (0 + - (msg_Gas (st_msg st) * st_gasPrice st)) (st_db st) (st_db st')"
    by (rule minted_trans [OF minted_jrel [OF f(9)]]) (simp add: buy(6) s(2))
  then show ?thesis using buy(3,5,6) f s(1) m by (simp add: bought_def BitLen_le_iff)
qed simp

lemma bought_stepped:
  assumes "stepped cx ro st st1" "bought cx st1 st'"
  shows "bought cx st st'"
proof -
  note f = stepped_fields [OF assms(1)]
  have "minted (cx_ext cx) (0 + - (msg_Gas (st_msg st) * st_gasPrice st)) (st_db st) (st_db st')"
    by (rule minted_trans [OF minted_jrel [OF f(9)]]) (use assms(2) f in \<open>simp add: bought_def\<close>)
  then show ?thesis using assms(2) f by (simp add: bought_def)
qed

lemma preCheck_cases:
  assumes ok: "db_ok (cx_ext cx) (st_db st)" and p: "preCheck cx st = (err, st')"
  obtains (nonce) "err \<noteq> None" "stepped cx True st st'"
  | (buy) st1 where "stepped cx True st st1" "buyGas cx st1 = (err, st')"
      "msg_CheckNonce (st_msg st) \<Longrightarrow>
         v_nonce (acctOr (cx_ext cx) (world (cx_ext cx) (st_db st1)) (msg_From (st_msg st))) = msg_Nonce (st_msg st)"
proof -
  let ?X = "cx_ext cx" and ?a = "msg_From (st_msg st)"
  obtain a st1 where f: "st_from cx st = (a, st1)" by fastforce
  note f1 = st_from_stepped [OF ok f]
  note fields = stepped_fields [OF f1(1)]
  have ok1: "db_ok ?X (st_db st1)" by (rule stepped_ok [OF f1(1)])
  obtain n s where g: "GetNonce ?X (st_db st1) ?a = (n, s)" by fastforce
  have "jrel True ?X (st_db st1) s" by (rule jrel_get(4) [OF ok1 g])
  then have two: "stepped cx True st (st_set s st1)" by (rule stepped_trans [OF f1(1) stepped_set])
  have n: "n = v_nonce (acctOr ?X (world ?X s) ?a)"
    using GetNonce_spec [OF db_okD(2) [OF ok1], of ?a] g by (simp add: quiet_def)
  consider "\<not> msg_CheckNonce (st_msg st)" | "msg_CheckNonce (st_msg st)" "n \<noteq> msg_Nonce (st_msg st)"
    | "msg_CheckNonce (st_msg st)" "n = msg_Nonce (st_msg st)" by blast
  then show thesis
  proof cases
    case 1
    then show thesis using buy [OF f1(1)] p f fields by (simp add: preCheck_def)
  next
    case 2
    then have "err \<noteq> None" "st' = st_set s st1"
      using p f f1(2) g fields by (auto simp: preCheck_def Let_def split: if_splits)
    then show thesis using two nonce by simp
  next
    case 3
    then have "buyGas cx (st_set s st1) = (err, st')" using p f f1(2) g fields by (simp add: preCheck_def Let_def)
    then show thesis using buy [OF two] n 3 by simp
  qed
qed

lemma preCheck_error:
  assumes ok: "db_ok (cx_ext cx) (st_db st)" and p: "preCheck cx st = (Some err, st')"
  shows "stepped cx True st st'"
  using ok p
proof (cases rule: preCheck_cases)
  case (buy st1)
  from stepped_ok [OF buy(1)] buy(2) have "stepped cx True st1 st'" by (cases rule: buyGas_cases) auto
  then show ?thesis by (rule stepped_trans [OF buy(1)])
qed

lemma preCheck_bought:
  assumes ok: "db_ok (cx_ext cx) (st_db st)" and p: "preCheck cx st = (None, st')" and m: "0 \<le> msg_Gas (st_msg st)"
  shows "bought cx st st'"
  using ok p
proof (cases rule: preCheck_cases)
  case (buy st1)
  have "0 \<le> msg_Gas (st_msg st1)" using m stepped_fields [OF buy(1)] by simp
  from buyGas_bought [OF stepped_ok [OF buy(1)] buy(2) this] show ?thesis by (rule bought_stepped [OF buy(1)])
qed simp

text \<open>Running the message.\<close>

lemma Run_gas_runner: "\<not> DisableGasMetering cx \<Longrightarrow> runner_gas (Run n cx)"
  unfolding runner_gas_def using run.gas by blast

lemma executeMessage_spec:
  assumes x: "executeMessage n cx a st = Ok (ret, vmerr, st')" and ok: "db_ok (cx_ext cx) (st_db st)"
    and ro: "\<not> readOnly (st_evm st)" and p: "0 \<le> GasPrice cx" and v: "0 \<le> st_value st"
    and d: "\<not> DisableGasMetering cx"
  shows "jrel False (cx_ext cx) (st_db st) (st_db st')" "st_gas st' \<le> st_gas st" "st_gp st' = st_gp st"
    "st_msg st' = st_msg st" "st_gasPrice st' = st_gasPrice st" "st_initialGas st' = st_initialGas st"
proof -
  let ?X = "cx_ext cx"
  note R = run.rel [OF p, of n] and G = Run_gas_runner [OF d, of n]
  have "jrel False ?X (st_db st) (st_db st') \<and> st_gas st' \<le> st_gas st \<and> st_gp st' = st_gp st \<and>
    st_msg st' = st_msg st \<and> st_gasPrice st' = st_gasPrice st \<and> st_initialGas st' = st_initialGas st"
  proof (cases "msg_To (st_msg st) = None")
    case True
    with x obtain ad g jd evm where c: "Create cx (Run n cx) (st_evm st) (AccountRef a) (st_data st) (st_gas st)
        (st_value st) = Ok (ret, ad, g, vmerr, jd, evm)" and st': "st' = st\<lparr>st_gas := g, st_evm := evm\<rparr>"
      by (auto simp: executeMessage_def elim!: bind_res_OkE)
    have "evm_rel cx (st_evm st) evm" by (rule Create_rel [OF R ok _ v c]) (use ro in simp)
    then have "jrel False ?X (st_db st) (db evm)" by (auto simp: evm_rel_def intro: jrel_False)
    then show ?thesis using Create_gas [OF G c] by (simp add: st')
  next
    case False
    obtain nc s1 where g: "GetNonce ?X (st_db st) a = (nc, s1)" by fastforce
    let ?st1 = "st_set (SetNonce ?X s1 a (nc + 1)) st"
    obtain to st2 where t: "st_to cx ?st1 = (to, st2)" by fastforce
    have j1: "jrel False ?X (st_db st) s1" by (rule jrel_get(4) [OF ok g])
    have "jrel False ?X s1 (SetNonce ?X s1 a (nc + 1))" by (rule jrel_writers(1) [OF jrel_ok [OF j1]]) simp
    then have 1: "stepped cx False st ?st1" using jrel_trans [OF j1] by (intro stepped_set) blast
    have 2: "stepped cx False st st2" by (rule stepped_trans [OF 1 st_to_stepped [OF stepped_ok [OF 1] t]])
    note f = stepped_fields [OF 2]
    from x False g t obtain gg jd evm where c: "Call cx (Run n cx) (st_evm st2) (AccountRef a) to (st_data st2)
        (st_gas st2) (st_value st2) = Ok (ret, gg, vmerr, jd, evm)" and st': "st' = st2\<lparr>st_gas := gg, st_evm := evm\<rparr>"
      by (auto simp: executeMessage_def elim!: bind_res_OkE)
    have "call_ok cx (st_evm st2) vmerr evm"
      by (rule Call_ok [OF R stepped_ok [OF 2] _ _ c]) (use ro v f in simp_all)
    then have "jrel False ?X (st_db st2) (db evm)" by (auto simp: call_ok_def evm_rel_def intro: jrel_False)
    then have "jrel False ?X (st_db st) (db evm)" by (rule jrel_trans [OF f(9)])
    moreover have "gg \<le> st_gas st2"
      using call_form_gas [OF G] calls_form(1) [of cx "Run n cx" "st_data st2" "st_gas st2" "st_evm st2" "AccountRef a" to "st_value st2"]
      unfolding c by blast
    ultimately show ?thesis using f by (simp add: st')
  qed
  then show "jrel False (cx_ext cx) (st_db st) (st_db st')" "st_gas st' \<le> st_gas st" "st_gp st' = st_gp st"
    "st_msg st' = st_msg st" "st_gasPrice st' = st_gasPrice st" "st_initialGas st' = st_initialGas st" by blast+
qed

text \<open>Refunds and the fee of the miner.\<close>

lemma refundGas_spec:
  assumes ok: "db_ok (cx_ext cx) (st_db st)" and p: "0 \<le> st_gasPrice st"
    and g: "uint (st_gas st) \<le> st_initialGas st" and i: "st_initialGas st < 2 ^ 64"
    and r: "refundGas cx st = st'"
  shows "\<exists>k. 0 \<le> k \<and> k \<le> gasUsed st div 2 \<and> uint (st_gas st') = uint (st_gas st) + k \<and>
    st_gp st' = st_gp st + uint (st_gas st) + k \<and> st_initialGas st' = st_initialGas st \<and>
    st_gasPrice st' = st_gasPrice st \<and> db_ok (cx_ext cx) (st_db st') \<and>
    minted (cx_ext cx) ((uint (st_gas st) + k) * st_gasPrice st) (st_db st) (st_db st')"
proof -
  let ?X = "cx_ext cx"
  obtain a st1 where f: "st_from cx st = (a, st1)" by fastforce
  have f1: "stepped cx False st st1" using st_from_stepped [OF ok f] by blast
  note fields = stepped_fields [OF f1]
  let ?rem = "uint (st_gas st) * st_gasPrice st"
  define s1 where "s1 = AddBalance ?X (st_db st1) a ?rem"
  have 1: "db_ok ?X s1" "minted ?X ?rem (st_db st1) s1"
    unfolding s1_def using AddBalance_ok [OF stepped_ok [OF f1]] p by simp_all
  define k where "k = BigMin (gasUsed st div 2) (GetRefund s1)"
  have u: "0 \<le> gasUsed st" using g by (simp add: gasUsed_def)
  have "0 \<le> GetRefund s1" using db_okD(3) [OF 1(1)] by (simp add: sane_def GetRefund_def)
  then have k: "0 \<le> k" "k \<le> gasUsed st div 2" using u by (auto simp: k_def BigMin_def)
  define s2 where "s2 = (if gasUsed st div 2 > GetRefund s1 then s1\<lparr>refund := k * st_gasPrice st\<rparr> else s1)"
  have w2: "bal ?X s2 a = bal ?X s1 a" for a
    by (simp add: s2_def bal_def acctOr_def world_def lookupObject_def cong: option.case_cong)
  have "wf_db ?X s2" using db_okD(1) [OF 1(1)] by (simp add: s2_def wf_db_def wf_state_def rev_ok_def)
  moreover have "sane ?X s2" using db_okD(3) [OF 1(1)] k p by (simp add: sane_def w2) (simp add: s2_def)
  ultimately have 2: "db_ok ?X s2" by (simp add: db_ok_def)
  define s3 where "s3 = AddBalance ?X s2 a (k * st_gasPrice st)"
  have 3: "db_ok ?X s3" "minted ?X (k * st_gasPrice st) s2 s3"
    unfolding s3_def using AddBalance_ok [OF 2] k p by simp_all
  have m: "minted ?X (0 + (?rem + (0 + k * st_gasPrice st))) (st_db st) s3"
    by (rule minted_trans [OF minted_jrel [OF fields(9)] minted_trans [OF 1(2) minted_trans [OF minted_same 3(2)]]])
      (simp add: w2)
  have gu: "gasUsed st1 = gasUsed st" using fields by (simp add: gasUsed_def)
  have "gasUsed st div 2 \<le> gasUsed st" using u by simp
  then have "k < 2 ^ 64" using k i uint_ge_0 [of "st_gas st"] unfolding gasUsed_def by linarith
  then have uk: "uint (Uint64 k) = k" using k by (simp add: Uint64_def take_bit_int_eq_self_iff uint_word_of_int_eq gasUsed_def)
  have "uint (st_gas st) + k < 2 ^ 64" using k(2) u i g by (simp add: gasUsed_def)
  then have gk: "uint (st_gas st + Uint64 k) = uint (st_gas st) + k"
    using uint_plus_if_size [of "st_gas st" "Uint64 k"] uk by (simp add: word_size)
  have st': "st' = (st_set s3 st1)\<lparr>st_gas := st_gas st + Uint64 k, st_gp := st_gp st + (uint (st_gas st) + k)\<rparr>"
    using r f fields gk
    by (simp add: refundGas_def Let_def s1_def [symmetric] gu k_def [symmetric] s2_def [symmetric] s3_def [symmetric] AddGas_def cong: if_cong)
  show ?thesis
    using k m 3(1) fields gk by (intro exI [of _ k]) (simp add: st' algebra_simps)
qed

lemma finishTransition_spec:
  assumes ok: "db_ok (cx_ext cx) (st_db st)" and p: "0 \<le> st_gasPrice st"
    and g: "uint (st_gas st) \<le> st_initialGas st" and i: "st_initialGas st < 2 ^ 64"
    and r: "finishTransition cx ret vmerr st = (Inr (ret', req, used, failed), st')"
  shows "req = gasUsed st" "0 \<le> used" "used \<le> req" "req - req div 2 \<le> used"
    "st_gp st' = st_gp st + st_initialGas st - used" "db_ok (cx_ext cx) (st_db st')"
    "minted (cx_ext cx) (st_initialGas st * st_gasPrice st) (st_db st) (st_db st')" "failed = (vmerr \<noteq> None)"
proof -
  let ?X = "cx_ext cx"
  define st1 where "st1 = refundGas cx st"
  from refundGas_spec [OF ok p g i st1_def [symmetric]] obtain k where
    k: "0 \<le> k" "k \<le> gasUsed st div 2" "uint (st_gas st1) = uint (st_gas st) + k"
      "st_gp st1 = st_gp st + uint (st_gas st) + k" "st_initialGas st1 = st_initialGas st"
      "st_gasPrice st1 = st_gasPrice st" "db_ok ?X (st_db st1)"
      "minted ?X ((uint (st_gas st) + k) * st_gasPrice st) (st_db st) (st_db st1)" by blast
  have gu: "gasUsed st1 = gasUsed st - k" using k by (simp add: gasUsed_def)
  have u: "0 \<le> gasUsed st" using g by (simp add: gasUsed_def)
  have g1: "0 \<le> gasUsed st1 * st_gasPrice st" using gu u k p by simp
  note 2 = AddBalance_ok [OF k(7) g1, of "Coinbase cx"]
  have r': "ret' = ret" "req = gasUsed st" "used = gasUsed st1" "failed = (vmerr \<noteq> None)"
    "st' = st_set (AddBalance ?X (st_db st1) (Coinbase cx) (gasUsed st1 * st_gasPrice st)) st1"
    using r k(6) by (auto simp: finishTransition_def Let_def st1_def [symmetric] gasUsed_def split: if_splits)
  show "req = gasUsed st" "failed = (vmerr \<noteq> None)" by (rule r')+
  show "0 \<le> used" "used \<le> req" "req - req div 2 \<le> used" using r' gu k u by linarith+
  show "st_gp st' = st_gp st + st_initialGas st - used" using r' gu k by (simp add: gasUsed_def)
  show "db_ok ?X (st_db st')" using r' 2(1) by simp
  have "(uint (st_gas st) + k) * st_gasPrice st + gasUsed st1 * st_gasPrice st = st_initialGas st * st_gasPrice st"
    unfolding gu by (simp add: gasUsed_def algebra_simps)
  then show "minted ?X (st_initialGas st * st_gasPrice st) (st_db st) (st_db st')"
    using minted_trans [OF k(8) 2(2)] r' by simp
qed

lemma countNonZero_bounds: "0 \<le> countNonZero d" "countNonZero d \<le> int (length d)"
  by (induction d rule: countNonZero.induct) auto

lemma IntrinsicGas_pos: "21000 \<le> IntrinsicGas d c h"
  using countNonZero_bounds [of d] by (simp add: IntrinsicGas_def Let_def)

text \<open>What a successful transition did, step by step.\<close>

lemma TransitionDb_okE:
  assumes t: "TransitionDb n cx st = Ok (Inr res, st')" and ok: "db_ok (cx_ext cx) (st_db st)"
    and m: "0 \<le> msg_Gas (st_msg st)"
  obtains st1 st2 ret vmerr st4 where "bought cx st st1" "stepped cx False st1 st2"
    "IntrinsicGas (st_data st) (msg_To (st_msg st) = None) (cxHomestead cx) \<le> uint (st_gas st1)"
    "executeMessage n cx (msg_From (st_msg st)) (st2\<lparr>st_gas := st_gas st1 -
        Uint64 (IntrinsicGas (st_data st) (msg_To (st_msg st) = None) (cxHomestead cx))\<rparr>) = Ok (ret, vmerr, st4)"
    "finishTransition cx ret vmerr st4 = (Inr res, st')"
proof -
  let ?ig = "IntrinsicGas (st_data st) (msg_To (st_msg st) = None) (cxHomestead cx)"
  from t obtain st1 where 1: "preCheck cx st = (None, st1)" by (auto simp: TransitionDb_def split: prod.splits option.splits)
  have b: "bought cx st st1" by (rule preCheck_bought [OF ok 1 m])
  obtain a st2 where 2: "st_from cx st1 = (a, st2)" by fastforce
  have ok1: "db_ok (cx_ext cx) (st_db st1)" using b by (simp add: bought_def)
  have s2: "stepped cx False st1 st2" and a: "a = msg_From (st_msg st)"
    using st_from_stepped [OF ok1 2] b by (simp_all add: bought_def)
  note f = stepped_fields [OF s2]
  have ig: "BitLen ?ig \<le> 64" using t 1 2 b f by (auto simp: TransitionDb_def bought_def Let_def split: if_splits)
  then have ui: "uint (Uint64 ?ig) = ?ig"
    using IntrinsicGas_pos [of "st_data st" "msg_To (st_msg st) = None" "cxHomestead cx"]
    by (simp add: BitLen_le_iff Uint64_def uint_word_of_int_eq take_bit_int_eq_self_iff)
  have le: "Uint64 ?ig \<le> st_gas st1" and
    "bind_res (executeMessage n cx a (st2\<lparr>st_gas := st_gas st1 - Uint64 ?ig\<rparr>))
       (\<lambda>(ret, vmerr, st4). Ok (finishTransition cx ret vmerr st4)) = Ok (Inr res, st')"
    using t 1 2 b f ig by (auto simp: TransitionDb_def bought_def useGas_def Let_def split: if_splits)
  then obtain ret vmerr st4 where x: "executeMessage n cx a (st2\<lparr>st_gas := st_gas st1 - Uint64 ?ig\<rparr>) = Ok (ret, vmerr, st4)"
    "finishTransition cx ret vmerr st4 = (Inr res, st')" by (auto elim!: bind_res_OkE)
  have "?ig \<le> uint (st_gas st1)" using le ui by (simp add: word_le_def)
  then show thesis using that [OF b s2 _ x(1) [unfolded a] x(2)] by blast
qed

definition msg_ok :: "Message \<Rightarrow> bool" where
  "msg_ok msg \<longleftrightarrow> 0 \<le> msg_Gas msg \<and> 0 \<le> msg_GasPrice msg \<and> 0 \<le> msg_Value msg"

lemma ApplyMessage_spec:
  assumes t: "ApplyMessage n cx evm msg gp = Ok (Inr (ret, req, used, failed), st')"
    and ok: "db_ok (cx_ext cx) (db evm)" "\<not> readOnly evm" "\<not> DisableGasMetering cx" "0 \<le> GasPrice cx" and m: "msg_ok msg"
  shows "IntrinsicGas (msg_Data msg) (msg_To msg = None) (cxHomestead cx) \<le> req" "req \<le> msg_Gas msg"
    "used \<le> req" "req - req div 2 \<le> used" "st_gp st' = gp - used" "msg_Gas msg \<le> gp"
    "db_ok (cx_ext cx) (st_db st')" "no_mint (cx_ext cx) (db evm) (st_db st')"
proof -
  let ?X = "cx_ext cx" and ?st = "NewStateTransition evm msg gp"
  let ?ig = "IntrinsicGas (msg_Data msg) (msg_To msg = None) (cxHomestead cx)"
  have st: "st_db ?st = db evm" "st_msg ?st = msg" "st_gas ?st = 0" "st_gp ?st = gp" "st_gasPrice ?st = msg_GasPrice msg"
    "st_value ?st = msg_Value msg" "st_data ?st = msg_Data msg" "st_evm ?st = evm" by (simp_all add: NewStateTransition_def)
  have ok0: "db_ok ?X (st_db ?st)" and m0: "0 \<le> msg_Gas (st_msg ?st)" using ok m st by (simp_all add: msg_ok_def)
  from TransitionDb_okE [OF t [unfolded ApplyMessage_def] ok0 m0, unfolded st]
  obtain st1 st2 vmerr st4 r where b: "bought cx ?st st1" and s: "stepped cx False st1 st2" and ig: "?ig \<le> uint (st_gas st1)"
    and x: "executeMessage n cx (msg_From msg) (st2\<lparr>st_gas := st_gas st1 - Uint64 ?ig\<rparr>) = Ok (r, vmerr, st4)"
    and fin: "finishTransition cx r vmerr st4 = (Inr (ret, req, used, failed), st')" by blast
  note f = stepped_fields [OF s] and b' = b [unfolded bought_def st]
  let ?st3 = "st2\<lparr>st_gas := st_gas st1 - Uint64 ?ig\<rparr>"
  have gas1: "uint (st_gas st1) = msg_Gas msg"
    using b' m by (simp add: msg_ok_def Uint64_def uint_word_of_int_eq take_bit_int_eq_self_iff)
  have "?ig < 2 ^ 64" using ig uint_lt2p [of "st_gas st1"] by simp
  then have "uint (Uint64 ?ig) = ?ig" using IntrinsicGas_pos [of "msg_Data msg" "msg_To msg = None" "cxHomestead cx"]
    by (simp add: Uint64_def uint_word_of_int_eq take_bit_int_eq_self_iff)
  then have gas3: "uint (st_gas ?st3) = msg_Gas msg - ?ig"
    using ig gas1 by (simp add: uint_sub_if' [where 'a = 64])
  have ok3: "db_ok ?X (st_db ?st3)" using stepped_ok [OF s] by simp
  have ro: "\<not> readOnly (st_evm ?st3)" and v: "0 \<le> st_value ?st3" using f b' ok(2) m by (simp_all add: msg_ok_def)
  note e = executeMessage_spec [OF x ok3 ro ok(4) v ok(3)]
  have ok4: "db_ok ?X (st_db st4)" by (rule jrel_ok [OF e(1)])
  have p4: "0 \<le> st_gasPrice st4" and i4: "st_initialGas st4 = msg_Gas msg" "st_initialGas st4 < 2 ^ 64"
    and gp4: "st_gp st4 = gp - msg_Gas msg" using e f b' m by (simp_all add: msg_ok_def)
  have g4: "uint (st_gas st4) \<le> msg_Gas msg - ?ig" using e(2) gas3 by (simp add: word_le_def)
  have le4: "uint (st_gas st4) \<le> st_initialGas st4"
    using g4 i4 IntrinsicGas_pos [of "msg_Data msg" "msg_To msg = None" "cxHomestead cx"] by linarith
  note F = finishTransition_spec [OF ok4 p4 le4 i4(2) fin]
  show "?ig \<le> req" "req \<le> msg_Gas msg" using F(1) g4 i4 by (simp_all add: gasUsed_def)
  show "used \<le> req" "req - req div 2 \<le> used" "db_ok ?X (st_db st')" by (rule F)+
  show "st_gp st' = gp - used" "msg_Gas msg \<le> gp" using F(5) gp4 i4 b' by simp_all
  have "st_gasPrice st4 = msg_GasPrice msg" using e f b' by simp
  then have "minted ?X (st_initialGas st4 * msg_GasPrice msg) (st_db st4) (st_db st')" using F(7) by simp
  moreover have "minted ?X 0 (st_db st1) (st_db st2)" "minted ?X 0 (st_db st2) (st_db st4)"
    using minted_jrel [OF f(9)] minted_jrel [OF e(1)] by simp_all
  ultimately have "minted ?X (- (msg_Gas msg * msg_GasPrice msg) + (0 + (0 + st_initialGas st4 * msg_GasPrice msg))) (db evm) (st_db st')"
    using b' by (blast intro: minted_trans)
  then show "no_mint ?X (db evm) (st_db st')" by (simp add: minted_0 i4)
qed

lemma preCheck_accepts:
  assumes ok: "db_ok (cx_ext cx) (st_db st)" and p: "preCheck cx st = (None, st')"
  shows "msg_CheckNonce (st_msg st) \<longrightarrow>
      v_nonce (acctOr (cx_ext cx) (world (cx_ext cx) (st_db st)) (msg_From (st_msg st))) = msg_Nonce (st_msg st)"
    "msg_Gas (st_msg st) * st_gasPrice st \<le> bal (cx_ext cx) (st_db st) (msg_From (st_msg st))"
    "BitLen (msg_Gas (st_msg st)) \<le> 64 \<and> msg_Gas (st_msg st) \<le> st_gp st"
proof -
  let ?X = "cx_ext cx" and ?a = "msg_From (st_msg st)"
  have same: "acctOr ?X (world ?X (st_db t)) ?a = acctOr ?X (world ?X (st_db st)) ?a" if "stepped cx True st t" for t
    using stepped_fields(9) [OF that] by (simp add: jrel_def sameview_def)
  from preCheck_cases [OF ok p] obtain st1 where 1: "stepped cx True st st1" "buyGas cx st1 = (None, st')"
    "msg_CheckNonce (st_msg st) \<Longrightarrow> v_nonce (acctOr ?X (world ?X (st_db st1)) ?a) = msg_Nonce (st_msg st)"
    by (metis not_Some_eq option.distinct(1))
  note f1 = stepped_fields [OF 1(1)]
  from stepped_ok [OF 1(1)] 1(2) obtain st2 where 2: "stepped cx True st1 st2" "BitLen (msg_Gas (st_msg st1)) \<le> 64"
    "msg_Gas (st_msg st1) * st_gasPrice st1 \<le> bal ?X (st_db st2) (msg_From (st_msg st1))" "msg_Gas (st_msg st1) \<le> st_gp st1"
    by (cases rule: buyGas_cases) auto
  show "msg_CheckNonce (st_msg st) \<longrightarrow> v_nonce (acctOr ?X (world ?X (st_db st)) ?a) = msg_Nonce (st_msg st)"
    using 1(3) same [OF 1(1)] by simp
  show "msg_Gas (st_msg st) * st_gasPrice st \<le> bal ?X (st_db st) ?a"
    using 2(3) f1 same [OF stepped_trans [OF 1(1) 2(1)]] by (simp add: bal_def)
  show "BitLen (msg_Gas (st_msg st)) \<le> 64 \<and> msg_Gas (st_msg st) \<le> st_gp st" using 2(2,4) f1 by simp
qed

lemma executeMessage_ends:
  assumes d: "\<not> DisableGasMetering cx" and n: "unat (st_gas st) < n"
  shows "executeMessage n cx a st \<noteq> NoFuel"
proof -
  have R: "runner_ends n (Run n cx)" unfolding runner_ends_def
    using Run_ends [OF d] by blast
  have C: "Call cx (Run n cx) evm caller addr inp (st_gas st) v \<noteq> NoFuel" for evm caller addr inp v
    by (rule call_form_ends [OF R n calls_form(1)])
  have gas: "st_to cx st' = (t, st2) \<Longrightarrow> st_gas st2 = st_gas st'" for st' t st2
    by (auto simp: st_to_def split: option.split_asm)
  show ?thesis
    using Create_ends [OF R n] C
    by (auto simp: executeMessage_def Let_def res_simps split: prod.splits dest!: gas)
qed

lemma ApplyMessage_ends:
  assumes d: "\<not> DisableGasMetering cx" and ok: "db_ok (cx_ext cx) (db evm)" and m: "0 \<le> msg_Gas msg" and n: "msg_Gas msg < int n"
  shows "ApplyMessage n cx evm msg gp \<noteq> NoFuel"
proof
  let ?st = "NewStateTransition evm msg gp"
  have st: "st_db ?st = db evm" "st_msg ?st = msg" "st_gas ?st = 0" by (simp_all add: NewStateTransition_def)
  assume "ApplyMessage n cx evm msg gp = NoFuel"
  then obtain st1 a st2 st3 where p: "preCheck cx ?st = (None, st1)" and f: "st_from cx st1 = (a, st2)"
    and u: "\<exists>g. useGas st2 g = (None, st3)" and x: "executeMessage n cx a st3 = NoFuel"
    by (auto simp: ApplyMessage_def TransitionDb_def Let_def res_simps split: prod.split_asm option.split_asm if_split_asm)
  have b: "bought cx ?st st1" by (rule preCheck_bought [OF _ p]) (use ok m st in simp_all)
  then have "db_ok (cx_ext cx) (st_db st1)" by (simp add: bought_def)
  then have "st_gas st2 = st_gas st1" using stepped_fields [OF st_from_stepped(1) [OF _ f]] by simp
  then have "st_gas st2 = Uint64 (msg_Gas msg)" using b st by (simp add: bought_def)
  moreover have "uint (Uint64 (msg_Gas msg)) = msg_Gas msg"
    using m b st by (simp add: bought_def Uint64_def uint_word_of_int_eq take_bit_int_eq_self_iff)
  then have "unat (Uint64 (msg_Gas msg)) < n" using n m by (simp add: unat_eq_nat_uint)
  moreover have "st_gas st3 \<le> st_gas st2" using u by (auto simp: useGas_def word_sub_le split: if_split_asm)
  ultimately have "unat (st_gas st3) < n" by (simp add: word_le_nat_alt)
  from executeMessage_ends [OF d this] x show False by blast
qed

section \<open>Properties\<close>

text \<open>
  C11. The gas accounts of an applied message balance: it pays at least the intrinsic gas and requires at
  most its gas limit, refunds give back at most half of that, and the block's gas pool is charged
  exactly the gas the message is reported to have used.
\<close>

theorem ApplyMessage_gas:
  assumes "ApplyMessage n cx evm msg gp = Ok (Inr (ret, required, used, failed), st')"
    and "db_ok (cx_ext cx) (db evm)" "\<not> readOnly evm" "\<not> DisableGasMetering cx" "0 \<le> GasPrice cx" "msg_ok msg"
  shows "IntrinsicGas (msg_Data msg) (msg_To msg = None) (cxHomestead cx) \<le> required \<and> required \<le> msg_Gas msg \<and>
    required - required div 2 \<le> used \<and> used \<le> required \<and> st_gp st' = gp - used \<and> 0 \<le> st_gp st'"
  using ApplyMessage_spec [OF assms] by simp

text \<open>A transfer of 30 from the account 5 to the account 7, whose code is empty, with one byte of data.\<close>

definition plainMsg :: Message where
  "plainMsg = \<lparr>msg_From = [5], msg_To = Some [7], msg_GasPrice = 2, msg_Gas = 30000, msg_Value = 30, msg_Nonce = 0,
     msg_CheckNonce = True, msg_Data = [1]\<rparr>"

lemma plainMsg_ok: "msg_ok plainMsg" "0 \<le> msg_Gas plainMsg"
  by (simp_all add: msg_ok_def plainMsg_def)

lemma plainRun_ok: "db_ok (cx_ext plainCtx) (db richEVM)" "\<not> readOnly richEVM" "\<not> DisableGasMetering plainCtx" "0 \<le> GasPrice plainCtx"
  by (rule richEVM_ok) (simp_all add: richEVM_def plainEVM_def plainCtx_def)

text \<open>The states the transition goes through.\<close>

definition plain0 :: StateTransition where
  "plain0 = NewStateTransition richEVM plainMsg 100000"
definition plain1 :: StateTransition where
  "plain1 = snd (preCheck plainCtx plain0)"
definition plain2 :: StateTransition where
  "plain2 = snd (st_from plainCtx plain1)"
definition plain3 :: StateTransition where
  "plain3 = snd (useGas plain2 21068)"
definition plain4 :: StateTransition where
  "plain4 = (case executeMessage 5 plainCtx [5] plain3 of Ok (ret, err, st) \<Rightarrow> st | _ \<Rightarrow> plain3)"

lemma plainMsg_run: "\<exists>st'. ApplyMessage 5 plainCtx richEVM plainMsg 100000 = Ok (Inr ([], 21068, 21068, False), st')"
proof -
  have "fst (preCheck plainCtx plain0) = None" by code_simp
  then have 1: "preCheck plainCtx plain0 = (None, plain1)" by (simp add: plain1_def prod_eq_iff)
  have "fst (st_from plainCtx plain1) = [5]" by code_simp
  then have 2: "st_from plainCtx plain1 = ([5], plain2)" by (simp add: plain2_def prod_eq_iff)
  have i: "IntrinsicGas (st_data plain2) (msg_To (st_msg plain2) = None) (cxHomestead plainCtx) = 21068" by code_simp
  have "fst (useGas plain2 21068) = None" by code_simp
  then have 3: "useGas plain2 21068 = (None, plain3)" by (simp add: plain3_def prod_eq_iff)
  have "case executeMessage 5 plainCtx [5] plain3 of Ok (ret, err, st) \<Rightarrow> ret = [] \<and> err = None | _ \<Rightarrow> False" by code_simp
  then have 4: "executeMessage 5 plainCtx [5] plain3 = Ok ([], None, plain4)" by (auto simp: plain4_def split: res.splits)
  have 5: "fst (finishTransition plainCtx [] None plain4) = Inr ([], 21068, 21068, False)" by code_simp
  have b: "BitLen 21068 \<le> 64" "Uint64 21068 = 21068" by code_simp+
  have "ApplyMessage 5 plainCtx richEVM plainMsg 100000 = Ok (finishTransition plainCtx [] None plain4)"
    using b by (simp add: ApplyMessage_def plain0_def [symmetric] TransitionDb_def 1 2 i 3 4 not_less)
  with 5 show ?thesis by (metis prod.collapse)
qed

theorem ApplyMessage_gas_witness:
  "\<exists>st'. ApplyMessage 5 plainCtx richEVM plainMsg 100000 = Ok (Inr ([], 21068, 21068, False), st') \<and>
    st_gp st' = 100000 - 21068"
proof -
  from plainMsg_run obtain st' where *: "ApplyMessage 5 plainCtx richEVM plainMsg 100000 = Ok (Inr ([], 21068, 21068, False), st')"
    by blast
  from ApplyMessage_gas [OF * plainRun_ok plainMsg_ok(1)] * show ?thesis by blast
qed

text \<open>
  C10. No message creates value: what the sender, the miner and all other accounts hold after a message
  was applied, fees and refunds paid, is at most what they held before, no balance is negative, and
  only finitely many change.
\<close>

theorem ApplyMessage_creates_no_value:
  assumes "ApplyMessage n cx evm msg gp = Ok (Inr (ret, required, used, failed), st')"
    and "db_ok (cx_ext cx) (db evm)" "\<not> readOnly evm" "\<not> DisableGasMetering cx" "0 \<le> GasPrice cx" "msg_ok msg"
  shows "(\<forall>a. 0 \<le> bal (cx_ext cx) (st_db st') a) \<and>
    (\<exists>D. finite D \<and> (\<forall>a. a \<notin> D \<longrightarrow> bal (cx_ext cx) (st_db st') a = bal (cx_ext cx) (db evm) a) \<and>
       (\<forall>A. finite A \<longrightarrow> D \<subseteq> A \<longrightarrow> sum (bal (cx_ext cx) (st_db st')) A \<le> sum (bal (cx_ext cx) (db evm)) A))"
  using ApplyMessage_spec(7,8) [OF assms] sum_bal_mono db_okD(3) unfolding no_mint_def sane_def by metis

theorem ApplyMessage_creates_no_value_witness:
  "\<exists>st'. ApplyMessage 5 plainCtx richEVM plainMsg 100000 = Ok (Inr ([], 21068, 21068, False), st') \<and>
    (\<forall>a. 0 \<le> bal (cx_ext plainCtx) (st_db st') a)"
proof -
  from plainMsg_run obtain st' where *: "ApplyMessage 5 plainCtx richEVM plainMsg 100000 = Ok (Inr ([], 21068, 21068, False), st')"
    by blast
  from ApplyMessage_creates_no_value [OF * plainRun_ok plainMsg_ok(1)] * show ?thesis by blast
qed



text \<open>
  C13. Applying a message ends: with more fuel than the message has gas the transition returns (or
  panics), whatever code it runs.
\<close>

theorem ApplyMessage_terminates:
  assumes "\<not> DisableGasMetering cx" "db_ok (cx_ext cx) (db evm)" "0 \<le> msg_Gas msg" "msg_Gas msg < int n"
  shows "ApplyMessage n cx evm msg gp \<noteq> NoFuel"
  by (rule ApplyMessage_ends [OF assms])

theorem ApplyMessage_terminates_witness: "ApplyMessage 30001 plainCtx richEVM plainMsg 100000 \<noteq> NoFuel"
  by (rule ApplyMessage_terminates [OF plainRun_ok(3,1) plainMsg_ok(2)]) (simp add: plainMsg_def)

end
