(* ===== verification/RlpEncode.thy ===== *)
theory RlpEncode
  imports Rlp
begin

text \<open>
  The encoder of rlp/encode.go computes the textbook encoding: string data and list headers are
  collected in two buffers, the size of a list is known only when it ends, and the buffers are merged
  at the end. The reference definition is a recursion on the value.
\<close>

section \<open>The textbook encoding\<close>

definition rlpHead :: "byte \<Rightarrow> byte \<Rightarrow> nat \<Rightarrow> bytes" where
  "rlpHead small large n =
     (if n < 56 then [small + of_nat n] else (let b = nat_bytes n in (large + of_nat (length b)) # b))"

definition rlpStr :: "bytes \<Rightarrow> bytes" where
  "rlpStr b = (if length b = 1 \<and> hd b < 0x80 then b else rlpHead 0x80 0xB7 (length b) @ b)"

definition rlpLst :: "bytes \<Rightarrow> bytes" where
  "rlpLst payload = rlpHead 0xC0 0xF7 (length payload) @ payload"

fun rlpEnc :: "rlpval \<Rightarrow> bytes" where
  "rlpEnc (RBytes b) = rlpStr b"
| "rlpEnc (RUint i) = rlpStr (nat_bytes (unat i))"
| "rlpEnc (RBool b) = rlpStr (if b then [1] else [])"
| "rlpEnc (RBigInt i) = rlpStr (nat_bytes (nat i))"
| "rlpEnc (RRaw b) = b"
| "rlpEnc RNil = rlpLst []"
| "rlpEnc (RList vs) = rlpLst (concat (map rlpEnc vs))"

fun encodable :: "rlpval \<Rightarrow> bool" where
  "encodable (RBigInt i) \<longleftrightarrow> 0 \<le> i"
| "encodable (RList vs) \<longleftrightarrow> (\<forall>v \<in> set vs. encodable v)"
| "encodable _ \<longleftrightarrow> True"

section \<open>Integers\<close>

lemma nat_bytes_0 [simp]: "nat_bytes 0 = []"
  by (simp add: nat_bytes.simps)

lemma nat_bytes_step: "0 < n \<Longrightarrow> nat_bytes n = nat_bytes (n div 256) @ [of_nat (n mod 256)]"
  by (simp add: nat_bytes.simps [of n])

lemma nat_bytes_small: "0 < n \<Longrightarrow> n < 256 \<Longrightarrow> nat_bytes n = [of_nat n]"
  by (simp add: nat_bytes_step)

lemma ucast_of_nat: "(ucast i :: byte) = of_nat (unat (i :: uint64) mod 256)"
  by (simp add: word_unat_eq_iff unsigned_ucast_eq unsigned_of_nat take_bit_eq_mod)

lemma beBytes_snoc: "beBytes (Suc n) i = beBytes n (drop_bit 8 i) @ [ucast i]"
  by (induction n) (simp_all add: ac_simps)

lemma beBytes_nat_bytes:
  "256 ^ n \<le> unat i \<Longrightarrow> unat i < 256 ^ Suc n \<Longrightarrow> beBytes (Suc n) i = nat_bytes (unat i)"
proof (induction n arbitrary: i)
  case 0
  then have "0 < unat i" "unat i < 256" by simp_all
  then have "nat_bytes (unat i) = [ucast i]" unfolding ucast_of_nat by (simp only: nat_bytes_small mod_less)
  then show ?case by simp
next
  case (Suc n)
  have d: "unat (drop_bit 8 i) = unat i div 256" by (simp add: unat_drop_bit)
  have "256 ^ n \<le> unat i div 256" using div_le_mono [OF Suc.prems(1), of 256] by simp
  moreover have "unat i div 256 < 256 ^ Suc n"
    using Suc.prems(2) by (intro less_mult_imp_div_less) (simp add: mult.commute)
  ultimately have "beBytes (Suc n) (drop_bit 8 i) = nat_bytes (unat i div 256)"
    using Suc.IH [of "drop_bit 8 i"] by (simp only: d)
  moreover have "0 < unat i" using Suc.prems(1) by (metis order_less_le_trans zero_less_numeral zero_less_power)
  ultimately show ?case unfolding beBytes_snoc [of "Suc n"] ucast_of_nat by (simp only: nat_bytes_step)
qed

lemma putint_eq:
  assumes "i \<noteq> 0"
  shows "putint i = nat_bytes (unat i)"
proof -
  let ?u = "unat i"
  have nz: "1 \<le> ?u" using assms by (simp add: unat_gt_0 Suc_le_eq)
  have lt: "i < 2 ^ 8 \<longleftrightarrow> ?u < 256 ^ 1" "i < 2 ^ 16 \<longleftrightarrow> ?u < 256 ^ 2" "i < 2 ^ 24 \<longleftrightarrow> ?u < 256 ^ 3"
    "i < 2 ^ 32 \<longleftrightarrow> ?u < 256 ^ 4" "i < 2 ^ 40 \<longleftrightarrow> ?u < 256 ^ 5" "i < 2 ^ 48 \<longleftrightarrow> ?u < 256 ^ 6"
    "i < 2 ^ 56 \<longleftrightarrow> ?u < 256 ^ 7" by (simp_all add: word_less_nat_alt)
  have be: "beBytes m i = nat_bytes ?u" if "0 < m" "256 ^ (m - 1) \<le> ?u" "?u < 256 ^ m" for m
    using beBytes_nat_bytes [of "m - 1" i] that by simp
  have top: "?u < 256 ^ 8" using unat_lt64 [of i] by simp
  have if_eq: "(P \<Longrightarrow> a = c) \<Longrightarrow> (\<not> P \<Longrightarrow> b = c) \<Longrightarrow> (if P then a else b) = c" for P and a b c :: bytes
    by simp
  show ?thesis
    unfolding putint_def lt by (intro if_eq be) (use nz top in \<open>simp_all add: not_less\<close>)
qed

lemma intsizeLoop_eq: "intsizeLoop k i = k + length (nat_bytes (unat i div 256))"
proof (induction k i rule: intsizeLoop.induct)
  case (1 k i)
  have d: "unat (drop_bit 8 i) = unat i div 256" by (simp add: unat_drop_bit)
  show ?case
  proof (cases "drop_bit 8 i = 0")
    case True
    then have "unat i div 256 = 0" using d by simp
    then show ?thesis using True by (simp add: intsizeLoop.simps [of k i])
  next
    case False
    then have "0 < unat i div 256" using d by (simp add: unat_gt_0 [symmetric])
    then show ?thesis
      using "1" [OF refl False] False by (simp add: intsizeLoop.simps [of k i] d nat_bytes_step [of "unat i div 256"])
  qed
qed

lemma intsize_eq:
  assumes "i \<noteq> 0"
  shows "intsize i = length (nat_bytes (unat i))"
proof -
  have "0 < unat i" using assms by (simp add: unat_gt_0)
  then show ?thesis by (simp add: intsize_def intsizeLoop_eq nat_bytes_step [of "unat i"])
qed

lemma unat_of_nat64: "n < 2 ^ 64 \<Longrightarrow> unat (of_nat n :: uint64) = n"
  by (simp add: unsigned_of_nat take_bit_nat_eq_self_iff)

lemma small_size: "n < 2 ^ 64 \<Longrightarrow> (of_nat n :: uint64) < 56 \<longleftrightarrow> n < 56"
  by (simp add: word_less_nat_alt unat_of_nat64)

lemma of_nat_nz: "n < 2 ^ 64 \<Longrightarrow> 0 < n \<Longrightarrow> (of_nat n :: uint64) \<noteq> 0"
  using unat_of_nat64 [of n] by auto

lemma ucast_of_nat64: "n < 256 \<Longrightarrow> (ucast (of_nat n :: uint64) :: byte) = of_nat n"
proof -
  assume n: "n < 256"
  then have "unat (of_nat n :: uint64) = n" by (simp add: unat_of_nat64)
  then show "(ucast (of_nat n :: uint64) :: byte) = of_nat n" unfolding ucast_of_nat using n by (simp only: mod_less)
qed

lemma unat_ucast8: "unat (ucast (i :: uint64) :: byte) = unat i mod 256"
  by (simp add: unsigned_ucast_eq take_bit_eq_mod)

lemma puthead_eq:
  assumes n: "n < 2 ^ 64"
  shows "puthead a b (of_nat n) = rlpHead a b n"
proof (cases "n < 56")
  case True
  then show ?thesis using n by (simp add: puthead_def rlpHead_def small_size ucast_of_nat64)
next
  case False
  then have "putint (of_nat n) = nat_bytes n" using putint_eq of_nat_nz n by (simp add: unat_of_nat64)
  then show ?thesis using False n by (simp add: puthead_def rlpHead_def small_size Let_def)
qed

lemma headsize_eq:
  assumes n: "n < 2 ^ 64"
  shows "headsize (of_nat n) = length (rlpHead a b n)"
proof (cases "n < 56")
  case True
  then show ?thesis using n by (simp add: headsize_def rlpHead_def small_size)
next
  case False
  then have "intsize (of_nat n) = length (nat_bytes n)" using intsize_eq of_nat_nz n by (simp add: unat_of_nat64)
  then show ?thesis using False n by (simp add: headsize_def rlpHead_def small_size Let_def)
qed

section \<open>Strings and integers\<close>

lemma encodeStringHeader_eq:
  "n < 2 ^ 64 \<Longrightarrow> encodeStringHeader w n = w\<lparr>eb_str := eb_str w @ rlpHead 0x80 0xB7 n\<rparr>"
  using putint_eq [of "of_nat n"] of_nat_nz [of n]
  by (auto simp: encodeStringHeader_def rlpHead_def unat_of_nat64 Let_def not_less)

lemma byte_le_less: "(x :: byte) \<le> 0x7F \<longleftrightarrow> x < 0x80"
proof -
  have "unat x \<le> 127 \<longleftrightarrow> unat x < 128" by linarith
  then show ?thesis by (simp add: word_le_nat_alt word_less_nat_alt)
qed

lemma encodeString_eq:
  "length b < 2 ^ 64 \<Longrightarrow> encodeString w b = w\<lparr>eb_str := eb_str w @ rlpStr b\<rparr>"
  by (cases b) (auto simp: encodeString_def encodeStringHeader_eq rlpStr_def byte_le_less Let_def)

lemma nat_bytes_ge128: "128 \<le> n \<Longrightarrow> \<not> (length (nat_bytes n) = 1 \<and> hd (nat_bytes n) < (0x80 :: byte))"
proof
  assume n: "128 \<le> n" and h: "length (nat_bytes n) = 1 \<and> hd (nat_bytes n) < 0x80"
  then have "nat_bytes n = [hd (nat_bytes n)]" by (cases "nat_bytes n") auto
  then have "int n = uint (hd (nat_bytes n))" using SetBytes_nat_bytes [of n] SetBytes_snoc [of "[]"] by (metis append_Nil SetBytes_Nil add_0 mult_zero_left)
  moreover have "uint (hd (nat_bytes n)) < 128" using h by (simp add: word_less_def)
  ultimately show False using n by simp
qed

lemma length_nat_bytes_le: "n < 256 ^ k \<Longrightarrow> length (nat_bytes n) \<le> k"
proof (induction k arbitrary: n)
  case (Suc k)
  have "n div 256 < 256 ^ k" using Suc.prems by (intro less_mult_imp_div_less) (simp add: mult.commute)
  then show ?case using Suc.IH by (cases "n = 0") (simp_all add: nat_bytes_step)
qed simp

lemma writeUint_eq: "writeUint w i = w\<lparr>eb_str := eb_str w @ rlpEnc (RUint i)\<rparr>"
proof -
  have l: "length (nat_bytes (unat i)) < 56" using length_nat_bytes_le [of "unat i" 8] unat_lt64 [of i] by simp
  consider "i = 0" | "i \<noteq> 0" "i < 128" | "128 \<le> i" by fastforce
  then show ?thesis
  proof cases
    case 2
    then have "0 < unat i" "unat i < 128" by (simp_all add: unat_gt_0 word_less_nat_alt)
    then have "nat_bytes (unat i) = [ucast i]" "(ucast i :: byte) < 0x80"
      unfolding ucast_of_nat by (simp only: nat_bytes_small mod_less, simp add: word_less_nat_alt unat_ucast8)
    then show ?thesis using 2 by (simp add: writeUint_def rlpStr_def)
  next
    case 3
    then have "i \<noteq> 0" "\<not> i < 128" by auto
    moreover have "128 \<le> unat i" using 3 by (simp add: word_le_nat_alt)
    ultimately show ?thesis
      using nat_bytes_ge128 [of "unat i"] l by (simp add: writeUint_def rlpStr_def putint_eq rlpHead_def Let_def)
  qed (simp add: writeUint_def rlpStr_def rlpHead_def)
qed

section \<open>Merging the two buffers\<close>

fun merge :: "bytes \<Rightarrow> listhead list \<Rightarrow> nat \<Rightarrow> bytes" where
  "merge x [] p = drop p x"
| "merge x (h # hs) p = take (lh_offset h - p) (drop p x) @ listhead_encode h @ merge x hs (lh_offset h)"

fun heads_ok :: "nat \<Rightarrow> nat \<Rightarrow> listhead list \<Rightarrow> bool" where
  "heads_ok p n [] \<longleftrightarrow> p \<le> n"
| "heads_ok p n (h # hs) \<longleftrightarrow> p \<le> lh_offset h \<and> heads_ok (lh_offset h) n hs"

definition hshift :: "nat \<Rightarrow> listhead \<Rightarrow> listhead" where
  "hshift k h = h\<lparr>lh_offset := lh_offset h + k\<rparr>"

lemma hshift_simps [simp]:
  "lh_offset (hshift k h) = lh_offset h + k" "listhead_encode (hshift k h) = listhead_encode h" "hshift 0 h = h"
  "hshift j (hshift k h) = hshift (j + k) h"
  by (simp_all add: hshift_def listhead_encode_def)

lemma map_hshift_0 [simp]: "map (hshift 0) hs = hs"
  by (simp add: map_idI)

lemma heads_ok_le: "heads_ok p n hs \<Longrightarrow> p \<le> n"
  by (induction p n hs rule: heads_ok.induct) auto

lemma heads_ok_append:
  "heads_ok p n hs \<Longrightarrow> heads_ok 0 m gs \<Longrightarrow> heads_ok p (n + m) (hs @ map (hshift n) gs)"
proof (induction p n hs rule: heads_ok.induct)
  case (1 p n)
  have "heads_ok q m gs \<Longrightarrow> r \<le> q + n \<Longrightarrow> heads_ok r (n + m) (map (hshift n) gs)" for q r
    by (induction q m gs arbitrary: r rule: heads_ok.induct) auto
  from this [of 0 p] 1 show ?case by simp
qed auto

lemma merge_shift: "merge (x @ y) (map (hshift (length x)) gs) (q + length x) = merge y gs q"
  by (induction gs arbitrary: q) simp_all

lemma merge_append:
  "heads_ok p (length x) hs \<Longrightarrow> merge (x @ y) (hs @ map (hshift (length x)) gs) p = merge x hs p @ merge y gs 0"
proof (induction hs arbitrary: p)
  case Nil
  show ?case
  proof (cases gs)
    case (Cons h gs')
    then show ?thesis using Nil merge_shift [of x y gs' "lh_offset h"] by simp
  qed (use Nil in simp)
next
  case (Cons h hs)
  then have "lh_offset h \<le> length x" using heads_ok_le by auto
  with Cons show ?case by simp
qed

lemma copyTo_fits:
  assumes "i + length v \<le> length xs"
  shows "length (copyTo xs i (length xs) v) = length xs" "take (i + length v) (copyTo xs i (length xs) v) = take i xs @ v"
proof -
  have "copyTo xs i (length xs) v = take i xs @ v @ drop (i + length v) xs" using assms by (simp add: copyTo_def Let_def)
  then show "length (copyTo xs i (length xs) v) = length xs" "take (i + length v) (copyTo xs i (length xs) v) = take i xs @ v"
    using assms by simp_all
qed

lemma toBytesLoop_merge:
  "heads_ok p (length s) hs \<Longrightarrow> length out = pos + length (merge s hs p) \<Longrightarrow>
   toBytesLoop s hs p pos out = take pos out @ merge s hs p"
proof (induction hs arbitrary: p pos out)
  case Nil
  then show ?case by (simp add: copyTo_def Let_def)
next
  case (Cons h hs)
  let ?o = "lh_offset h" and ?e = "listhead_encode h"
  let ?c = "take (?o - p) (drop p s)"
  have o: "p \<le> ?o" "?o \<le> length s" using Cons.prems(1) heads_ok_le by auto
  then have n: "min (length out - pos) (length ?c) = ?o - p" using Cons.prems(2) by simp
  define out1 where "out1 = copyTo out pos (length out) ?c"
  define out2 where "out2 = copyTo out1 (pos + (?o - p)) (length out) ?e"
  have c: "length ?c = ?o - p" using o by simp
  have len: "length out = pos + (?o - p) + length ?e + length (merge s hs ?o)" using Cons.prems(2) o by simp
  have l: "length out1 = length out" "take (pos + (?o - p)) out1 = take pos out @ ?c"
    using copyTo_fits [of pos ?c out] len unfolding out1_def c by linarith+
  have "length out2 = length out" "take (pos + (?o - p) + length ?e) out2 = take pos out @ ?c @ ?e"
    using copyTo_fits [of "pos + (?o - p)" ?e out1] len l(1) unfolding out2_def by (simp_all add: l(2))
  moreover have "toBytesLoop s hs ?o (pos + (?o - p) + length ?e) out2 = take (pos + (?o - p) + length ?e) out2 @ merge s hs ?o"
    using Cons.prems(1) len calculation(1) by (intro Cons.IH) auto
  moreover have "toBytesLoop s (h # hs) p pos out = toBytesLoop s hs (p + (?o - p)) (pos + (?o - p) + length ?e) out2"
    by (simp only: toBytesLoop.simps Let_def n out1_def out2_def)
  moreover have "p + (?o - p) = ?o" using o by simp
  ultimately show ?case by simp
qed

definition emits :: "encbuf \<Rightarrow> encbuf \<Rightarrow> bytes \<Rightarrow> bool" where
  "emits w w' out \<longleftrightarrow> (\<exists>x hs. eb_str w' = eb_str w @ x \<and> lheads w' = lheads w @ map (hshift (length (eb_str w))) hs \<and>
     heads_ok 0 (length x) hs \<and> merge x hs 0 = out \<and> lhsize w' + length x = lhsize w + length out)"

lemma emits_str: "emits w (w\<lparr>eb_str := eb_str w @ out\<rparr>) out"
  unfolding emits_def by (intro exI [of _ out] exI [of _ "[]"]) simp

lemma emits_refl: "emits w w []"
  unfolding emits_def by (intro exI [of _ "[]"]) simp

lemma emits_trans:
  assumes "emits w w1 a" "emits w1 w2 b"
  shows "emits w w2 (a @ b)"
proof -
  from assms obtain x hs y gs where
    1: "eb_str w1 = eb_str w @ x" "lheads w1 = lheads w @ map (hshift (length (eb_str w))) hs" "heads_ok 0 (length x) hs"
      "merge x hs 0 = a" "lhsize w1 + length x = lhsize w + length a" and
    2: "eb_str w2 = eb_str w1 @ y" "lheads w2 = lheads w1 @ map (hshift (length (eb_str w1))) gs" "heads_ok 0 (length y) gs"
      "merge y gs 0 = b" "lhsize w2 + length y = lhsize w1 + length b" unfolding emits_def by blast
  then show ?thesis
    unfolding emits_def using heads_ok_append [OF 1(3) 2(3)] merge_append [OF 1(3), of y gs]
    by (intro exI [of _ "x @ y"] exI [of _ "hs @ map (hshift (length x)) gs"]) (simp add: comp_def)
qed

lemma emits_list:
  assumes w1: "eb_list w = (lh, w1)" and e: "emits w1 w2 out" and n: "length out < 2 ^ 64"
  shows "emits w (listEnd w2 lh) (rlpLst out)"
proof -
  let ?k = "length (eb_str w)"
  from e obtain x hs where x: "eb_str w2 = eb_str w1 @ x" "lheads w2 = lheads w1 @ map (hshift (length (eb_str w1))) hs"
    "heads_ok 0 (length x) hs" "merge x hs 0 = out" "lhsize w2 + length x = lhsize w1 + length out" unfolding emits_def by blast
  have w: "lh = length (lheads w)" "eb_str w1 = eb_str w" "lhsize w1 = lhsize w"
    "lheads w1 = lheads w @ [\<lparr>lh_offset = ?k, lh_size = lhsize w\<rparr>]" using w1 by (auto simp: eb_list_def)
  define h where "h = \<lparr>lh_offset = 0, lh_size = length out\<rparr>"
  have sz: "eb_size w2 = ?k + lhsize w + length out" using x w by (simp add: eb_size_def)
  have end1: "listEnd w2 lh = w2\<lparr>lheads := lheads w @ hshift ?k h # map (hshift ?k) hs,
      lhsize := lhsize w2 + headsize (of_nat (length out))\<rparr>"
    using x w n by (simp add: listEnd_def Let_def nth_append sz headsize_def small_size h_def hshift_def list_update_append)
  have enc: "listhead_encode h = rlpHead 0xC0 0xF7 (length out)" using n by (simp add: listhead_encode_def h_def puthead_eq)
  show ?thesis
    unfolding emits_def end1 using x w
    by (intro exI [of _ x] exI [of _ "h # hs"]) (simp add: enc rlpLst_def headsize_eq [OF n, where a = "0xC0" and b = "0xF7"], simp add: h_def)
qed

section \<open>Values\<close>

lemma rlpStr_length: "length b \<le> length (rlpStr b)"
  by (simp add: rlpStr_def)

lemma rlpLst_length: "length p \<le> length (rlpLst p)"
  by (simp add: rlpLst_def)

lemma writeVal_emits:
  "encodable v \<Longrightarrow> length (rlpEnc v) < 2 ^ 64 \<Longrightarrow> \<exists>w'. writeVal v w = Some w' \<and> emits w w' (rlpEnc v)"
  "\<forall>v \<in> set vs. encodable v \<Longrightarrow> length (concat (map rlpEnc vs)) < 2 ^ 64 \<Longrightarrow>
     \<exists>w'. writeVals vs w = Some w' \<and> emits w w' (concat (map rlpEnc vs))"
proof (induction v w and vs w rule: writeVal_writeVals.induct)
  case (1 b w)
  then show ?case using rlpStr_length [of b] emits_str by (simp add: encodeString_eq)
next
  case (2 i w)
  then show ?case using emits_str by (simp add: writeUint_eq del: rlpEnc.simps)
next
  case (3 b w)
  have "writeBool w b = w\<lparr>eb_str := eb_str w @ rlpEnc (RBool b)\<rparr>" by (simp add: writeBool_def rlpStr_def rlpHead_def)
  then show ?case using emits_str by (simp del: rlpEnc.simps)
next
  case (4 i w)
  have "writeBigInt w i = Some (w\<lparr>eb_str := eb_str w @ rlpEnc (RBigInt i)\<rparr>)"
    using 4 rlpStr_length [of "nat_bytes (nat i)"]
    by (auto simp: writeBigInt_def encodeString_eq Bytes_def rlpStr_def rlpHead_def)
  then show ?case using emits_str by (simp del: rlpEnc.simps)
next
  case (6 w)
  show ?case using emits_str by (simp add: rlpLst_def rlpHead_def)
next
  case (7 vs w)
  obtain lh w1 where w1: "eb_list w = (lh, w1)" by fastforce
  have l: "length (concat (map rlpEnc vs)) < 2 ^ 64"
    using 7(3) rlpLst_length [of "concat (map rlpEnc vs)"] by simp
  from 7(1) [OF w1 [symmetric]] 7(2) l obtain w2 where "writeVals vs w1 = Some w2" "emits w1 w2 (concat (map rlpEnc vs))"
    by auto
  then show ?case using w1 emits_list [OF w1 _ l] by simp
next
  case (9 v vs w)
  then obtain w1 where 1: "writeVal v w = Some w1" "emits w w1 (rlpEnc v)" by auto
  with 9 obtain w2 where "writeVals vs w1 = Some w2" "emits w1 w2 (concat (map rlpEnc vs))" by auto
  with 1 emits_trans show ?case by auto
qed (auto intro: emits_str emits_refl)

lemma writeVal_fails:
  "\<not> encodable v \<Longrightarrow> writeVal v w = None"
  "\<not> (\<forall>v \<in> set vs. encodable v) \<Longrightarrow> writeVals vs w = None"
  by (induction v w and vs w rule: writeVal_writeVals.induct) (auto simp: writeBigInt_def split: option.splits prod.splits)

lemma toBytes_emits: "emits emptyBuf w out \<Longrightarrow> toBytes w = out"
  using toBytesLoop_merge [of 0 "eb_str w" "lheads w" "replicate (eb_size w) 0" 0]
  by (auto simp: emits_def emptyBuf_def toBytes_def eb_size_def add.commute)

lemma EncodeToBytes_eq:
  "length (rlpEnc v) < 2 ^ 64 \<Longrightarrow> EncodeToBytes v = (if encodable v then Some (rlpEnc v) else None)"
  using writeVal_emits(1) [of v emptyBuf] writeVal_fails(1) [of v emptyBuf] toBytes_emits by (auto simp: EncodeToBytes_def)

section \<open>Properties\<close>



end
