(* ===== verification/RlpDecode.thy ===== *)
theory RlpDecode
  imports Rlp
begin

text \<open>
  Decoding: the slice functions of rlp/raw.go and the stream decoder of rlp/decode.go. The reader
  behind a stream is a byte reader, modelled as the bytes it has left. The decoders that reflection
  builds from a Go type are one function on a description of the type; it takes fuel, because a list
  of unknown length is read in a loop.
\<close>

section \<open>Errors and kinds\<close>

datatype Kind = Byte | String | List

datatype rlperr =
    EOL
  | ErrExpectedString
  | ErrExpectedList
  | ErrCanonInt
  | ErrCanonSize
  | ErrElemTooLarge
  | ErrValueTooLarge
  | ErrMoreThanOneValue
  | ErrNotInList
  | ErrNotAtEOL
  | ErrUintOverflow
  | ErrInvalidBool uint64
  | IoEOF
  | IoErrUnexpectedEOF
  | DecodeError rlperr
  | TooLong
  | TooShort
  | TooFewElements

section \<open>raw.go\<close>

text \<open>The first \<open>slen\<close> bytes as a big-endian number; the shifts of the source only for 1 to 8 bytes.\<close>

fun shiftBytes :: "nat \<Rightarrow> bytes \<Rightarrow> uint64" where
  "shiftBytes n [] = 0"
| "shiftBytes n (b # bs) = (if n = 0 then 0 else push_bit (8 * (n - 1)) (ucast b) OR shiftBytes (n - 1) bs)"

definition readSize :: "bytes \<Rightarrow> byte \<Rightarrow> (rlperr + uint64) res" where
  "readSize b slen =
     (if unat slen > length b then Ok (Inl IoErrUnexpectedEOF)
      else
        (let s = (if 1 \<le> unat slen \<and> unat slen \<le> 8 then shiftBytes (unat slen) b else 0) in
         if s < 56 then Ok (Inl ErrCanonSize)
         else (case b of [] \<Rightarrow> Panic | b0 # _ \<Rightarrow> if b0 = 0 then Ok (Inl ErrCanonSize) else Ok (Inr s))))"

text \<open>Rejecting values larger than the input, the last step of \<^verbatim>\<open>readKind\<close>.\<close>

definition checkSize :: "bytes \<Rightarrow> Kind \<Rightarrow> uint64 \<Rightarrow> rlperr + uint64 \<Rightarrow> rlperr + Kind \<times> uint64 \<times> uint64" where
  "checkSize buf k tagsize r =
     (case r of
        Inl err \<Rightarrow> Inl err
      | Inr contentsize \<Rightarrow>
          if contentsize > of_nat (length buf) - tagsize then Inl ErrValueTooLarge
          else Inr (k, tagsize, contentsize))"

definition readKind :: "bytes \<Rightarrow> (rlperr + Kind \<times> uint64 \<times> uint64) res" where
  "readKind buf =
     (case buf of
        [] \<Rightarrow> Ok (Inl IoErrUnexpectedEOF)
      | b # rest \<Rightarrow>
          if b < 0x80 then Ok (checkSize buf Byte 0 (Inr 1))
          else if b < 0xB8 then
            (let contentsize = ucast (b - 0x80) in
             if contentsize = 1
             then (case rest of
                     [] \<Rightarrow> Panic
                   | b1 # _ \<Rightarrow> if b1 < 128 then Ok (Inl ErrCanonSize) else Ok (checkSize buf String 1 (Inr contentsize)))
             else Ok (checkSize buf String 1 (Inr contentsize)))
          else if b < 0xC0 then
            bind_res (readSize rest (b - 0xB7)) (\<lambda>r. Ok (checkSize buf String (ucast (b - 0xB7) + 1) r))
          else if b < 0xF8 then Ok (checkSize buf List 1 (Inr (ucast (b - 0xC0))))
          else bind_res (readSize rest (b - 0xF7)) (\<lambda>r. Ok (checkSize buf List (ucast (b - 0xF7) + 1) r)))"

definition Split :: "bytes \<Rightarrow> (rlperr + Kind \<times> bytes \<times> bytes) res" where
  "Split b =
     bind_res (readKind b) (\<lambda>r. case r of
        Inl err \<Rightarrow> Ok (Inl err)
      | Inr (k, ts, cs) \<Rightarrow>
          Ok (Inr (k, take (unat cs) (drop (unat ts) b), drop (unat (ts + cs)) b)))"

definition SplitString :: "bytes \<Rightarrow> (rlperr + bytes \<times> bytes) res" where
  "SplitString b =
     bind_res (Split b) (\<lambda>r. case r of
        Inl err \<Rightarrow> Ok (Inl err)
      | Inr (k, content, rest) \<Rightarrow> if k = List then Ok (Inl ErrExpectedString) else Ok (Inr (content, rest)))"

definition SplitList :: "bytes \<Rightarrow> (rlperr + bytes \<times> bytes) res" where
  "SplitList b =
     bind_res (Split b) (\<lambda>r. case r of
        Inl err \<Rightarrow> Ok (Inl err)
      | Inr (k, content, rest) \<Rightarrow> if k \<noteq> List then Ok (Inl ErrExpectedList) else Ok (Inr (content, rest)))"

text \<open>The loop of \<^verbatim>\<open>CountValues\<close>; every value has at least one byte.\<close>

fun CountValuesLoop :: "nat \<Rightarrow> bytes \<Rightarrow> nat \<Rightarrow> (rlperr + nat) res" where
  "CountValuesLoop 0 b i = NoFuel"
| "CountValuesLoop (Suc n) b i =
     (if b = [] then Ok (Inr i)
      else bind_res (readKind b) (\<lambda>r. case r of
             Inl err \<Rightarrow> Ok (Inl err)
           | Inr (_, tagsize, size') \<Rightarrow> CountValuesLoop n (drop (unat (tagsize + size')) b) (i + 1)))"

definition CountValues :: "nat \<Rightarrow> bytes \<Rightarrow> (rlperr + nat) res" where
  "CountValues n b = CountValuesLoop n b 0"

definition ListSize :: "uint64 \<Rightarrow> uint64" where
  "ListSize contentSize = of_nat (headsize contentSize) + contentSize"

section \<open>Streams\<close>

record listpos =
  lp_pos :: uint64
  lp_size :: uint64

text \<open>\<open>s_kind\<close> is None where the source has -1; the innermost list is the head of \<open>s_stack\<close>.\<close>

record Stream =
  s_r :: bytes
  s_remaining :: uint64
  s_limited :: bool
  s_kind :: "Kind option"
  s_size :: uint64
  s_byteval :: byte
  s_kinderr :: "rlperr option"
  s_stack :: "listpos list"

type_synonym 'a sres = "(rlperr + 'a) \<times> Stream"

definition willReadList :: "Stream \<Rightarrow> uint64 \<Rightarrow> rlperr option \<times> Stream" where
  "willReadList s n =
     (case s_stack s of
        [] \<Rightarrow> (None, s)
      | tos # st \<Rightarrow>
          if n > lp_size tos - lp_pos tos then (Some ErrElemTooLarge, s)
          else (None, s\<lparr>s_stack := tos\<lparr>lp_pos := lp_pos tos + n\<rparr> # st\<rparr>))"

definition willRead :: "Stream \<Rightarrow> uint64 \<Rightarrow> rlperr option \<times> Stream" where
  "willRead s0 n =
     (case willReadList (s0\<lparr>s_kind := None\<rparr>) n of
        (Some err, s) \<Rightarrow> (Some err, s)
      | (None, s) \<Rightarrow>
          if s_limited s
          then (if n > s_remaining s then (Some ErrValueTooLarge, s)
                else (None, s\<lparr>s_remaining := s_remaining s - n\<rparr>))
          else (None, s))"

definition s_readByte :: "Stream \<Rightarrow> byte sres" where
  "s_readByte s =
     (case willRead s 1 of
        (Some err, s) \<Rightarrow> (Inl err, s)
      | (None, s) \<Rightarrow>
          (case s_r s of
             [] \<Rightarrow> (Inl IoErrUnexpectedEOF, s)
           | b # r \<Rightarrow> (Inr b, s\<lparr>s_r := r\<rparr>)))"

text \<open>\<^verbatim>\<open>readFull\<close> fills a buffer of \<open>n\<close> bytes; at the end of the input what is left is consumed.\<close>

definition s_readFull :: "Stream \<Rightarrow> nat \<Rightarrow> bytes sres" where
  "s_readFull s n =
     (case willRead s (of_nat n) of
        (Some err, s) \<Rightarrow> (Inl err, s)
      | (None, s) \<Rightarrow>
          if n \<le> length (s_r s) then (Inr (take n (s_r s)), s\<lparr>s_r := drop n (s_r s)\<rparr>)
          else (Inl IoErrUnexpectedEOF, s\<lparr>s_r := []\<rparr>))"

definition bigEndianUint64 :: "bytes \<Rightarrow> uint64" where
  "bigEndianUint64 b = word_of_int (SetBytes b)"

definition s_readUint :: "Stream \<Rightarrow> byte \<Rightarrow> uint64 sres" where
  "s_readUint s size' =
     (if size' = 0 then (Inr 0, s\<lparr>s_kind := None\<rparr>)
      else if size' = 1 then
        (case s_readByte s of (Inl err, s) \<Rightarrow> (Inl err, s) | (Inr b, s) \<Rightarrow> (Inr (ucast b), s))
      else
        (case s_readFull s (unat size') of
           (Inl err, s) \<Rightarrow> (Inl err, s)
         | (Inr b, s) \<Rightarrow> if hd b = 0 then (Inl ErrCanonSize, s) else (Inr (bigEndianUint64 b), s)))"

definition atTop :: "Stream \<Rightarrow> rlperr \<Rightarrow> rlperr" where
  "atTop s err = (if s_stack s = [] \<and> (err = IoErrUnexpectedEOF \<or> err = ErrValueTooLarge) then IoEOF else err)"

text \<open>The kind, the size and the error are returned together.\<close>

definition longSize :: "Kind \<Rightarrow> uint64 sres \<Rightarrow> (Kind \<times> uint64 \<times> rlperr option) \<times> Stream" where
  "longSize k r =
     (case r of
        (Inl err, s) \<Rightarrow> ((k, 0, Some err), s)
      | (Inr size', s) \<Rightarrow> ((k, size', if size' < 56 then Some ErrCanonSize else None), s))"

definition s_readKind :: "Stream \<Rightarrow> (Kind \<times> uint64 \<times> rlperr option) \<times> Stream" where
  "s_readKind s =
     (case s_readByte s of
        (Inl err, s) \<Rightarrow> ((Byte, 0, Some (atTop s err)), s)
      | (Inr b, s) \<Rightarrow>
          (let s = s\<lparr>s_byteval := 0\<rparr> in
           if b < 0x80 then ((Byte, 0, None), s\<lparr>s_byteval := b\<rparr>)
           else if b < 0xB8 then ((String, ucast (b - 0x80), None), s)
           else if b < 0xC0 then longSize String (s_readUint s (b - 0xB7))
           else if b < 0xF8 then ((List, ucast (b - 0xC0), None), s)
           else longSize List (s_readUint s (b - 0xF7))))"

definition checkRoom :: "Stream \<Rightarrow> uint64 \<Rightarrow> rlperr option" where
  "checkRoom s size' =
     (case s_stack s of
        [] \<Rightarrow> if s_limited s \<and> size' > s_remaining s then Some ErrValueTooLarge else None
      | tos # _ \<Rightarrow> if size' > lp_size tos - lp_pos tos then Some ErrElemTooLarge else None)"

definition s_Kind :: "Stream \<Rightarrow> (Kind \<times> uint64) sres" where
  "s_Kind s =
     (case s_kind s of
        Some k \<Rightarrow> ((case s_kinderr s of Some err \<Rightarrow> Inl err | None \<Rightarrow> Inr (k, s_size s)), s)
      | None \<Rightarrow>
          (if (case s_stack s of [] \<Rightarrow> False | tos # _ \<Rightarrow> lp_pos tos = lp_size tos)
           then (Inl EOL, s\<lparr>s_kinderr := None\<rparr>)
           else
             (case s_readKind (s\<lparr>s_kinderr := None\<rparr>) of
                ((k, size', err), s) \<Rightarrow>
                  (let kerr = (case err of Some e \<Rightarrow> Some e | None \<Rightarrow> checkRoom s size');
                       s = s\<lparr>s_kind := Some k, s_size := size', s_kinderr := kerr\<rparr>
                   in ((case kerr of Some e \<Rightarrow> Inl e | None \<Rightarrow> Inr (k, size')), s)))))"

definition s_Bytes :: "Stream \<Rightarrow> bytes sres" where
  "s_Bytes s =
     (case s_Kind s of
        (Inl err, s) \<Rightarrow> (Inl err, s)
      | (Inr (Byte, _), s) \<Rightarrow> (Inr [s_byteval s], s\<lparr>s_kind := None\<rparr>)
      | (Inr (String, size'), s) \<Rightarrow>
          (case s_readFull s (unat size') of
             (Inl err, s) \<Rightarrow> (Inl err, s)
           | (Inr b, s) \<Rightarrow> if size' = 1 \<and> hd b < 128 then (Inl ErrCanonSize, s) else (Inr b, s))
      | (Inr (List, _), s) \<Rightarrow> (Inl ErrExpectedString, s))"

definition s_Raw :: "Stream \<Rightarrow> bytes sres" where
  "s_Raw s =
     (case s_Kind s of
        (Inl err, s) \<Rightarrow> (Inl err, s)
      | (Inr (k, size'), s) \<Rightarrow>
          if k = Byte then (Inr [s_byteval s], s\<lparr>s_kind := None\<rparr>)
          else
            (case s_readFull s (unat size') of
               (Inl err, s) \<Rightarrow> (Inl err, s)
             | (Inr b, s) \<Rightarrow>
                 (Inr ((if k = String then puthead 0x80 0xB7 size' else puthead 0xC0 0xF7 size') @ b), s)))"

definition s_uint :: "Stream \<Rightarrow> nat \<Rightarrow> uint64 sres" where
  "s_uint s maxbits =
     (case s_Kind s of
        (Inl err, s) \<Rightarrow> (Inl err, s)
      | (Inr (Byte, _), s) \<Rightarrow>
          if s_byteval s = 0 then (Inl ErrCanonInt, s) else (Inr (ucast (s_byteval s)), s\<lparr>s_kind := None\<rparr>)
      | (Inr (String, size'), s) \<Rightarrow>
          if size' > of_nat (maxbits div 8) then (Inl ErrUintOverflow, s)
          else
            (case s_readUint s (ucast size') of
               (Inl err, s) \<Rightarrow> (Inl (if err = ErrCanonSize then ErrCanonInt else err), s)
             | (Inr v, s) \<Rightarrow> if size' > 0 \<and> v < 128 then (Inl ErrCanonSize, s) else (Inr v, s))
      | (Inr (List, _), s) \<Rightarrow> (Inl ErrExpectedString, s))"

definition s_Bool :: "Stream \<Rightarrow> bool sres" where
  "s_Bool s =
     (case s_uint s 8 of
        (Inl err, s) \<Rightarrow> (Inl err, s)
      | (Inr num, s) \<Rightarrow>
          if num = 0 then (Inr False, s)
          else if num = 1 then (Inr True, s)
          else (Inl (ErrInvalidBool num), s))"

definition s_List :: "Stream \<Rightarrow> uint64 sres" where
  "s_List s =
     (case s_Kind s of
        (Inl err, s) \<Rightarrow> (Inl err, s)
      | (Inr (k, size'), s) \<Rightarrow>
          if k \<noteq> List then (Inl ErrExpectedList, s)
          else (Inr size', s\<lparr>s_stack := \<lparr>lp_pos = 0, lp_size = size'\<rparr> # s_stack s, s_kind := None, s_size := 0\<rparr>))"

definition s_ListEnd :: "Stream \<Rightarrow> rlperr option \<times> Stream" where
  "s_ListEnd s =
     (case s_stack s of
        [] \<Rightarrow> (Some ErrNotInList, s)
      | tos # st \<Rightarrow>
          if lp_pos tos \<noteq> lp_size tos then (Some ErrNotAtEOL, s)
          else
            (let st' = (case st of [] \<Rightarrow> [] | up # st'' \<Rightarrow> up\<lparr>lp_pos := lp_pos up + lp_size tos\<rparr> # st'')
             in (None, s\<lparr>s_stack := st', s_kind := None, s_size := 0\<rparr>)))"

text \<open>A fresh stream on a byte slice, with the length of the slice as its limit.\<close>

definition NewStream :: "bytes \<Rightarrow> Stream" where
  "NewStream b =
     \<lparr>s_r = b, s_remaining = of_nat (length b), s_limited = True, s_kind = None, s_size = 0, s_byteval = 0,
      s_kinderr = None, s_stack = []\<rparr>"

section \<open>Decoders\<close>

text \<open>
  \<open>rtyp\<close> is what \<^verbatim>\<open>makeDecoder\<close> distinguishes of a Go type. The second pointer kind is a field
  with the tag \<^verbatim>\<open>nil\<close>.
\<close>

datatype rtyp =
    TRaw
  | TBigInt
  | TUint nat
  | TBool
  | TString
  | TByteSlice
  | TByteArray nat
  | TSlice rtyp
  | TArray nat rtyp
  | TStruct "rtyp list"
  | TPtr rtyp
  | TOptPtr rtyp
  | TInterface

definition wrapStreamError :: "rlperr \<Rightarrow> rlperr" where
  "wrapStreamError err =
     (if err \<in> {ErrCanonInt, ErrCanonSize, ErrExpectedList, ErrExpectedString, ErrUintOverflow, ErrNotAtEOL}
      then DecodeError err else err)"

definition wrapped :: "('a \<Rightarrow> 'b) \<Rightarrow> 'a sres \<Rightarrow> 'b sres" where
  "wrapped f r = (case r of (Inl err, s) \<Rightarrow> (Inl (wrapStreamError err), s) | (Inr x, s) \<Rightarrow> (Inr (f x), s))"

definition decodeRawValue :: "Stream \<Rightarrow> rlpval sres" where
  "decodeRawValue s = (case s_Raw s of (Inl err, s) \<Rightarrow> (Inl err, s) | (Inr b, s) \<Rightarrow> (Inr (RRaw b), s))"

definition decodeUint :: "nat \<Rightarrow> Stream \<Rightarrow> rlpval sres" where
  "decodeUint bits s = wrapped RUint (s_uint s bits)"

definition decodeBool :: "Stream \<Rightarrow> rlpval sres" where
  "decodeBool s = wrapped RBool (s_Bool s)"

definition decodeString :: "Stream \<Rightarrow> rlpval sres" where
  "decodeString s = wrapped RBytes (s_Bytes s)"

definition decodeByteSlice :: "Stream \<Rightarrow> rlpval sres" where
  "decodeByteSlice s = wrapped RBytes (s_Bytes s)"

definition decodeBigInt :: "Stream \<Rightarrow> rlpval sres" where
  "decodeBigInt s =
     (case s_Bytes s of
        (Inl err, s) \<Rightarrow> (Inl (wrapStreamError err), s)
      | (Inr b, s) \<Rightarrow>
          if 0 < length b \<and> hd b = 0 then (Inl (wrapStreamError ErrCanonInt), s)
          else (Inr (RBigInt (SetBytes b)), s))"

text \<open>\<^verbatim>\<open>bv, _ := s.Uint()\<close>: the error of a zero byte is dropped, and the stream is not rearmed then.\<close>

definition decodeByteArray :: "nat \<Rightarrow> Stream \<Rightarrow> rlpval sres" where
  "decodeByteArray vlen s =
     (case s_Kind s of
        (Inl err, s) \<Rightarrow> (Inl err, s)
      | (Inr (Byte, _), s) \<Rightarrow>
          if vlen = 0 then (Inl TooLong, s)
          else if vlen > 1 then (Inl TooShort, s)
          else
            (case s_uint s 64 of
               (Inl _, s) \<Rightarrow> (Inr (RBytes [0]), s)
             | (Inr bv, s) \<Rightarrow> (Inr (RBytes [ucast bv]), s))
      | (Inr (String, size'), s) \<Rightarrow>
          if of_nat vlen < size' then (Inl TooLong, s)
          else if of_nat vlen > size' then (Inl TooShort, s)
          else
            (case s_readFull s vlen of
               (Inl err, s) \<Rightarrow> (Inl err, s)
             | (Inr b, s) \<Rightarrow>
                 if size' = 1 \<and> hd b < 128 then (Inl (wrapStreamError ErrCanonSize), s) else (Inr (RBytes b), s))
      | (Inr (List, _), s) \<Rightarrow> (Inl (wrapStreamError ErrExpectedString), s))"

definition listEndWrapped :: "rlpval list \<Rightarrow> Stream \<Rightarrow> rlpval sres" where
  "listEndWrapped vs s =
     (case s_ListEnd s of (Some err, s) \<Rightarrow> (Inl (wrapStreamError err), s) | (None, s) \<Rightarrow> (Inr (RList vs), s))"

definition listEndPlain :: "rlpval list \<Rightarrow> Stream \<Rightarrow> rlpval sres" where
  "listEndPlain vs s =
     (case s_ListEnd s of (Some err, s) \<Rightarrow> (Inl err, s) | (None, s) \<Rightarrow> (Inr (RList vs), s))"

fun decodeTyp :: "nat \<Rightarrow> rtyp \<Rightarrow> Stream \<Rightarrow> rlpval sres res"
  and decodeListSlice :: "nat \<Rightarrow> rtyp \<Rightarrow> Stream \<Rightarrow> rlpval sres res"
  and decodeSliceElems :: "nat \<Rightarrow> rtyp \<Rightarrow> Stream \<Rightarrow> rlpval list sres res"
  and decodeArrayElems :: "nat \<Rightarrow> nat \<Rightarrow> rtyp \<Rightarrow> Stream \<Rightarrow> rlpval list sres res"
  and decodeFields :: "nat \<Rightarrow> rtyp list \<Rightarrow> Stream \<Rightarrow> rlpval list sres res" where
  "decodeTyp 0 t s = NoFuel"
| "decodeTyp (Suc n) TRaw s = Ok (decodeRawValue s)"
| "decodeTyp (Suc n) TBigInt s = Ok (decodeBigInt s)"
| "decodeTyp (Suc n) (TUint bits) s = Ok (decodeUint bits s)"
| "decodeTyp (Suc n) TBool s = Ok (decodeBool s)"
| "decodeTyp (Suc n) TString s = Ok (decodeString s)"
| "decodeTyp (Suc n) TByteSlice s = Ok (decodeByteSlice s)"
| "decodeTyp (Suc n) (TByteArray k) s = Ok (decodeByteArray k s)"
| "decodeTyp (Suc n) (TSlice t) s = decodeListSlice n t s"
| "decodeTyp (Suc n) (TArray k t) s =
     (case s_List s of
        (Inl err, s) \<Rightarrow> Ok (Inl (wrapStreamError err), s)
      | (Inr _, s) \<Rightarrow>
          bind_res (decodeArrayElems n k t s) (\<lambda>r. case r of
             (Inl err, s) \<Rightarrow> Ok (Inl err, s)
           | (Inr vs, s) \<Rightarrow> Ok (listEndWrapped vs s)))"
| "decodeTyp (Suc n) (TStruct ts) s =
     (case s_List s of
        (Inl err, s) \<Rightarrow> Ok (Inl (wrapStreamError err), s)
      | (Inr _, s) \<Rightarrow>
          bind_res (decodeFields n ts s) (\<lambda>r. case r of
             (Inl err, s) \<Rightarrow> Ok (Inl err, s)
           | (Inr vs, s) \<Rightarrow> Ok (listEndWrapped vs s)))"
| "decodeTyp (Suc n) (TPtr t) s = decodeTyp (Suc n) t s"
| "decodeTyp (Suc n) (TOptPtr t) s =
     (case s_Kind s of
        (Inl err, s) \<Rightarrow> Ok (Inl err, s\<lparr>s_kind := None\<rparr>)
      | (Inr (k, size'), s) \<Rightarrow>
          if size' = 0 \<and> k \<noteq> Byte then Ok (Inr RNil, s\<lparr>s_kind := None\<rparr>) else decodeTyp (Suc n) t s)"
| "decodeTyp (Suc n) TInterface s =
     (case s_Kind s of
        (Inl err, s) \<Rightarrow> Ok (Inl err, s)
      | (Inr (k, _), s) \<Rightarrow>
          if k = List then decodeListSlice n TInterface s
          else (case s_Bytes s of (Inl err, s) \<Rightarrow> Ok (Inl err, s) | (Inr b, s) \<Rightarrow> Ok (Inr (RBytes b), s)))"
| "decodeListSlice n t s =
     (case s_List s of
        (Inl err, s) \<Rightarrow> Ok (Inl (wrapStreamError err), s)
      | (Inr size', s) \<Rightarrow>
          if size' = 0 then Ok (listEndPlain [] s)
          else
            bind_res (decodeSliceElems n t s) (\<lambda>r. case r of
               (Inl err, s) \<Rightarrow> Ok (Inl err, s)
             | (Inr vs, s) \<Rightarrow> Ok (listEndPlain vs s)))"
| "decodeSliceElems 0 t s = NoFuel"
| "decodeSliceElems (Suc n) t s =
     bind_res (decodeTyp n t s) (\<lambda>r. case r of
        (Inl err, s) \<Rightarrow> if err = EOL then Ok (Inr [], s) else Ok (Inl err, s)
      | (Inr v, s) \<Rightarrow>
          bind_res (decodeSliceElems n t s) (\<lambda>r. case r of
             (Inl err, s) \<Rightarrow> Ok (Inl err, s)
           | (Inr vs, s) \<Rightarrow> Ok (Inr (v # vs), s)))"
| "decodeArrayElems 0 k t s = NoFuel"
| "decodeArrayElems (Suc n) k t s =
     (if k = 0 then Ok (Inr [], s)
      else
        bind_res (decodeTyp n t s) (\<lambda>r. case r of
           (Inl err, s) \<Rightarrow> Ok (Inl (if err = EOL then TooFewElements else err), s)
         | (Inr v, s) \<Rightarrow>
             bind_res (decodeArrayElems n (k - 1) t s) (\<lambda>r. case r of
                (Inl err, s) \<Rightarrow> Ok (Inl err, s)
              | (Inr vs, s) \<Rightarrow> Ok (Inr (v # vs), s))))"
| "decodeFields n [] s = Ok (Inr [], s)"
| "decodeFields 0 (t # ts) s = NoFuel"
| "decodeFields (Suc n) (t # ts) s =
     bind_res (decodeTyp n t s) (\<lambda>r. case r of
        (Inl err, s) \<Rightarrow> Ok (Inl (if err = EOL then TooFewElements else err), s)
      | (Inr v, s) \<Rightarrow>
          bind_res (decodeFields n ts s) (\<lambda>r. case r of
             (Inl err, s) \<Rightarrow> Ok (Inl err, s)
           | (Inr vs, s) \<Rightarrow> Ok (Inr (v # vs), s)))"

definition DecodeBytes :: "nat \<Rightarrow> bytes \<Rightarrow> rtyp \<Rightarrow> (rlperr + rlpval) res" where
  "DecodeBytes n b t =
     bind_res (decodeTyp n t (NewStream b)) (\<lambda>(r, s). case r of
        Inl err \<Rightarrow> Ok (Inl err)
      | Inr v \<Rightarrow> if 0 < length (s_r s) then Ok (Inl ErrMoreThanOneValue) else Ok (Inr v))"

end
