(* ===== verification/RlpStream.thy ===== *)
theory RlpStream
  imports RlpEncode RlpDecode
begin

text \<open>
  What the stream of rlp/decode.go consumes: every operation succeeds exactly when the bytes it wants
  are there and within the limits of the enclosing lists, and the headers it accepts are the canonical
  ones. \<open>avail\<close> and \<open>reads\<close> are the interface the decoders are verified against.
\<close>

section \<open>Canonical integers\<close>

lemma nat_bytes_SetBytes: "b = [] \<or> hd b \<noteq> 0 \<Longrightarrow> nat_bytes (nat (SetBytes b)) = b"
proof (induction b rule: rev_induct)
  case (snoc x b)
  show ?case
  proof (cases "b = []")
    case True
    with snoc have x: "x \<noteq> 0" by simp
    have "nat_bytes (unat x) = [of_nat (unat x)]"
      using x unsigned_less [of x] by (intro nat_bytes_small) (simp_all add: unat_gt_0)
    then show ?thesis using True by (simp add: SetBytes_def)
  next
    case False
    with snoc have IH: "nat_bytes (nat (SetBytes b)) = b" by simp
    have n: "nat (SetBytes (b @ [x])) = nat (SetBytes b) * 256 + unat x"
      by (simp add: nat_add_distrib nat_mult_distrib)
    have x: "unat x < 256" using unsigned_less [of x] by simp
    have "nat (SetBytes b) \<noteq> 0" using IH False by (metis nat_bytes_0)
    then have "0 < nat (SetBytes b) * 256 + unat x" by simp
    moreover have "(nat (SetBytes b) * 256 + unat x) div 256 = nat (SetBytes b)" "(nat (SetBytes b) * 256 + unat x) mod 256 = unat x"
      using x by simp_all
    ultimately show ?thesis unfolding n by (simp add: nat_bytes_step IH)
  qed
qed simp

lemma hd_nat_bytes: "0 < n \<Longrightarrow> nat_bytes n \<noteq> [] \<and> hd (nat_bytes n) \<noteq> 0"
proof (induction n rule: nat_bytes.induct)
  case (1 n)
  show ?case
  proof (cases "n < 256")
    case True
    then have "take_bit 8 n = n" by (simp add: take_bit_nat_eq_self_iff)
    then have "(of_nat n :: byte) \<noteq> 0" using 1(2) by (simp add: word_unat_eq_iff unsigned_of_nat)
    then show ?thesis using True 1 by (simp add: nat_bytes_small)
  next
    case False
    then have "0 < n div 256" by simp
    with 1 show ?thesis by (simp add: nat_bytes_step [of n])
  qed
qed

lemma SetBytes_pos: "b \<noteq> [] \<Longrightarrow> hd b \<noteq> 0 \<Longrightarrow> 256 ^ (length b - 1) \<le> SetBytes b"
proof (cases b)
  case (Cons x xs)
  assume "hd b \<noteq> 0"
  then have "1 \<le> uint x" using Cons by (metis linorder_not_le uint_ge_0 uint_0_iff zless_imp_add1_zle list.sel(1) add_0 linorder_neqE_linordered_idom)
  then show ?thesis using Cons SetBytes_nonneg [of xs] by (simp add: SetBytes_Cons mult_le_cancel_right1 add_increasing2)
qed simp

section \<open>What a stream consumes\<close>

fun stack_ok :: "listpos list \<Rightarrow> bool" where
  "stack_ok [] \<longleftrightarrow> True"
| "stack_ok [t] \<longleftrightarrow> lp_pos t \<le> lp_size t"
| "stack_ok (t # u # st) \<longleftrightarrow> lp_pos t \<le> lp_size t \<and> unat (lp_pos u) + unat (lp_size t) \<le> unat (lp_size u) \<and> stack_ok (u # st)"

definition fits :: "Stream \<Rightarrow> nat \<Rightarrow> bool" where
  "fits s k \<longleftrightarrow> k \<le> length (s_r s) \<and> (s_limited s \<longrightarrow> k \<le> unat (s_remaining s)) \<and>
     (case s_stack s of [] \<Rightarrow> True | t # _ \<Rightarrow> unat (lp_pos t) + k \<le> unat (lp_size t))"

definition adv :: "Stream \<Rightarrow> nat \<Rightarrow> Stream \<Rightarrow> bool" where
  "adv s k s' \<longleftrightarrow> s_r s' = drop k (s_r s) \<and> s_limited s' = s_limited s \<and>
     s_remaining s' = (if s_limited s then s_remaining s - of_nat k else s_remaining s) \<and>
     s_stack s' = (case s_stack s of [] \<Rightarrow> [] | t # st \<Rightarrow> t\<lparr>lp_pos := lp_pos t + of_nat k\<rparr> # st)"

lemma adv_trans: "adv s j s1 \<Longrightarrow> adv s1 k s2 \<Longrightarrow> adv s (j + k) s2"
  by (auto simp: adv_def ac_simps diff_diff_eq split: list.splits)

lemma unat_sub_of_nat: "k \<le> unat w \<Longrightarrow> unat (w - of_nat k :: uint64) = unat w - k"
  using unat_lt64 [of w] by (simp add: unat_sub unat_of_nat64 word_le_nat_alt)

lemma unat_add_of_nat: "unat w + k < 2 ^ 64 \<Longrightarrow> unat (w + of_nat k :: uint64) = unat w + k"
  by (simp add: unat_add_less unat_of_nat64)

lemma fits_adv:
  assumes f: "fits s (j + k)" and a: "adv s j s'"
  shows "fits s' k"
proof -
  have "unat (lp_pos t + of_nat j) = unat (lp_pos t) + j" if "s_stack s = t # st" for t st
    using f that unat_lt64 [of "lp_size t"] by (intro unat_add_of_nat) (simp add: fits_def)
  then show ?thesis using f a by (auto simp: fits_def adv_def unat_sub_of_nat split: list.splits)
qed

lemma fits_add:
  assumes j: "fits s j" and a: "adv s j s1" and k: "fits s1 k"
  shows "fits s (j + k)"
proof -
  have "unat (lp_pos t + of_nat j) = unat (lp_pos t) + j" if "s_stack s = t # st" for t st
    using j that unat_lt64 [of "lp_size t"] by (intro unat_add_of_nat) (simp add: fits_def)
  then show ?thesis using assms by (auto simp: fits_def adv_def unat_sub_of_nat split: list.splits)
qed

lemma fits_le: "fits s k \<Longrightarrow> j \<le> k \<Longrightarrow> fits s j"
  by (auto simp: fits_def split: list.splits)

lemma stack_ok_adv:
  assumes ok: "stack_ok (s_stack s)" and f: "fits s k" and a: "adv s k s'"
  shows "stack_ok (s_stack s')"
proof (cases "s_stack s")
  case (Cons t st)
  have "unat (lp_pos t + of_nat k) = unat (lp_pos t) + k"
    using f Cons unat_lt64 [of "lp_size t"] by (intro unat_add_of_nat) (simp add: fits_def)
  then have "lp_pos t + of_nat k \<le> lp_size t" using f Cons by (simp add: fits_def word_le_nat_alt)
  then show ?thesis using ok a Cons by (cases st) (simp_all add: adv_def)
qed (use a in \<open>simp add: adv_def\<close>)

text \<open>Reading succeeds exactly when the bytes are there and within the limits.\<close>

lemma room_iff: "lp_pos t \<le> lp_size t \<Longrightarrow> k < 2 ^ 64 \<Longrightarrow>
  \<not> lp_size t - lp_pos t < of_nat k \<longleftrightarrow> unat (lp_pos t) + k \<le> unat (lp_size t)"
  by (auto simp: word_less_nat_alt word_le_nat_alt unat_of_nat64 unat_sub_le)

lemma willRead_cases:
  assumes ok: "stack_ok (s_stack s)" and k: "k < 2 ^ 64"
  shows "case willRead s (of_nat k) of
      (None, s') \<Rightarrow> (k \<le> length (s_r s) \<longrightarrow> fits s k) \<and> s_r s' = s_r s \<and> adv s k (s'\<lparr>s_r := drop k (s_r s)\<rparr>) \<and>
        s_kind s' = None \<and> s_byteval s' = s_byteval s
    | (Some e, s') \<Rightarrow> \<not> fits s k"
proof -
  have r: "s_limited s \<Longrightarrow> \<not> s_remaining s < of_nat k \<longleftrightarrow> k \<le> unat (s_remaining s)"
    using k by (simp add: word_less_nat_alt unat_of_nat64 not_less)
  show ?thesis
  proof (cases "s_stack s")
    case Nil
    then show ?thesis using r by (auto simp: willRead_def willReadList_def fits_def adv_def)
  next
    case (Cons t st)
    then have "lp_pos t \<le> lp_size t" using ok by (cases st) simp_all
    note room = room_iff [OF this k]
    show ?thesis using r room Cons by (auto simp: willRead_def willReadList_def fits_def adv_def)
  qed
qed

lemma readByte_ok:
  assumes "stack_ok (s_stack s)" "fits s 1"
  obtains s' where "s_readByte s = (Inr (hd (s_r s)), s')" "adv s 1 s'" "s_kind s' = None" "s_byteval s' = s_byteval s"
proof -
  obtain e s1 where w: "willRead s 1 = (e, s1)" by fastforce
  with willRead_cases [OF assms(1), of 1] assms(2) have e: "e = None" "s_r s1 = s_r s"
    "adv s 1 (s1\<lparr>s_r := drop 1 (s_r s)\<rparr>)" "s_kind s1 = None" "s_byteval s1 = s_byteval s"
    by (auto split: option.splits)
  have "s_r s \<noteq> []" using assms(2) by (auto simp: fits_def)
  then have "s_readByte s = (Inr (hd (s_r s)), s1\<lparr>s_r := tl (s_r s)\<rparr>)" using w e by (auto simp: s_readByte_def neq_Nil_conv)
  then show thesis using that e by (simp add: drop_Suc)
qed

lemma readByte_inv:
  assumes ok: "stack_ok (s_stack s)" and r: "s_readByte s = (Inr b, s')"
  shows "fits s 1" "s_r s \<noteq> []" "b = hd (s_r s)" "adv s 1 s'" "s_kind s' = None" "s_byteval s' = s_byteval s"
proof -
  obtain e s1 where w: "willRead s 1 = (e, s1)" by fastforce
  with willRead_cases [OF ok, of 1] r have e: "e = None" "length (s_r s) \<ge> 1 \<Longrightarrow> fits s 1" "s_r s1 = s_r s"
    "adv s 1 (s1\<lparr>s_r := drop 1 (s_r s)\<rparr>)" "s_kind s1 = None" "s_byteval s1 = s_byteval s"
    by (auto simp: s_readByte_def split: option.splits)
  from r w e(1,3) obtain x xs where "s_r s = x # xs" "b = x" "s' = s1\<lparr>s_r := xs\<rparr>"
    by (auto simp: s_readByte_def split: list.splits)
  then show "fits s 1" "s_r s \<noteq> []" "b = hd (s_r s)" "adv s 1 s'" "s_kind s' = None" "s_byteval s' = s_byteval s"
    using e by simp_all
qed

lemma readFull_ok:
  assumes "stack_ok (s_stack s)" "fits s k" "k < 2 ^ 64"
  obtains s' where "s_readFull s k = (Inr (take k (s_r s)), s')" "adv s k s'" "s_kind s' = None"
proof -
  obtain e s1 where w: "willRead s (of_nat k) = (e, s1)" by fastforce
  with willRead_cases [OF assms(1,3)] assms(2) have e: "e = None" "s_r s1 = s_r s"
    "adv s k (s1\<lparr>s_r := drop k (s_r s)\<rparr>)" "s_kind s1 = None" by (auto split: option.splits)
  moreover have "k \<le> length (s_r s)" using assms(2) by (simp add: fits_def)
  ultimately show thesis using that w by (simp add: s_readFull_def)
qed

lemma readFull_inv:
  assumes ok: "stack_ok (s_stack s)" and k: "k < 2 ^ 64" and r: "s_readFull s k = (Inr b, s')"
  shows "fits s k" "b = take k (s_r s)" "adv s k s'" "s_kind s' = None"
proof -
  obtain e s1 where w: "willRead s (of_nat k) = (e, s1)" by fastforce
  with willRead_cases [OF ok k] r have e: "e = None" "k \<le> length (s_r s) \<Longrightarrow> fits s k" "s_r s1 = s_r s"
    "adv s k (s1\<lparr>s_r := drop k (s_r s)\<rparr>)" "s_kind s1 = None" by (auto simp: s_readFull_def split: option.splits)
  from r w e(1,3) have "k \<le> length (s_r s)" "b = take k (s_r s)" "s' = s1\<lparr>s_r := drop k (s_r s)\<rparr>"
    by (auto simp: s_readFull_def split: if_splits)
  then show "fits s k" "b = take k (s_r s)" "adv s k s'" "s_kind s' = None" using e by simp_all
qed

section \<open>Sizes\<close>

lemma readUint_ok:
  assumes ok: "stack_ok (s_stack s)" "fits s l" and l: "1 \<le> l" "l \<le> 8" "l = 1 \<or> hd (s_r s) \<noteq> 0"
  obtains s' where "s_readUint s (of_nat l) = (Inr (word_of_int (SetBytes (take l (s_r s)))), s')" "adv s l s'" "s_kind s' = None"
proof (cases "l = 1")
  case True
  from readByte_ok [OF ok(1)] ok(2) True obtain s' where s': "s_readByte s = (Inr (hd (s_r s)), s')" "adv s 1 s'" "s_kind s' = None"
    by metis
  have "s_r s \<noteq> []" using ok(2) True by (auto simp: fits_def)
  then have "take 1 (s_r s) = [hd (s_r s)]" by (cases "s_r s") auto
  then have "word_of_int (SetBytes (take 1 (s_r s))) = (ucast (hd (s_r s)) :: uint64)" by (simp add: SetBytes_def unsigned_ucast_eq)
  then show thesis using that s' True by (simp add: s_readUint_def)
next
  case False
  from readFull_ok [OF ok] l obtain s' where s': "s_readFull s l = (Inr (take l (s_r s)), s')" "adv s l s'" "s_kind s' = None" by auto
  have u: "unat (of_nat l :: byte) = l" using l by (simp add: unsigned_of_nat take_bit_nat_eq_self_iff)
  then have "(of_nat l :: byte) \<noteq> 0" "(of_nat l :: byte) \<noteq> 1" using l False by auto
  moreover have "hd (take l (s_r s)) = hd (s_r s)" using l by (cases "s_r s"; cases l) auto
  ultimately show thesis using that s' u l False by (simp add: s_readUint_def bigEndianUint64_def)
qed

lemma readUint_inv:
  assumes ok: "stack_ok (s_stack s)" and r: "s_readUint s (of_nat l) = (Inr v, s')" and l: "1 \<le> l" "l \<le> 8"
  shows "fits s l" "v = word_of_int (SetBytes (take l (s_r s)))" "l = 1 \<or> hd (s_r s) \<noteq> 0" "adv s l s'" "s_kind s' = None"
proof -
  have u: "unat (of_nat l :: byte) = l" using l by (simp add: unsigned_of_nat take_bit_nat_eq_self_iff)
  then have nz: "(of_nat l :: byte) \<noteq> 0" and one: "(of_nat l :: byte) = 1 \<longleftrightarrow> l = 1" using l by auto
  have "fits s l \<and> v = word_of_int (SetBytes (take l (s_r s))) \<and> (l = 1 \<or> hd (s_r s) \<noteq> 0) \<and> adv s l s' \<and> s_kind s' = None"
  proof (cases "l = 1")
    case True
    with r nz one obtain b where b: "s_readByte s = (Inr b, s')" "v = ucast b"
      by (auto simp: s_readUint_def split: prod.splits sum.splits)
    note i = readByte_inv [OF ok b(1)]
    have "take 1 (s_r s) = [hd (s_r s)]" using i(2) by (cases "s_r s") auto
    then show ?thesis using i b True by (simp add: SetBytes_def unsigned_ucast_eq)
  next
    case False
    with r nz one u obtain b where b: "s_readFull s l = (Inr b, s')" "hd b \<noteq> 0" "v = bigEndianUint64 b"
      by (auto simp: s_readUint_def split: prod.splits sum.splits if_splits)
    have "l < 2 ^ 64" using l by simp
    note i = readFull_inv [OF ok this b(1)]
    moreover have "hd (take l (s_r s)) = hd (s_r s)" using l by (cases "s_r s"; cases l) auto
    ultimately show ?thesis using b by (simp add: bigEndianUint64_def)
  qed
  then show "fits s l" "v = word_of_int (SetBytes (take l (s_r s)))" "l = 1 \<or> hd (s_r s) \<noteq> 0" "adv s l s'" "s_kind s' = None" by blast+
qed

section \<open>Headers\<close>

fun kindHead :: "Kind \<Rightarrow> nat \<Rightarrow> bytes" where
  "kindHead Byte n = []"
| "kindHead String n = rlpHead 0x80 0xB7 n"
| "kindHead List n = rlpHead 0xC0 0xF7 n"

definition tagBase :: "Kind \<Rightarrow> nat" where
  "tagBase k = (case k of List \<Rightarrow> 0xC0 | _ \<Rightarrow> 0x80)"

lemma unat_of_nat8: "n < 256 \<Longrightarrow> unat (of_nat n :: byte) = n"
  by (simp add: unsigned_of_nat take_bit_nat_eq_self_iff)

lemma kindHead_eq:
  assumes "k \<noteq> Byte"
  shows "kindHead k n = (if n < 56 then [of_nat (tagBase k + n)]
    else of_nat (tagBase k + 55 + length (nat_bytes n)) # nat_bytes n)"
  using assms by (cases k) (simp_all add: rlpHead_def tagBase_def Let_def)

lemma nat_bytes_size:
  assumes "56 \<le> n" "n < 2 ^ 64"
  shows "1 \<le> length (nat_bytes n)" "length (nat_bytes n) \<le> 8" "hd (nat_bytes n) \<noteq> 0" "nat_bytes n \<noteq> []"
  using hd_nat_bytes [of n] length_nat_bytes_le [of n 8] assms by (auto simp: Suc_le_eq)

lemma kindHead_length: "k \<noteq> Byte \<Longrightarrow> n < 2 ^ 64 \<Longrightarrow> 1 \<le> length (kindHead k n) \<and> length (kindHead k n) \<le> 9"
  using nat_bytes_size [of n] by (auto simp: kindHead_eq)

text \<open>The tag byte decides the branch of \<^verbatim>\<open>readKind\<close>.\<close>

lemma tag_cases:
  fixes b :: byte
  obtains (byte) "b < 0x80"
  | (short) k n where "k \<noteq> Byte" "n < 56" "b = of_nat (tagBase k + n)"
  | (long) k l where "k \<noteq> Byte" "1 \<le> l" "l \<le> 8" "b = of_nat (tagBase k + 55 + l)"
proof -
  have u: "unat b < 256" using unsigned_less [of b] by simp
  have b: "b = of_nat (unat b)" by simp
  consider "unat b < 128" | "128 \<le> unat b" "unat b < 184" | "184 \<le> unat b" "unat b < 192"
    | "192 \<le> unat b" "unat b < 248" | "248 \<le> unat b" by linarith
  then show thesis
  proof cases
    case 1
    then show ?thesis using byte by (simp add: word_less_nat_alt)
  next
    case 2
    show ?thesis by (rule short [of String "unat b - 128"]) (use 2 b in \<open>simp_all add: tagBase_def\<close>)
  next
    case 3
    show ?thesis by (rule long [of String "unat b - 183"]) (use 3 b in \<open>simp_all add: tagBase_def\<close>)
  next
    case 4
    show ?thesis by (rule short [of List "unat b - 192"]) (use 4 b in \<open>simp_all add: tagBase_def\<close>)
  next
    case 5
    show ?thesis by (rule long [of List "unat b - 247"]) (use 5 b u in \<open>simp_all add: tagBase_def\<close>)
  qed
qed

lemma tag_branch:
  assumes "k \<noteq> Byte"
  shows "n < 56 \<Longrightarrow> b = of_nat (tagBase k + n) \<Longrightarrow>
      (if b < 0x80 then A else if b < 0xB8 then f String (b - 0x80) else if b < 0xC0 then g String (b - 0xB7)
       else if b < 0xF8 then f List (b - 0xC0) else g List (b - (0xF7 :: byte))) = f k (of_nat n)"
    "1 \<le> l \<Longrightarrow> l \<le> 8 \<Longrightarrow> b = of_nat (tagBase k + 55 + l) \<Longrightarrow>
      (if b < 0x80 then A else if b < 0xB8 then f String (b - 0x80) else if b < 0xC0 then g String (b - 0xB7)
       else if b < 0xF8 then f List (b - 0xC0) else g List (b - (0xF7 :: byte))) = g k (of_nat l)"
proof -
  assume n: "n < 56" "b = of_nat (tagBase k + n)"
  then have u: "unat b = tagBase k + n" using assms by (cases k) (simp_all add: tagBase_def unat_of_nat8 del: of_nat_add)
  show "(if b < 0x80 then A else if b < 0xB8 then f String (b - 0x80) else if b < 0xC0 then g String (b - 0xB7)
       else if b < 0xF8 then f List (b - 0xC0) else g List (b - 0xF7)) = f k (of_nat n)"
    using assms n u by (cases k) (simp_all add: tagBase_def word_less_nat_alt)
next
  assume l: "1 \<le> l" "l \<le> 8" "b = of_nat (tagBase k + 55 + l)"
  then have u: "unat b = tagBase k + 55 + l" using assms by (cases k) (simp_all add: tagBase_def unat_of_nat8 del: of_nat_add)
  show "(if b < 0x80 then A else if b < 0xB8 then f String (b - 0x80) else if b < 0xC0 then g String (b - 0xB7)
       else if b < 0xF8 then f List (b - 0xC0) else g List (b - 0xF7)) = g k (of_nat l)"
    using assms l u by (cases k) (simp_all add: tagBase_def word_less_nat_alt)
qed

lemma fits_update [simp]:
  "fits (s\<lparr>s_byteval := b\<rparr>) k = fits s k" "fits (s\<lparr>s_kind := kd\<rparr>) k = fits s k" "fits (s\<lparr>s_kinderr := e\<rparr>) k = fits s k"
  "fits (s\<lparr>s_size := z\<rparr>) k = fits s k"
  by (simp_all add: fits_def)

lemma adv_update [simp]:
  "adv (s\<lparr>s_byteval := b\<rparr>) k s' = adv s k s'" "adv (s\<lparr>s_kind := kd\<rparr>) k s' = adv s k s'"
  "adv (s\<lparr>s_kinderr := e\<rparr>) k s' = adv s k s'" "adv (s\<lparr>s_size := z\<rparr>) k s' = adv s k s'"
  "adv s k (s'\<lparr>s_byteval := b\<rparr>) = adv s k s'" "adv s k (s'\<lparr>s_kind := kd\<rparr>) = adv s k s'"
  "adv s k (s'\<lparr>s_kinderr := e\<rparr>) = adv s k s'" "adv s k (s'\<lparr>s_size := z\<rparr>) = adv s k s'"
  by (simp_all add: adv_def)

lemma readKind_branch:
  assumes "s_readByte s = (Inr b, s1)"
  shows "b < 0x80 \<Longrightarrow> s_readKind s = ((Byte, 0, None), s1\<lparr>s_byteval := b\<rparr>)"
    "k \<noteq> Byte \<Longrightarrow> n < 56 \<Longrightarrow> b = of_nat (tagBase k + n) \<Longrightarrow> s_readKind s = ((k, of_nat n, None), s1\<lparr>s_byteval := 0\<rparr>)"
    "k \<noteq> Byte \<Longrightarrow> 1 \<le> l \<Longrightarrow> l \<le> 8 \<Longrightarrow> b = of_nat (tagBase k + 55 + l) \<Longrightarrow>
       s_readKind s = longSize k (s_readUint (s1\<lparr>s_byteval := 0\<rparr>) (of_nat l))"
proof -
  let ?s = "s1\<lparr>s_byteval := 0\<rparr>"
  have r: "s_readKind s = (if b < 0x80 then ((Byte, 0, None), ?s\<lparr>s_byteval := b\<rparr>)
      else if b < 0xB8 then ((String, ucast (b - 0x80), None), ?s) else if b < 0xC0 then longSize String (s_readUint ?s (b - 0xB7))
      else if b < 0xF8 then ((List, ucast (b - 0xC0), None), ?s) else longSize List (s_readUint ?s (b - 0xF7)))"
    by (simp add: s_readKind_def assms)
  show "s_readKind s = ((Byte, 0, None), s1\<lparr>s_byteval := b\<rparr>)" if "b < 0x80" using that r by simp
  show "s_readKind s = ((k, of_nat n, None), ?s)" if "k \<noteq> Byte" "n < 56" "b = of_nat (tagBase k + n)"
  proof -
    have "take_bit 8 n = n" "take_bit 64 n = n" using that(2) by (simp_all add: take_bit_nat_eq_self_iff)
    then have "(ucast (of_nat n :: byte) :: uint64) = of_nat n"
      by (simp add: word_unat_eq_iff unsigned_ucast_eq unsigned_of_nat)
    then show ?thesis
      unfolding r using tag_branch(1) [OF that, where f = "\<lambda>k x. ((k, ucast x, None), ?s)" and A = "((Byte, 0, None), ?s\<lparr>s_byteval := b\<rparr>)"
          and g = "\<lambda>k x. longSize k (s_readUint ?s x)"] by simp
  qed
  show "s_readKind s = longSize k (s_readUint ?s (of_nat l))" if "k \<noteq> Byte" "1 \<le> l" "l \<le> 8" "b = of_nat (tagBase k + 55 + l)"
    unfolding r using tag_branch(2) [OF that, where f = "\<lambda>k x. ((k, ucast x, None), ?s)" and A = "((Byte, 0, None), ?s\<lparr>s_byteval := b\<rparr>)"
          and g = "\<lambda>k x. longSize k (s_readUint ?s x)"] by simp
qed

lemma readKind_byte:
  assumes ok: "stack_ok (s_stack s)" "fits s 1" and b: "hd (s_r s) < 0x80"
  obtains s' where "s_readKind s = ((Byte, 0, None), s')" "adv s 1 s'" "s_byteval s' = hd (s_r s)"
proof -
  from readByte_ok [OF ok] obtain s1 where "s_readByte s = (Inr (hd (s_r s)), s1)" "adv s 1 s1" by blast
  then show thesis using that readKind_branch(1) b by simp
qed

lemma readKind_head:
  assumes ok: "stack_ok (s_stack s)" and k: "k \<noteq> Byte" and n: "n < 2 ^ 64"
    and r: "s_r s = kindHead k n @ rest" and f: "fits s (length (kindHead k n))"
  obtains s' where "s_readKind s = ((k, of_nat n, None), s')" "adv s (length (kindHead k n)) s'"
proof -
  have "fits s 1" using f kindHead_length [OF k n] fits_le by blast
  from readByte_ok [OF ok this] obtain s1 where 1: "s_readByte s = (Inr (hd (s_r s)), s1)" "adv s 1 s1" "s_kind s1 = None" by blast
  show thesis
  proof (cases "n < 56")
    case True
    then show thesis using that readKind_branch(2) [OF 1(1) k] 1 k r by (simp add: kindHead_eq)
  next
    case False
    let ?l = "length (nat_bytes n)" and ?s = "s1\<lparr>s_byteval := 0\<rparr>"
    have l: "1 \<le> ?l" "?l \<le> 8" "hd (nat_bytes n) \<noteq> 0" "nat_bytes n \<noteq> []" using nat_bytes_size [of n] False n by auto
    have h: "kindHead k n = of_nat (tagBase k + 55 + ?l) # nat_bytes n" using False k by (simp add: kindHead_eq)
    have ok1: "stack_ok (s_stack ?s)" using stack_ok_adv [OF ok \<open>fits s 1\<close> 1(2)] by simp
    have f1: "fits ?s ?l" using f fits_adv [OF _ 1(2)] by (simp add: h)
    have r1: "s_r ?s = nat_bytes n @ rest" using 1(2) r by (simp add: adv_def h)
    obtain s2 where 2: "s_readUint ?s (of_nat ?l) = (Inr (word_of_int (SetBytes (take ?l (s_r ?s)))), s2)" "adv ?s ?l s2"
      using readUint_ok [OF ok1 f1 l(1,2)] r1 l by auto
    have v: "word_of_int (SetBytes (take ?l (s_r ?s))) = (of_nat n :: uint64)" by (simp add: r1 SetBytes_nat_bytes)
    have "s_readKind s = longSize k (s_readUint ?s (of_nat ?l))"
      using readKind_branch(3) [OF 1(1) k l(1,2)] r by (simp add: h)
    then have "s_readKind s = ((k, of_nat n, None), s2)"
      using 2(1) v False n by (simp add: longSize_def small_size)
    moreover have "adv s (length (kindHead k n)) s2" using adv_trans [OF 1(2), of ?l s2] 2(2) by (simp add: h)
    ultimately show thesis by (rule that)
  qed
qed

lemma readKind_inv:
  assumes ok: "stack_ok (s_stack s)" and r: "s_readKind s = ((k, z, None), s')"
  obtains (byte) "k = Byte" "z = 0" "fits s 1" "hd (s_r s) < 0x80" "s_r s \<noteq> []" "s_byteval s' = hd (s_r s)" "adv s 1 s'"
  | (head) rest where "k \<noteq> Byte" "s_r s = kindHead k (unat z) @ rest" "fits s (length (kindHead k (unat z)))"
      "adv s (length (kindHead k (unat z))) s'"
proof -
  from r obtain b s1 where 1: "s_readByte s = (Inr b, s1)"
    by (auto simp: s_readKind_def split: prod.splits sum.splits)
  note i = readByte_inv [OF ok 1]
  obtain xs where sr: "s_r s = b # xs" using i(2,3) by (cases "s_r s") auto
  show thesis
  proof (cases b rule: tag_cases)
    case byte
    then show thesis using that(1) readKind_branch(1) [OF 1] r i by auto
  next
    case (short k' n)
    have e: "s_readKind s = ((k', of_nat n, None), s1\<lparr>s_byteval := 0\<rparr>)" by (rule readKind_branch(2) [OF 1 short])
    have u: "unat (of_nat n :: uint64) = n" using short(2) by (simp add: unat_of_nat64)
    have h: "kindHead k' n = [b]" using short by (simp add: kindHead_eq)
    have eq: "k = k'" "z = of_nat n" "s' = s1\<lparr>s_byteval := 0\<rparr>" using e r by simp_all
    have "kindHead k (unat z) = [b]" unfolding eq u by (rule h)
    then show thesis using that(2) [of xs] short(1) i(1,4) sr eq by simp
  next
    case (long k' l)
    let ?s = "s1\<lparr>s_byteval := 0\<rparr>"
    have e: "s_readKind s = longSize k' (s_readUint ?s (of_nat l))" by (rule readKind_branch(3) [OF 1 long])
    with r have k: "k' = k" and ru: "s_readUint ?s (of_nat l) = (Inr z, s')" and z: "\<not> z < 56"
      by (auto simp: longSize_def split: prod.splits sum.splits if_splits)
    have ok1: "stack_ok (s_stack ?s)" using stack_ok_adv [OF ok i(1,4)] by simp
    note j = readUint_inv [OF ok1 ru long(2,3)]
    define bs where "bs = take l (s_r s1)"
    let ?b = bs
    have lb: "length ?b = l" using j(1) by (simp add: fits_def bs_def)
    have "SetBytes ?b < 256 ^ l" using SetBytes_bound [of ?b] lb by simp
    also have "(256 :: int) ^ l \<le> 256 ^ 8" using long(3) by (intro power_increasing) auto
    finally have lt: "SetBytes ?b < 2 ^ 64" by simp
    then have uz: "int (unat z) = SetBytes ?b"
      using j(2) by (simp add: unsigned_of_int take_bit_int_eq_self_iff bs_def [symmetric])
    have nb: "?b \<noteq> []" using lb long(2) by auto
    have hb: "hd ?b \<noteq> 0"
    proof (cases "l = 1")
      case True
      show ?thesis
      proof
        assume "hd ?b = 0"
        then have "SetBytes ?b = 0" using True lb by (cases ?b) (auto simp: SetBytes_Cons)
        then have "unat z = 0" using uz by linarith
        then show False using z by (simp add: word_less_nat_alt)
      qed
    next
      case False
      then show ?thesis using j(3) long(2) unfolding bs_def by (cases "s_r ?s"; cases l) auto
    qed
    have bytes: "nat_bytes (unat z) = ?b" using nat_bytes_SetBytes [of ?b] hb uz [symmetric] by simp
    have h: "kindHead k (unat z) = b # ?b" using long(1,4) k z lb by (simp add: kindHead_eq bytes word_less_nat_alt)
    have "s_r s1 = xs" using i(4) sr by (simp add: adv_def)
    then have split: "s_r s = kindHead k (unat z) @ drop l (s_r s1)" unfolding h using sr by (simp add: bs_def)
    have hl: "length (kindHead k (unat z)) = 1 + l" using h lb by simp
    have "fits s1 l" "adv s1 l s'" using j(1,4) by simp_all
    then have "fits s (1 + l)" "adv s (1 + l) s'" using fits_add [OF i(1,4)] adv_trans [OF i(4)] by blast+
    then show thesis using that(2) [OF _ split] long(1) k hl by simp
  qed
qed

section \<open>Items\<close>

text \<open>\<open>avail s out\<close>: the stream has \<open>out\<close> ahead, within its limits; \<open>reads s out s'\<close>: it was consumed.\<close>

definition avail :: "Stream \<Rightarrow> bytes \<Rightarrow> bool" where
  "avail s out \<longleftrightarrow> s_kind s = None \<and> stack_ok (s_stack s) \<and> (\<exists>rest. s_r s = out @ rest) \<and> fits s (length out)"

definition reads :: "Stream \<Rightarrow> bytes \<Rightarrow> Stream \<Rightarrow> bool" where
  "reads s out s' \<longleftrightarrow> (\<exists>rest. s_r s = out @ rest) \<and> fits s (length out) \<and> adv s (length out) s' \<and> s_kind s' = None"

lemma reads_ok: "stack_ok (s_stack s) \<Longrightarrow> reads s out s' \<Longrightarrow> stack_ok (s_stack s') \<and> s_kind s' = None"
  using stack_ok_adv by (auto simp: reads_def)

lemma avail_reads: "avail s (a @ b) \<Longrightarrow> reads s a s' \<Longrightarrow> avail s' b"
  using fits_adv [of s "length a" "length b" s'] stack_ok_adv [of s "length a" s']
  by (auto simp: avail_def reads_def adv_def)

lemma avail_prefix: "avail s (a @ b) \<Longrightarrow> avail s a"
  by (auto simp: avail_def intro: fits_le)

lemma reads_trans:
  assumes a: "reads s a s1" and b: "reads s1 b s2"
  shows "reads s (a @ b) s2"
proof -
  from a obtain r1 where 1: "s_r s = a @ r1" "fits s (length a)" "adv s (length a) s1" by (auto simp: reads_def)
  from b obtain r2 where 2: "s_r s1 = b @ r2" "fits s1 (length b)" "adv s1 (length b) s2" "s_kind s2 = None" by (auto simp: reads_def)
  have "s_r s1 = r1" using 1 by (simp add: adv_def)
  then show ?thesis using 1 2 fits_add [OF 1(2,3) 2(2)] adv_trans [OF 1(3) 2(3)] by (auto simp: reads_def)
qed

lemma reads_nil: "s_kind s = None \<Longrightarrow> stack_ok (s_stack s) \<Longrightarrow> reads s [] s"
proof -
  assume k: "s_kind s = None" and ok: "stack_ok (s_stack s)"
  have "unat (lp_pos t) \<le> unat (lp_size t)" if "s_stack s = t # st" for t st
    using ok that by (cases st) (simp_all add: word_le_nat_alt)
  then show ?thesis using k by (auto simp: reads_def fits_def adv_def split: list.splits)
qed

lemma reads_update [simp]: "reads s out (s'\<lparr>s_kinderr := e\<rparr>) = reads s out s'" "reads (s\<lparr>s_kinderr := e\<rparr>) out s' = reads s out s'"
  by (simp_all add: reads_def)

lemma Kind_idem: "s_Kind s = (Inr x, s') \<Longrightarrow> s_Kind s' = (Inr x, s')"
  by (auto simp: s_Kind_def Let_def split: option.splits prod.splits if_splits list.splits)

lemma Kind_idem_ops:
  assumes "s_Kind s = (Inr x, s')"
  shows "s_Bytes s' = s_Bytes s" "s_List s' = s_List s" "s_uint s' m = s_uint s m" "s_Raw s' = s_Raw s"
  using assms Kind_idem [OF assms] by (simp_all add: s_Bytes_def s_List_def s_uint_def s_Raw_def)

lemma not_end: "fits s 1 \<Longrightarrow> \<not> (case s_stack s of [] \<Rightarrow> False | tos # _ \<Rightarrow> lp_pos tos = lp_size tos)"
  by (auto simp: fits_def split: list.splits)

lemma checkRoom_fits:
  assumes "stack_ok (s_stack s)" "fits s n" "n < 2 ^ 64"
  shows "checkRoom s (of_nat n) = None"
proof (cases "s_stack s")
  case Nil
  then show ?thesis using assms by (auto simp: checkRoom_def fits_def word_less_nat_alt unat_of_nat64)
next
  case (Cons t st)
  then have "lp_pos t \<le> lp_size t" using assms(1) by (cases st) simp_all
  from room_iff [OF this assms(3)] show ?thesis using assms(2) Cons by (auto simp: checkRoom_def fits_def)
qed

lemma checkRoom_update [simp]:
  "checkRoom (s\<lparr>s_kind := kd\<rparr>) z = checkRoom s z" "checkRoom (s\<lparr>s_kinderr := e\<rparr>) z = checkRoom s z"
  "checkRoom (s\<lparr>s_size := y\<rparr>) z = checkRoom s z"
  by (cases "s_stack s"; simp add: checkRoom_def)+

lemma Kind_byte:
  assumes a: "avail s [b]" and b: "b < 0x80"
  obtains s' where "s_Kind s = (Inr (Byte, 0), s')" "adv s 1 s'" "s_byteval s' = b"
proof -
  have f: "stack_ok (s_stack s)" "fits s 1" "hd (s_r s) = b" "s_kind s = None" using a by (auto simp: avail_def)
  have ok: "stack_ok (s_stack (s\<lparr>s_kinderr := None\<rparr>))" "fits (s\<lparr>s_kinderr := None\<rparr>) 1" using f by simp_all
  have "hd (s_r (s\<lparr>s_kinderr := None\<rparr>)) < 0x80" using f b by simp
  from readKind_byte [OF ok this] obtain s1 where 1: "s_readKind (s\<lparr>s_kinderr := None\<rparr>) = ((Byte, 0, None), s1)"
    "adv s 1 s1" "s_byteval s1 = b" using f(3) by auto
  have "checkRoom s1 0 = None" by (simp add: checkRoom_def split: list.split)
  then show thesis using that 1 f not_end [OF f(2)] by (simp add: s_Kind_def)
qed

lemma Kind_head:
  assumes a: "avail s (kindHead k n @ c)" and k: "k \<noteq> Byte" and n: "length c = n" "n < 2 ^ 64"
  obtains s' where "s_Kind s = (Inr (k, of_nat n), s')" "adv s (length (kindHead k n)) s'" "checkRoom s' (of_nat n) = None"
proof -
  let ?h = "kindHead k n" and ?s = "s\<lparr>s_kinderr := None\<rparr>"
  from a n obtain rest where f: "stack_ok (s_stack s)" "fits s (length ?h + n)" "s_r s = ?h @ c @ rest" "s_kind s = None"
    by (auto simp: avail_def)
  have f1: "fits s (length ?h)" by (rule fits_le [OF f(2)]) simp
  have "fits s 1" by (rule fits_le [OF f(2)]) (use kindHead_length [OF k n(2)] in simp)
  have s: "stack_ok (s_stack ?s)" "s_r ?s = ?h @ c @ rest" "fits ?s (length ?h)" using f f1 by simp_all
  from readKind_head [OF s(1) k n(2) s(2,3)] obtain s1 where
    1: "s_readKind ?s = ((k, of_nat n, None), s1)" "adv s (length ?h) s1" by auto
  have "checkRoom s1 (of_nat n) = None"
    by (rule checkRoom_fits [OF stack_ok_adv [OF f(1) f1 1(2)] fits_adv [OF f(2) 1(2)] n(2)])
  then show thesis using that 1 f not_end [OF \<open>fits s 1\<close>] \<open>checkRoom s1 (of_nat n) = None\<close> by (simp add: s_Kind_def)
qed

lemma Kind_inv:
  assumes kd: "s_kind s = None" and ok: "stack_ok (s_stack s)" and r: "s_Kind s = (Inr (k, z), s')"
  obtains (byte) b where "k = Byte" "z = 0" "b < 0x80" "avail s [b]" "s_byteval s' = b" "adv s 1 s'"
  | (head) "k \<noteq> Byte" "avail s (kindHead k (unat z))" "adv s (length (kindHead k (unat z))) s'" "checkRoom s' z = None"
proof -
  let ?s = "s\<lparr>s_kinderr := None\<rparr>"
  from kd r obtain s1 where 1: "s_readKind ?s = ((k, z, None), s1)" "checkRoom s1 z = None"
    "s' = s1\<lparr>s_kind := Some k, s_size := z, s_kinderr := None\<rparr>"
    by (auto simp: s_Kind_def Let_def split: if_splits prod.splits option.splits)
  have ok1: "stack_ok (s_stack ?s)" using ok by simp
  from ok1 1(1) show thesis
  proof (cases rule: readKind_inv)
    case byte
    then show thesis using that(1) [of "hd (s_r s)"] 1 kd ok by (cases "s_r s") (auto simp: avail_def)
  next
    case (head rest)
    then show thesis using that(2) 1 kd ok by (auto simp: avail_def)
  qed
qed

lemma rlpStr_head:
  "rlpStr b = (if length b = 1 \<and> hd b < 0x80 then b else kindHead String (length b) @ b)"
  by (simp add: rlpStr_def)

lemma rlpLst_head: "rlpLst p = kindHead List (length p) @ p"
  by (simp add: rlpLst_def)

lemma reads_adv:
  assumes "avail s (h @ c)" "adv s (length h) s1" "adv s1 (length c) s2" "s_kind s2 = None"
  shows "reads s (h @ c) s2"
  using assms adv_trans [OF assms(2,3)] by (simp add: avail_def reads_def)

text \<open>The content after a header.\<close>

lemma content_ok:
  assumes a: "avail s (h @ c)" and d: "adv s (length h) s1" and c: "length c < 2 ^ 64"
  obtains s' where "s_readFull s1 (length c) = (Inr c, s')" "reads s (h @ c) s'"
proof -
  from a obtain rest where r: "s_r s = h @ c @ rest" and ok: "stack_ok (s_stack s)" and f: "fits s (length h + length c)"
    by (auto simp: avail_def)
  have ok1: "stack_ok (s_stack s1)" by (rule stack_ok_adv [OF ok _ d]) (rule fits_le [OF f], simp)
  from readFull_ok [OF ok1 fits_adv [OF f d] c] obtain s' where
    1: "s_readFull s1 (length c) = (Inr (take (length c) (s_r s1)), s')" "adv s1 (length c) s'" "s_kind s' = None" by blast
  have "take (length c) (s_r s1) = c" using d r by (simp add: adv_def)
  then show thesis using that 1 reads_adv [OF a d 1(2,3)] by simp
qed

lemma content_inv:
  assumes a: "avail s h" and d: "adv s (length h) s1" and c: "n < 2 ^ 64" and r: "s_readFull s1 n = (Inr c, s')"
  shows "length c = n" "reads s (h @ c) s'"
proof -
  from a obtain rest where h: "s_r s = h @ rest" and ok: "stack_ok (s_stack s)" and f: "fits s (length h)"
    by (auto simp: avail_def)
  have ok1: "stack_ok (s_stack s1)" by (rule stack_ok_adv [OF ok f d])
  note i = readFull_inv [OF ok1 c r]
  show l: "length c = n" using i(1,2) by (simp add: fits_def)
  have "s_r s1 = c @ drop n rest" using i(2) d h by (simp add: adv_def)
  moreover have "s_r s1 = rest" using d h by (simp add: adv_def)
  ultimately show "reads s (h @ c) s'"
    using h fits_add [OF f d i(1)] adv_trans [OF d i(3)] i(4) l by (auto simp: reads_def)
qed

lemma Bytes_ok:
  assumes a: "avail s (rlpStr b)" and l: "length b < 2 ^ 64"
  obtains s' where "s_Bytes s = (Inr b, s')" "reads s (rlpStr b) s'"
proof (cases "length b = 1 \<and> hd b < 0x80")
  case True
  then obtain x where b: "b = [x]" "x < 0x80" by (cases b) auto
  with a have a: "avail s [x]" by (simp add: rlpStr_head)
  from Kind_byte [OF a b(2)] obtain s1 where 1: "s_Kind s = (Inr (Byte, 0), s1)" "adv s 1 s1" "s_byteval s1 = x" by blast
  have "reads s [x] (s1\<lparr>s_kind := None\<rparr>)" using a 1(2) by (simp add: avail_def reads_def)
  then show thesis using that 1 b by (simp add: s_Bytes_def rlpStr_head)
next
  case False
  let ?h = "kindHead String (length b)"
  have e: "rlpStr b = ?h @ b" using False by (auto simp: rlpStr_head)
  note a = a [unfolded e]
  from Kind_head [OF a _ refl l] obtain s1 where 1: "s_Kind s = (Inr (String, of_nat (length b)), s1)" "adv s (length ?h) s1" by auto
  from content_ok [OF a 1(2) l] obtain s' where 2: "s_readFull s1 (length b) = (Inr b, s')" "reads s (?h @ b) s'" by blast
  have "\<not> ((of_nat (length b) :: uint64) = 1 \<and> hd b < 128)"
    using False unat_of_nat64 [OF l] by (metis unsigned_1)
  then show thesis using that 1 2 l by (simp add: s_Bytes_def unat_of_nat64 e)
qed

lemma Bytes_inv:
  assumes kd: "s_kind s = None" and ok: "stack_ok (s_stack s)" and r: "s_Bytes s = (Inr b, s')"
  shows "length b < 2 ^ 64" "reads s (rlpStr b) s'"
proof -
  from r obtain k z s1 where 1: "s_Kind s = (Inr (k, z), s1)"
    by (auto simp: s_Bytes_def split: prod.splits sum.splits)
  from kd ok 1 have "length b < 2 ^ 64 \<and> reads s (rlpStr b) s'"
  proof (cases rule: Kind_inv)
    case (byte x)
    then have "b = [x]" "s' = s1\<lparr>s_kind := None\<rparr>" using r 1 by (auto simp: s_Bytes_def)
    then show ?thesis using byte by (simp add: rlpStr_head avail_def reads_def)
  next
    case head
    then have k: "k = String" using r 1 by (cases k) (auto simp: s_Bytes_def)
    with r 1 have f: "s_readFull s1 (unat z) = (Inr b, s')" and n: "\<not> (z = 1 \<and> hd b < 128)"
      by (auto simp: s_Bytes_def split: prod.splits sum.splits if_splits)
    note i = content_inv [OF head(2,3) unat_lt64 f]
    have "\<not> (length b = 1 \<and> hd b < 0x80)" using n i(1) by (metis unsigned_1 word_unat_eq_iff)
    then have "rlpStr b = kindHead k (unat z) @ b" using i(1) k by (auto simp: rlpStr_head)
    then show ?thesis using i unat_lt64 [of z] by simp
  qed
  then show "length b < 2 ^ 64" "reads s (rlpStr b) s'" by blast+
qed

lemma ucast_size: "unat z \<le> 8 \<Longrightarrow> (ucast (z :: uint64) :: byte) = of_nat (unat z)"
proof -
  assume z: "unat z \<le> 8"
  then have "unat z mod 256 = unat z" by simp
  then show ?thesis using ucast_of_nat [of z] by metis
qed

lemma uint_le_bits: "m div 8 \<le> 8 \<Longrightarrow> \<not> (z :: uint64) > of_nat (m div 8) \<longleftrightarrow> unat z \<le> m div 8"
  by (simp add: word_less_nat_alt unat_of_nat64 not_less)

lemma rlpStr_nat_bytes:
  "0 < n \<Longrightarrow> n < 128 \<Longrightarrow> rlpStr (nat_bytes n) = [of_nat n]"
  "128 \<le> n \<Longrightarrow> rlpStr (nat_bytes n) = kindHead String (length (nat_bytes n)) @ nat_bytes n"
proof -
  assume n: "0 < n" "n < 128"
  then have "(of_nat n :: byte) < 0x80" by (simp add: word_less_nat_alt unat_of_nat8)
  then show "rlpStr (nat_bytes n) = [of_nat n]" using n nat_bytes_small [of n] by (simp add: rlpStr_head)
next
  assume "128 \<le> n"
  from nat_bytes_ge128 [OF this] show "rlpStr (nat_bytes n) = kindHead String (length (nat_bytes n)) @ nat_bytes n"
    by (auto simp: rlpStr_head)
qed

lemma uint_ok:
  assumes a: "avail s (rlpStr (nat_bytes (unat i)))" and m: "length (nat_bytes (unat i)) \<le> m div 8" "m div 8 \<le> 8"
  obtains s' where "s_uint s m = (Inr i, s')" "reads s (rlpStr (nat_bytes (unat i))) s'"
proof -
  let ?b = "nat_bytes (unat i)"
  consider "i = 0" | "0 < unat i" "unat i < 128" | "128 \<le> unat i" by (metis unat_0 neq0_conv linorder_not_less word_unat_eq_iff)
  then show thesis
  proof cases
    case 1
    have e: "rlpStr ?b = kindHead String 0 @ []" using 1 by (simp add: rlpStr_head)
    note a = a [unfolded e]
    obtain s1 where k: "s_Kind s = (Inr (String, 0), s1)" "adv s (length (kindHead String 0)) s1"
      using Kind_head [where k = String and n = 0 and c = "[]", OF a] by auto
    have "reads s (kindHead String 0 @ []) (s1\<lparr>s_kind := None\<rparr>)" using a k(2) by (simp add: avail_def reads_def)
    then show thesis using that k 1 unfolding e by (simp add: s_uint_def s_readUint_def)
  next
    case 2
    have x: "(of_nat (unat i) :: byte) < 0x80" "(of_nat (unat i) :: byte) \<noteq> 0" "unat (of_nat (unat i) :: byte) = unat i"
      using 2 unat_of_nat8 [of "unat i"] by (simp_all add: word_less_nat_alt) (metis neq0_conv unsigned_0)
    note a = a [unfolded rlpStr_nat_bytes(1) [OF 2]]
    from Kind_byte [OF a x(1)] obtain s1 where k: "s_Kind s = (Inr (Byte, 0), s1)" "adv s 1 s1" "s_byteval s1 = of_nat (unat i)" by blast
    have "reads s [of_nat (unat i)] (s1\<lparr>s_kind := None\<rparr>)" using a k(2) by (simp add: avail_def reads_def)
    moreover have "(ucast (of_nat (unat i) :: byte) :: uint64) = i"
      using x(3) unat_lt64 [of i] by (simp only: word_unat_eq_iff unsigned_ucast_eq) (simp add: take_bit_nat_eq_self_iff)
    ultimately show thesis using that k x unfolding rlpStr_nat_bytes(1) [OF 2] by (simp add: s_uint_def)
  next
    case 3
    note e = rlpStr_nat_bytes(2) [OF 3]
    note a = a [unfolded e]
    have l: "1 \<le> length ?b" "length ?b \<le> 8" "hd ?b \<noteq> 0" using nat_bytes_size [of "unat i"] 3 unat_lt64 [of i] by auto
    have "length ?b < 2 ^ 64" using l by simp
    from Kind_head [OF a _ refl this] obtain s1 where
      k: "s_Kind s = (Inr (String, of_nat (length ?b)), s1)" "adv s (length (kindHead String (length ?b))) s1" by auto
    from a obtain rest where r: "s_r s = kindHead String (length ?b) @ ?b @ rest" and ok: "stack_ok (s_stack s)"
      and f: "fits s (length (kindHead String (length ?b)) + length ?b)" by (auto simp: avail_def)
    have ok1: "stack_ok (s_stack s1)" by (rule stack_ok_adv [OF ok _ k(2)]) (rule fits_le [OF f], simp)
    have r1: "s_r s1 = ?b @ rest" using r k(2) by (simp add: adv_def)
    have h: "hd (s_r s1) \<noteq> 0" using r1 l by (cases ?b) auto
    from readUint_ok [OF ok1 fits_adv [OF f k(2)] l(1,2)] h obtain s2 where
      u: "s_readUint s1 (of_nat (length ?b)) = (Inr (word_of_int (SetBytes (take (length ?b) (s_r s1)))), s2)"
        "adv s1 (length ?b) s2" "s_kind s2 = None" by blast
    have v: "word_of_int (SetBytes (take (length ?b) (s_r s1))) = i" by (simp add: r1 SetBytes_nat_bytes)
    have n: "unat (of_nat (length ?b) :: uint64) = length ?b" using l by (simp add: unat_of_nat64)
    then have c: "(ucast (of_nat (length ?b) :: uint64) :: byte) = of_nat (length ?b)" using ucast_size l by metis
    have "\<not> i < 128" using 3 by (simp add: word_less_nat_alt)
    moreover have "\<not> (of_nat (length ?b) :: uint64) > of_nat (m div 8)" using uint_le_bits [OF m(2)] m(1) n by metis
    ultimately have "s_uint s m = (Inr i, s2)" using k(1) u(1) by (simp add: s_uint_def c v)
    then show thesis using that reads_adv [OF a k(2) u(2,3)] unfolding e by blast
  qed
qed

lemma uint_inv:
  assumes kd: "s_kind s = None" and ok: "stack_ok (s_stack s)" and r: "s_uint s m = (Inr i, s')" and m: "m div 8 \<le> 8" "1 \<le> m div 8"
  shows "length (nat_bytes (unat i)) \<le> m div 8" "reads s (rlpStr (nat_bytes (unat i))) s'"
proof -
  from r obtain k z s1 where 1: "s_Kind s = (Inr (k, z), s1)" by (auto simp: s_uint_def split: prod.splits sum.splits)
  from kd ok 1 have "length (nat_bytes (unat i)) \<le> m div 8 \<and> reads s (rlpStr (nat_bytes (unat i))) s'"
  proof (cases rule: Kind_inv)
    case (byte x)
    with r 1 have i: "x \<noteq> 0" "i = ucast x" "s' = s1\<lparr>s_kind := None\<rparr>" by (auto simp: s_uint_def split: if_splits)
    have "unat x < 256" using unsigned_less [of x] by simp
    then have "unat i = unat x" using i(2) by (simp only: unsigned_ucast_eq) (simp add: take_bit_nat_eq_self_iff)
    moreover have "0 < unat x" "unat x < 128" using i(1) byte(3) by (simp_all add: unat_gt_0 word_less_nat_alt)
    ultimately have u: "0 < unat i" "unat i < 128" "of_nat (unat i) = x" by simp_all
    then have "nat_bytes (unat i) = [x]" by (simp add: nat_bytes_small)
    then show ?thesis using byte i m rlpStr_nat_bytes(1) [OF u(1,2)] u(3) by (simp add: avail_def reads_def)
  next
    case head
    then have k: "k = String" using r 1 by (cases k) (auto simp: s_uint_def)
    with r 1 have z: "\<not> z > of_nat (m div 8)" and ru: "s_readUint s1 (ucast z) = (Inr i, s')" and c: "\<not> (z > 0 \<and> i < 128)"
      by (auto simp: s_uint_def split: prod.splits sum.splits if_splits)
    have uz: "unat z \<le> m div 8" "unat z \<le> 8" using z uint_le_bits [OF m(1)] m by auto
    show ?thesis
    proof (cases "z = 0")
      case True
      then have "i = 0" "s' = s1\<lparr>s_kind := None\<rparr>" using ru by (auto simp: s_readUint_def)
      then show ?thesis using head k True by (simp add: rlpStr_head reads_def avail_def)
    next
      case False
      then have l: "1 \<le> unat z" by (simp add: unat_gt_0 Suc_le_eq)
      have ok1: "stack_ok (s_stack s1)" using stack_ok_adv [OF ok _ head(3)] head(2) by (simp add: avail_def)
      note j = readUint_inv [OF ok1 ru [unfolded ucast_size [OF uz(2)]] l uz(2)]
      define b where "b = take (unat z) (s_r s1)"
      have lb: "length b = unat z" using j(1) by (simp add: b_def fits_def)
      have "SetBytes b < 256 ^ unat z" using SetBytes_bound [of b] lb by simp
      also have "(256 :: int) ^ unat z \<le> 256 ^ 8" using uz(2) by (intro power_increasing) auto
      finally have "SetBytes b < 2 ^ 64" by simp
      then have v: "int (unat i) = SetBytes b" using j(2) by (simp add: b_def [symmetric] unsigned_of_int take_bit_int_eq_self_iff)
      have i128: "128 \<le> unat i" using c l by (auto simp: word_less_nat_alt not_less)
      have hb: "hd b \<noteq> 0"
      proof (cases "unat z = 1")
        case True
        then obtain x where "b = [x]" using lb by (cases b) auto
        moreover have "SetBytes b \<noteq> 0" using v i128 by linarith
        ultimately show ?thesis by (auto simp: SetBytes_Cons)
      next
        case False
        then show ?thesis using j(3) l unfolding b_def by (cases "s_r s1"; cases "unat z") auto
      qed
      have nb: "nat_bytes (unat i) = b" using nat_bytes_SetBytes [of b] hb v [symmetric] by simp
      have e: "rlpStr (nat_bytes (unat i)) = kindHead k (unat z) @ b" using rlpStr_nat_bytes(2) [OF i128] k lb by (simp add: nb)
      from head(2) obtain rest where h: "s_r s = kindHead k (unat z) @ rest" and f: "fits s (length (kindHead k (unat z)))"
        by (auto simp: avail_def)
      have "s_r s1 = rest" using head(3) h by (simp add: adv_def)
      then have "s_r s = (kindHead k (unat z) @ b) @ drop (unat z) rest" using h by (simp add: b_def)
      then have "reads s (kindHead k (unat z) @ b) s'"
        using fits_add [OF f head(3) j(1)] adv_trans [OF head(3) j(4)] j(5) lb unfolding reads_def by auto
      then show ?thesis using e nb lb uz by simp
    qed
  qed
  then show "length (nat_bytes (unat i)) \<le> m div 8" "reads s (rlpStr (nat_bytes (unat i))) s'" by blast+
qed

section \<open>Lists\<close>

definition atEnd :: "Stream \<Rightarrow> bool" where
  "atEnd s \<longleftrightarrow> s_kind s = None \<and> (\<exists>t st. s_stack s = t # st \<and> lp_pos t = lp_size t)"

lemma push_stack_ok:
  assumes ok: "stack_ok (s_stack s)" and room: "checkRoom s z = None"
  shows "stack_ok (\<lparr>lp_pos = 0, lp_size = z\<rparr> # s_stack s)"
proof (cases "s_stack s")
  case (Cons t st)
  then have t: "lp_pos t \<le> lp_size t" using ok by (cases st) simp_all
  have "\<not> lp_size t - lp_pos t < z" using room Cons by (simp add: checkRoom_def split: if_splits)
  then have "unat (lp_pos t) + unat z \<le> unat (lp_size t)" using room_iff [OF t unat_lt64 [of z]] by simp
  then show ?thesis using ok Cons by simp
qed simp

definition pushed :: "uint64 \<Rightarrow> Stream \<Rightarrow> Stream" where
  "pushed z s = s\<lparr>s_stack := \<lparr>lp_pos = 0, lp_size = z\<rparr> # s_stack s, s_kind := None, s_size := 0\<rparr>"

lemma list_end:
  assumes h: "avail s h" "adv s (length h) s0" and room: "checkRoom s0 z = None"
    and p: "reads (pushed z s0) p s2" and l: "length p = unat z"
  shows "atEnd s2" "\<exists>s3. s_ListEnd s2 = (None, s3) \<and> reads s (h @ p) s3"
proof -
  have ok: "stack_ok (s_stack s)" "fits s (length h)" using h(1) by (simp_all add: avail_def)
  have ok0: "stack_ok (s_stack s0)" by (rule stack_ok_adv [OF ok h(2)])
  have z: "of_nat (length p) = z" using l by simp
  have a: "adv (pushed z s0) (length p) s2" "fits (pushed z s0) (length p)" "s_kind s2 = None" using p by (simp_all add: reads_def)
  have st: "s_stack s2 = \<lparr>lp_pos = z, lp_size = z\<rparr> # s_stack s0" using a(1) z by (simp add: adv_def pushed_def)
  then show "atEnd s2" using a(3) by (simp add: atEnd_def)
  have f0: "fits s0 (length p)"
  proof (cases "s_stack s0")
    case Nil
    then show ?thesis using a(2) by (simp add: fits_def pushed_def)
  next
    case (Cons t st)
    then have t: "lp_pos t \<le> lp_size t" using ok0 by (cases st) simp_all
    have "\<not> lp_size t - lp_pos t < z" using room Cons by (simp add: checkRoom_def split: if_splits)
    then have "unat (lp_pos t) + length p \<le> unat (lp_size t)" using room_iff [OF t, of "length p"] l unat_lt64 [of z] z by simp
    then show ?thesis using a(2) Cons by (simp add: fits_def pushed_def)
  qed
  define s3 where "s3 = s2\<lparr>s_stack := (case s_stack s0 of [] \<Rightarrow> [] | up # st \<Rightarrow> up\<lparr>lp_pos := lp_pos up + z\<rparr> # st),
    s_kind := None, s_size := 0\<rparr>"
  have e: "s_ListEnd s2 = (None, s3)" by (simp add: s_ListEnd_def st s3_def Let_def cong: list.case_cong)
  have "adv s0 (length p) s3" using a(1) z by (simp add: adv_def s3_def pushed_def split: list.split)
  then have "adv s (length h + length p) s3" by (rule adv_trans [OF h(2)])
  moreover obtain rest where r: "s_r s = h @ rest" using h(1) by (auto simp: avail_def)
  moreover have "\<exists>rest'. rest = p @ rest'" using p h(2) r by (auto simp: reads_def pushed_def adv_def)
  moreover have "s_kind s3 = None" by (simp add: s3_def)
  ultimately have "reads s (h @ p) s3" using fits_add [OF ok(2) h(2) f0] by (auto simp: reads_def)
  with e show "\<exists>s3. s_ListEnd s2 = (None, s3) \<and> reads s (h @ p) s3" by blast
qed

lemma List_ok:
  assumes a: "avail s (rlpLst p)" and l: "length p < 2 ^ 64"
  obtains s1 where "s_List s = (Inr (of_nat (length p)), s1)" "avail s1 p"
    "\<And>s2. reads s1 p s2 \<Longrightarrow> atEnd s2 \<and> (\<exists>s3. s_ListEnd s2 = (None, s3) \<and> reads s (rlpLst p) s3)"
proof -
  let ?h = "kindHead List (length p)" and ?z = "of_nat (length p) :: uint64"
  note a = a [unfolded rlpLst_head]
  from Kind_head [OF a _ refl l] obtain s0 where 1: "s_Kind s = (Inr (List, ?z), s0)" "adv s (length ?h) s0" "checkRoom s0 ?z = None" by auto
  from a obtain rest where r: "s_r s = ?h @ p @ rest" and ok: "stack_ok (s_stack s)" and f: "fits s (length ?h + length p)"
    by (auto simp: avail_def)
  have ok0: "stack_ok (s_stack s0)" by (rule stack_ok_adv [OF ok _ 1(2)]) (rule fits_le [OF f], simp)
  have f0: "fits s0 (length p)" by (rule fits_adv [OF f 1(2)])
  have "s_r s0 = p @ rest" using r 1(2) by (simp add: adv_def)
  then have "avail (pushed ?z s0) p"
    using push_stack_ok [OF ok0 1(3)] f0 l by (auto simp: avail_def pushed_def fits_def unat_of_nat64)
  moreover have "s_List s = (Inr ?z, pushed ?z s0)" using 1(1) by (simp add: s_List_def pushed_def)
  moreover have "length p = unat ?z" using l by (simp add: unat_of_nat64)
  ultimately show thesis using that list_end [OF avail_prefix [OF a] 1(2,3)] unfolding rlpLst_head by blast
qed

lemma List_inv:
  assumes kd: "s_kind s = None" and ok: "stack_ok (s_stack s)" and r: "s_List s = (Inr z, s1)"
  shows "s_kind s1 = None" "stack_ok (s_stack s1)"
    "\<And>p s2 s3. reads s1 p s2 \<Longrightarrow> s_ListEnd s2 = (None, s3) \<Longrightarrow> reads s (rlpLst p) s3"
    "z = 0 \<Longrightarrow> reads s1 [] s1"
proof -
  from r obtain s0 where 1: "s_Kind s = (Inr (List, z), s0)" and s1: "s1 = pushed z s0"
    by (auto simp: s_List_def pushed_def split: prod.splits sum.splits if_splits)
  from kd ok 1 have 2: "avail s (kindHead List (unat z))" "adv s (length (kindHead List (unat z))) s0" "checkRoom s0 z = None"
    by (auto elim: Kind_inv)
  have ok0: "stack_ok (s_stack s0)" using stack_ok_adv [OF ok _ 2(2)] 2(1) by (simp add: avail_def)
  show k1: "s_kind s1 = None" and ok1: "stack_ok (s_stack s1)" using push_stack_ok [OF ok0 2(3)] by (simp_all add: s1 pushed_def)
  show "reads s1 [] s1" by (rule reads_nil [OF k1 ok1])
  fix p s2 s3
  assume p: "reads s1 p s2" and e: "s_ListEnd s2 = (None, s3)"
  have "adv (pushed z s0) (length p) s2" "fits (pushed z s0) (length p)" using p by (simp_all add: reads_def s1)
  then have "lp_pos (hd (s_stack s2)) = of_nat (length p)" "lp_size (hd (s_stack s2)) = z" "length p \<le> unat z"
    by (simp_all add: adv_def pushed_def fits_def)
  moreover have "lp_pos (hd (s_stack s2)) = lp_size (hd (s_stack s2))"
    using e by (auto simp: s_ListEnd_def split: list.splits if_splits)
  ultimately have l: "length p = unat z" using unat_of_nat64 [of "length p"] unat_lt64 [of z] by auto
  from list_end(2) [OF 2 p [unfolded s1] l] e show "reads s (rlpLst p) s3" by (auto simp: rlpLst_head l)
qed

end
