(* ===== verification/RlpRound.thy ===== *)
theory RlpRound
  imports RlpStream
begin

text \<open>
  The decoders of rlp/decode.go against the textbook encoding: decoding inverts encoding, nothing but
  the encoding of a value decodes to it, and decoding ends on every input.
\<close>

section \<open>Typed values\<close>

text \<open>One complete item, which is what a raw value holds.\<close>

definition rawItem :: "bytes \<Rightarrow> bool" where
  "rawItem b \<longleftrightarrow> (\<exists>x. b = [x] \<and> x < 0x80) \<or> (\<exists>k c. k \<noteq> Byte \<and> b = kindHead k (length c) @ c \<and> length c < 2 ^ 64)"

lemma rawItemI: "k \<noteq> Byte \<Longrightarrow> b = kindHead k (length c) @ c \<Longrightarrow> length c < 2 ^ 64 \<Longrightarrow> rawItem b"
  unfolding rawItem_def by (intro disjI2 exI conjI)

text \<open>
  Which values a type has. A one-byte array with the byte zero is left out, see
  \<open>decode_zero_byte\<close> below; so are optional pointers to a value that is encoded as empty.
\<close>

fun wt :: "rtyp \<Rightarrow> rlpval \<Rightarrow> bool"
  and wts :: "rtyp list \<Rightarrow> rlpval list \<Rightarrow> bool" where
  "wt TRaw v \<longleftrightarrow> (case v of RRaw b \<Rightarrow> rawItem b | _ \<Rightarrow> False)"
| "wt TBigInt v \<longleftrightarrow> (case v of RBigInt i \<Rightarrow> 0 \<le> i | _ \<Rightarrow> False)"
| "wt (TUint bits) v \<longleftrightarrow> (case v of RUint i \<Rightarrow> length (nat_bytes (unat i)) \<le> bits div 8 | _ \<Rightarrow> False)"
| "wt TBool v \<longleftrightarrow> (case v of RBool b \<Rightarrow> True | _ \<Rightarrow> False)"
| "wt TString v \<longleftrightarrow> (case v of RBytes b \<Rightarrow> True | _ \<Rightarrow> False)"
| "wt TByteSlice v \<longleftrightarrow> (case v of RBytes b \<Rightarrow> True | _ \<Rightarrow> False)"
| "wt (TByteArray n) v \<longleftrightarrow> (case v of RBytes b \<Rightarrow> length b = n \<and> b \<noteq> [0] | _ \<Rightarrow> False)"
| "wt (TSlice t) v \<longleftrightarrow> (case v of RList vs \<Rightarrow> \<forall>u \<in> set vs. wt t u | _ \<Rightarrow> False)"
| "wt (TArray n t) v \<longleftrightarrow> (case v of RList vs \<Rightarrow> length vs = n \<and> (\<forall>u \<in> set vs. wt t u) | _ \<Rightarrow> False)"
| "wt (TStruct ts) v \<longleftrightarrow> (case v of RList vs \<Rightarrow> wts ts vs | _ \<Rightarrow> False)"
| "wt (TPtr t) v \<longleftrightarrow> wt t v"
| "wt (TOptPtr t) v \<longleftrightarrow> wt t v \<and> rlpEnc v \<noteq> [0x80] \<and> rlpEnc v \<noteq> [0xC0]"
| "wt TInterface v \<longleftrightarrow> (case v of RBytes b \<Rightarrow> True | RList vs \<Rightarrow> \<forall>u \<in> set vs. wt TInterface u | _ \<Rightarrow> False)"
| "wts [] vs \<longleftrightarrow> vs = []"
| "wts (t # ts) vs \<longleftrightarrow> (case vs of [] \<Rightarrow> False | v # us \<Rightarrow> wt t v \<and> wts ts us)"

declare wt.simps(13) [simp del]

lemmas wt_TInterface = wt.simps(13)

text \<open>The widths of the unsigned types.\<close>

fun typ_ok :: "rtyp \<Rightarrow> bool" where
  "typ_ok (TUint bits) \<longleftrightarrow> bits \<in> {8, 16, 32, 64}"
| "typ_ok (TByteArray n) \<longleftrightarrow> n < 2 ^ 64"
| "typ_ok (TSlice t) \<longleftrightarrow> typ_ok t"
| "typ_ok (TArray n t) \<longleftrightarrow> typ_ok t"
| "typ_ok (TStruct ts) \<longleftrightarrow> (\<forall>t \<in> set ts. typ_ok t)"
| "typ_ok (TPtr t) \<longleftrightarrow> typ_ok t"
| "typ_ok (TOptPtr t) \<longleftrightarrow> typ_ok t"
| "typ_ok _ \<longleftrightarrow> True"

fun need :: "rlpval \<Rightarrow> nat"
  and needs :: "rlpval list \<Rightarrow> nat" where
  "need (RList vs) = Suc (needs vs)"
| "need _ = 1"
| "needs [] = 2"
| "needs (v # vs) = Suc (max (need v) (needs vs))"

lemma need_pos: "0 < need v"
  by (cases v) auto

lemma needs_pos: "1 < needs vs"
  by (induction vs) auto

section \<open>Decoding inverts encoding\<close>

lemma Kind_end: "atEnd s \<Longrightarrow> s_Kind s = (Inl EOL, s\<lparr>s_kinderr := None\<rparr>)"
  by (auto simp: atEnd_def s_Kind_def)

lemma decode_end: "atEnd s \<Longrightarrow> decodeTyp (Suc n) t s = Ok (Inl EOL, s\<lparr>s_kinderr := None\<rparr>)"
proof (induction t)
  case (TOptPtr t)
  then have "s\<lparr>s_kinderr := None, s_kind := None\<rparr> = s\<lparr>s_kinderr := None\<rparr>" by (cases s) (simp add: atEnd_def)
  then show ?case using TOptPtr.prems by (simp add: Kind_end)
qed (simp_all add: Kind_end s_Raw_def s_Bytes_def s_uint_def s_Bool_def s_List_def wrapped_def wrapStreamError_def
      decodeRawValue_def decodeUint_def decodeBool_def decodeString_def decodeByteSlice_def decodeBigInt_def decodeByteArray_def)

definition decodes :: "rtyp \<Rightarrow> rlpval \<Rightarrow> bool" where
  "decodes t v \<longleftrightarrow> (\<forall>n s. need v \<le> n \<longrightarrow> length (rlpEnc v) < 2 ^ 64 \<longrightarrow> avail s (rlpEnc v) \<longrightarrow>
     (\<exists>s'. decodeTyp n t s = Ok (Inr v, s') \<and> reads s (rlpEnc v) s'))"

lemma decodesD:
  assumes "decodes t v" "need v \<le> n" "length (rlpEnc v) < 2 ^ 64" "avail s (rlpEnc v)"
  obtains s' where "decodeTyp n t s = Ok (Inr v, s')" "reads s (rlpEnc v) s'"
  using assms unfolding decodes_def by blast

lemma elems_ok:
  assumes "\<forall>v \<in> set vs. decodes t v" "needs vs \<le> n" "length (concat (map rlpEnc vs)) < 2 ^ 64"
    "avail s (concat (map rlpEnc vs))" "\<And>s2. reads s (concat (map rlpEnc vs)) s2 \<Longrightarrow> atEnd s2"
  shows "\<exists>s'. decodeSliceElems n t s = Ok (Inr vs, s') \<and> reads s (concat (map rlpEnc vs)) s'"
  using assms
proof (induction vs arbitrary: n s)
  case Nil
  then have r: "reads s [] s" by (simp add: avail_def reads_nil)
  with Nil have e: "atEnd s" by simp
  obtain m where n: "n = Suc (Suc m)" using Nil(2) by (metis Suc_le_D needs.simps(1) numeral_2_eq_2 Suc_le_mono)
  show ?case using r decode_end [OF e, of m t] by (simp add: n res_simps)
next
  case (Cons v vs)
  obtain m where n: "n = Suc m" "need v \<le> m" "needs vs \<le> m" using Cons.prems(2) by (cases n) auto
  have a: "avail s (rlpEnc v)" using Cons.prems(4) avail_prefix by simp
  have "length (rlpEnc v) < 2 ^ 64" using Cons.prems(3) by simp
  with Cons.prems(1) n(2) a obtain s1 where 1: "decodeTyp m t s = Ok (Inr v, s1)" "reads s (rlpEnc v) s1"
    by (auto elim: decodesD)
  have a1: "avail s1 (concat (map rlpEnc vs))" using avail_reads [OF _ 1(2)] Cons.prems(4) by simp
  have "\<exists>s'. decodeSliceElems m t s1 = Ok (Inr vs, s') \<and> reads s1 (concat (map rlpEnc vs)) s'"
    using Cons.prems(1,3,5) n(3) a1 reads_trans [OF 1(2)] by (intro Cons.IH) auto
  then show ?case using 1 n(1) reads_trans [OF 1(2)] by (auto simp: res_simps)
qed

lemma array_ok:
  assumes "\<forall>v \<in> set vs. decodes t v" "needs vs \<le> n" "length (concat (map rlpEnc vs)) < 2 ^ 64"
    "avail s (concat (map rlpEnc vs))"
  shows "\<exists>s'. decodeArrayElems n (length vs) t s = Ok (Inr vs, s') \<and> reads s (concat (map rlpEnc vs)) s'"
  using assms
proof (induction vs arbitrary: n s)
  case Nil
  then have r: "reads s [] s" by (simp add: avail_def reads_nil)
  then show ?case using Nil(2) by (cases n) auto
next
  case (Cons v vs)
  obtain m where n: "n = Suc m" "need v \<le> m" "needs vs \<le> m" using Cons.prems(2) by (cases n) auto
  have a: "avail s (rlpEnc v)" using Cons.prems(4) avail_prefix by simp
  have "length (rlpEnc v) < 2 ^ 64" using Cons.prems(3) by simp
  with Cons.prems(1) n(2) a obtain s1 where 1: "decodeTyp m t s = Ok (Inr v, s1)" "reads s (rlpEnc v) s1"
    by (auto elim: decodesD)
  have a1: "avail s1 (concat (map rlpEnc vs))" using avail_reads [OF _ 1(2)] Cons.prems(4) by simp
  have "\<exists>s'. decodeArrayElems m (length vs) t s1 = Ok (Inr vs, s') \<and> reads s1 (concat (map rlpEnc vs)) s'"
    using Cons.prems(1,3) n(3) a1 by (intro Cons.IH) auto
  then show ?case using 1 n(1) reads_trans [OF 1(2)] by (auto simp: res_simps)
qed

lemma fields_ok:
  assumes "list_all2 decodes ts vs" "needs vs \<le> n" "length (concat (map rlpEnc vs)) < 2 ^ 64" "avail s (concat (map rlpEnc vs))"
  shows "\<exists>s'. decodeFields n ts s = Ok (Inr vs, s') \<and> reads s (concat (map rlpEnc vs)) s'"
  using assms
proof (induction arbitrary: n s rule: list_all2_induct)
  case Nil
  then show ?case by (simp add: avail_def reads_nil)
next
  case (Cons t ts v vs)
  obtain m where n: "n = Suc m" "need v \<le> m" "needs vs \<le> m" using Cons.prems(1) by (cases n) auto
  have a: "avail s (rlpEnc v)" using Cons.prems(3) avail_prefix by simp
  have "length (rlpEnc v) < 2 ^ 64" using Cons.prems(2) by simp
  with Cons.hyps(1) n(2) a obtain s1 where 1: "decodeTyp m t s = Ok (Inr v, s1)" "reads s (rlpEnc v) s1"
    by (auto elim: decodesD)
  have a1: "avail s1 (concat (map rlpEnc vs))" using avail_reads [OF _ 1(2)] Cons.prems(3) by simp
  have "\<exists>s'. decodeFields m ts s1 = Ok (Inr vs, s') \<and> reads s1 (concat (map rlpEnc vs)) s'"
    using Cons.prems(2) n(3) a1 by (intro Cons.IH) auto
  then show ?case using 1 n(1) reads_trans [OF 1(2)] by (auto simp: res_simps)
qed

lemma kindHead_nonempty [simp]: "k \<noteq> Byte \<Longrightarrow> kindHead k n \<noteq> []"
  by (simp add: kindHead_eq)

lemma rlp_nonempty [simp]: "rlpStr b \<noteq> []" "rlpLst p \<noteq> []"
  by (auto simp: rlpStr_def rlpLst_def rlpHead_def Let_def)

lemma rawItem_nonempty: "rawItem b \<Longrightarrow> b \<noteq> []"
  by (auto simp: rawItem_def)

lemma wt_nonempty: "wt t v \<Longrightarrow> rlpEnc v \<noteq> []" "wts ts vs \<Longrightarrow> True"
proof (induction t v and ts vs rule: wt_wts.induct)
  case (13 v)
  then show ?case unfolding wt_TInterface [of v] by (auto split: rlpval.splits)
qed (auto simp: rawItem_nonempty split: rlpval.splits)

lemma slice_ok:
  assumes d: "\<forall>v \<in> set vs. decodes t v \<and> rlpEnc v \<noteq> []" and n: "needs vs \<le> n" and l: "length (rlpEnc (RList vs)) < 2 ^ 64"
    and a: "avail s (rlpEnc (RList vs))"
  shows "\<exists>s'. decodeListSlice n t s = Ok (Inr (RList vs), s') \<and> reads s (rlpEnc (RList vs)) s'"
proof -
  let ?p = "concat (map rlpEnc vs)"
  have lp: "length ?p < 2 ^ 64" using l rlpLst_length [of ?p] by simp
  from List_ok [OF a [simplified] lp] obtain s1 where 1: "s_List s = (Inr (of_nat (length ?p)), s1)" "avail s1 ?p"
    "\<And>s2. reads s1 ?p s2 \<Longrightarrow> atEnd s2 \<and> (\<exists>s3. s_ListEnd s2 = (None, s3) \<and> reads s (rlpLst ?p) s3)" by blast
  show ?thesis
  proof (cases "vs = []")
    case True
    then have "reads s1 ?p s1" using 1(2) by (simp add: avail_def reads_nil)
    from 1(3) [OF this] 1(1) True show ?thesis by (auto simp: listEndPlain_def)
  next
    case False
    then have "?p \<noteq> []" using d by (cases vs) auto
    then have nz: "(of_nat (length ?p) :: uint64) \<noteq> 0" using of_nat_nz [OF lp] by simp
    have "\<exists>s2. decodeSliceElems n t s1 = Ok (Inr vs, s2) \<and> reads s1 ?p s2"
      using d n lp 1(2,3) by (intro elems_ok) auto
    then obtain s2 where 2: "decodeSliceElems n t s1 = Ok (Inr vs, s2)" "reads s1 ?p s2" by blast
    from 1(3) [OF 2(2)] 1(1) 2(1) nz show ?thesis by (auto simp: listEndPlain_def res_simps)
  qed
qed

lemma Raw_ok:
  assumes b: "rawItem b" and a: "avail s b"
  obtains s' where "s_Raw s = (Inr b, s')" "reads s b s'"
proof -
  from b consider x where "b = [x]" "x < 0x80" | k c where "k \<noteq> Byte" "b = kindHead k (length c) @ c" "length c < 2 ^ 64"
    by (auto simp: rawItem_def)
  then show thesis
  proof cases
    case 1
    from Kind_byte [OF a [unfolded 1(1)] 1(2)] obtain s1 where k: "s_Kind s = (Inr (Byte, 0), s1)" "adv s 1 s1" "s_byteval s1 = x" by blast
    have "reads s [x] (s1\<lparr>s_kind := None\<rparr>)" using a k(2) 1(1) by (simp add: avail_def reads_def)
    then show thesis using that k 1(1) by (simp add: s_Raw_def)
  next
    case 2
    note a = a [unfolded 2(2)]
    from Kind_head [OF a 2(1) refl 2(3)] obtain s1 where
      k1: "s_Kind s = (Inr (k, of_nat (length c)), s1)" "adv s (length (kindHead k (length c))) s1" by blast
    from content_ok [OF a k1(2) 2(3)] obtain s' where
      c: "s_readFull s1 (length c) = (Inr c, s')" "reads s (kindHead k (length c) @ c) s'" by blast
    have "s_Raw s = (Inr b, s')"
      using k1(1) c(1) 2 by (cases k) (simp_all add: s_Raw_def unat_of_nat64 puthead_eq)
    then show thesis using that c(2) 2(2) by simp
  qed
qed

lemma ByteArray_ok:
  assumes b: "b \<noteq> [0]" "length b < 2 ^ 64" and a: "avail s (rlpStr b)"
  obtains s' where "decodeByteArray (length b) s = (Inr (RBytes b), s')" "reads s (rlpStr b) s'"
proof (cases "length b = 1 \<and> hd b < 0x80")
  case True
  then obtain x where x: "b = [x]" "x < 0x80" "x \<noteq> 0" using b by (cases b) auto
  let ?i = "ucast x :: uint64"
  have "unat x < 128" "0 < unat x" using x by (simp_all add: word_less_nat_alt unat_gt_0)
  moreover from this have u: "unat ?i = unat x" by (simp only: unsigned_ucast_eq) (simp add: take_bit_nat_eq_self_iff)
  ultimately have e: "nat_bytes (unat ?i) = [x]" "rlpStr (nat_bytes (unat ?i)) = [x]"
    using rlpStr_nat_bytes(1) [of "unat x"] by (simp_all add: nat_bytes_small)
  have r: "rlpStr b = [x]" using x by (simp add: rlpStr_head)
  from uint_ok [of s ?i 64] a e obtain s' where 1: "s_uint s 64 = (Inr ?i, s')" "reads s [x] s'" by (auto simp: r)
  from Kind_byte [OF a [unfolded r] x(2)] obtain s1 where k: "s_Kind s = (Inr (Byte, 0), s1)" by blast
  have "unat ?i mod 256 = unat x" using u unsigned_less [of x, where 'a = nat] by simp
  then have "(ucast ?i :: byte) = x" by (simp only: ucast_of_nat) simp
  then show thesis using that 1 k Kind_idem_ops(3) [OF k] x(1) r by (simp add: decodeByteArray_def)
next
  case False
  let ?h = "kindHead String (length b)"
  have e: "rlpStr b = ?h @ b" using False by (auto simp: rlpStr_head)
  note a = a [unfolded e]
  from Kind_head [OF a _ refl b(2)] obtain s1 where 1: "s_Kind s = (Inr (String, of_nat (length b)), s1)" "adv s (length ?h) s1" by auto
  from content_ok [OF a 1(2) b(2)] obtain s' where 2: "s_readFull s1 (length b) = (Inr b, s')" "reads s (?h @ b) s'" by blast
  have "\<not> ((of_nat (length b) :: uint64) = 1 \<and> hd b < 128)"
    using False unat_of_nat64 [OF b(2)] by (metis unsigned_1)
  then show thesis using that 1 2 by (simp add: decodeByteArray_def e)
qed

lemma decodes_leaf:
  assumes "\<And>s. length (rlpEnc v) < 2 ^ 64 \<Longrightarrow> avail s (rlpEnc v) \<Longrightarrow>
    \<exists>s'. (\<forall>n. decodeTyp (Suc n) t s = Ok (Inr v, s')) \<and> reads s (rlpEnc v) s'"
  shows "decodes t v"
  unfolding decodes_def
proof (intro allI impI)
  fix n s
  assume "need v \<le> n" "length (rlpEnc v) < 2 ^ 64" "avail s (rlpEnc v)"
  moreover from this obtain m where "n = Suc m" using need_pos [of v] by (cases n) auto
  ultimately show "\<exists>s'. decodeTyp n t s = Ok (Inr v, s') \<and> reads s (rlpEnc v) s'" using assms by blast
qed

lemma decodes_list:
  assumes "\<And>n s. needs vs \<le> n \<Longrightarrow> length (rlpEnc (RList vs)) < 2 ^ 64 \<Longrightarrow> avail s (rlpEnc (RList vs)) \<Longrightarrow>
    \<exists>s'. decodeTyp (Suc n) t s = Ok (Inr (RList vs), s') \<and> reads s (rlpEnc (RList vs)) s'"
  shows "decodes t (RList vs)"
  unfolding decodes_def
proof (intro allI impI)
  fix n s
  assume n: "need (RList vs) \<le> n" and *: "length (rlpEnc (RList vs)) < 2 ^ 64" "avail s (rlpEnc (RList vs))"
  from n obtain m where "n = Suc m" "needs vs \<le> m" by (cases n) auto
  with assms * show "\<exists>s'. decodeTyp n t s = Ok (Inr (RList vs), s') \<and> reads s (rlpEnc (RList vs)) s'" by blast
qed

lemma decodes_leaves:
  "0 \<le> i \<Longrightarrow> decodes TBigInt (RBigInt i)" "decodes TString (RBytes b)" "decodes TByteSlice (RBytes b)"
  "rawItem b \<Longrightarrow> decodes TRaw (RRaw b)" "b \<noteq> [0] \<Longrightarrow> decodes (TByteArray (length b)) (RBytes b)"
  "decodes TBool (RBool x)"
  "length (nat_bytes (unat u)) \<le> bits div 8 \<Longrightarrow> bits \<in> {8, 16, 32, 64} \<Longrightarrow> decodes (TUint bits) (RUint u)"
proof -
  show "decodes TString (RBytes b)" "decodes TByteSlice (RBytes b)"
    by (rule decodes_leaf, use rlpStr_length [of b] in \<open>auto simp: decodeString_def decodeByteSlice_def wrapped_def elim!: Bytes_ok\<close>)+
  show "decodes TRaw (RRaw b)" if "rawItem b"
    by (rule decodes_leaf) (use that in \<open>auto simp: decodeRawValue_def elim!: Raw_ok\<close>)
  show "decodes (TByteArray (length b)) (RBytes b)" if "b \<noteq> [0]"
    by (rule decodes_leaf) (use that rlpStr_length [of b] in \<open>auto elim!: ByteArray_ok\<close>)
  show "decodes (TUint bits) (RUint u)" if "length (nat_bytes (unat u)) \<le> bits div 8" "bits \<in> {8, 16, 32, 64}"
    by (rule decodes_leaf) (use that in \<open>auto simp: decodeUint_def wrapped_def elim!: uint_ok\<close>)
  show "decodes TBigInt (RBigInt i)" if i: "0 \<le> i"
  proof (rule decodes_leaf)
    fix s
    let ?b = "nat_bytes (nat i)"
    assume "length (rlpEnc (RBigInt i)) < 2 ^ 64" and a: "avail s (rlpEnc (RBigInt i))"
    then have "length ?b < 2 ^ 64" using rlpStr_length [of ?b] by simp
    from Bytes_ok [OF _ this] a obtain s' where "s_Bytes s = (Inr ?b, s')" "reads s (rlpStr ?b) s'" by auto
    moreover have "\<not> (0 < length ?b \<and> hd ?b = 0)" using hd_nat_bytes [of "nat i"] by (cases "nat i") auto
    ultimately show "\<exists>s'. (\<forall>n. decodeTyp (Suc n) TBigInt s = Ok (Inr (RBigInt i), s')) \<and> reads s (rlpEnc (RBigInt i)) s'"
      using i by (auto simp: decodeBigInt_def SetBytes_nat_bytes)
  qed
  show "decodes TBool (RBool x)"
  proof (rule decodes_leaf)
    fix s
    define u where "u = (if x then 1 else 0 :: uint64)"
    have e: "rlpEnc (RBool x) = rlpStr (nat_bytes (unat u))" "length (nat_bytes (unat u)) \<le> 8 div 8"
      by (simp_all add: u_def nat_bytes_small)
    assume "avail s (rlpEnc (RBool x))"
    with uint_ok [of s u 8] e obtain s' where "s_uint s 8 = (Inr u, s')" "reads s (rlpStr (nat_bytes (unat u))) s'" by auto
    then show "\<exists>s'. (\<forall>n. decodeTyp (Suc n) TBool s = Ok (Inr (RBool x), s')) \<and> reads s (rlpEnc (RBool x)) s'"
      unfolding e by (auto simp: decodeBool_def s_Bool_def wrapped_def u_def)
  qed
qed

lemma nonempty_header:
  assumes b: "rawItem b" "b \<noteq> [0x80]" "b \<noteq> [0xC0]" and a: "avail s b"
  obtains k z s' where "s_Kind s = (Inr (k, z), s')" "\<not> (z = 0 \<and> k \<noteq> Byte)"
proof -
  from b consider x where "b = [x]" "x < 0x80" | k c where "k \<noteq> Byte" "b = kindHead k (length c) @ c" "length c < 2 ^ 64"
    by (auto simp: rawItem_def)
  then show thesis
  proof cases
    case 1
    from Kind_byte [OF a [unfolded 1(1)] 1(2)] obtain s' where "s_Kind s = (Inr (Byte, 0), s')" by blast
    then show thesis by (rule that) simp
  next
    case 2
    from Kind_head [OF a [unfolded 2(2)] 2(1) refl 2(3)] obtain s' where "s_Kind s = (Inr (k, of_nat (length c)), s')" by blast
    moreover have "c \<noteq> []"
    proof
      assume "c = []"
      then show False using 2(1,2) b(2,3) by (cases k) (simp_all add: rlpHead_def)
    qed
    then have "(of_nat (length c) :: uint64) \<noteq> 0" using of_nat_nz [OF 2(3)] by simp
    ultimately show thesis using that by blast
  qed
qed

lemma rawItem_rlp: "length (rlpStr b) < 2 ^ 64 \<Longrightarrow> rawItem (rlpStr b)" "length (rlpLst p) < 2 ^ 64 \<Longrightarrow> rawItem (rlpLst p)"
proof -
  show "rawItem (rlpStr b)" if l: "length (rlpStr b) < 2 ^ 64"
  proof (cases "length b = 1 \<and> hd b < 0x80")
    case True
    then obtain x where "b = [x]" "x < 0x80" by (cases b) auto
    then show ?thesis by (auto simp: rawItem_def rlpStr_head)
  next
    case False
    then have "rlpStr b = kindHead String (length b) @ b" by (auto simp: rlpStr_head)
    moreover have "length b < 2 ^ 64" using l rlpStr_length [of b] by linarith
    ultimately show ?thesis by (intro rawItemI [of String]) simp_all
  qed
  show "rawItem (rlpLst p)" if l: "length (rlpLst p) < 2 ^ 64"
  proof -
    have "length p < 2 ^ 64" using l rlpLst_length [of p] by linarith
    then show ?thesis by (intro rawItemI [of List, OF _ rlpLst_head]) simp_all
  qed
qed

lemma wt_rawItem: "wt t v \<Longrightarrow> length (rlpEnc v) < 2 ^ 64 \<Longrightarrow> rawItem (rlpEnc v)" "wts ts vs \<Longrightarrow> True"
proof (induction t v and ts vs rule: wt_wts.induct)
  case (13 v)
  then show ?case unfolding wt_TInterface [of v] by (auto simp: rawItem_rlp split: rlpval.splits)
qed (auto simp: rawItem_rlp split: rlpval.splits)

lemma Kind_idem_decode: "s_Kind s = (Inr x, s') \<Longrightarrow> decodeTyp (Suc n) t s' = decodeTyp (Suc n) t s"
proof (induction t)
  case (TOptPtr t)
  then show ?case using Kind_idem [OF TOptPtr.prems] by simp
next
  case TInterface
  then show ?case using Kind_idem [OF TInterface] by simp
next
  case (TByteArray k)
  then show ?case using Kind_idem [OF TByteArray] by (simp add: decodeByteArray_def)
qed (simp_all add: Kind_idem_ops s_Bool_def decodeRawValue_def decodeUint_def decodeBool_def decodeString_def
    decodeByteSlice_def decodeBigInt_def)

lemma OptPtr_decodes:
  assumes v: "decodes t v" "wt t v" "rlpEnc v \<noteq> [0x80]" "rlpEnc v \<noteq> [0xC0]"
  shows "decodes (TOptPtr t) v"
  unfolding decodes_def
proof (intro allI impI)
  fix n s
  assume n: "need v \<le> n" and l: "length (rlpEnc v) < 2 ^ 64" and a: "avail s (rlpEnc v)"
  obtain m where m: "n = Suc m" using n need_pos [of v] by (cases n) auto
  from nonempty_header [OF wt_rawItem(1) [OF v(2) l] v(3,4) a] obtain k z s1 where
    1: "s_Kind s = (Inr (k, z), s1)" "\<not> (z = 0 \<and> k \<noteq> Byte)" by blast
  have "decodeTyp n (TOptPtr t) s = decodeTyp n t s" using 1 Kind_idem_decode [OF 1(1), of m t] by (auto simp: m)
  with decodesD [OF v(1) n l a] show "\<exists>s'. decodeTyp n (TOptPtr t) s = Ok (Inr v, s') \<and> reads s (rlpEnc v) s'" by metis
qed

lemma Ptr_decodes:
  assumes "decodes t v"
  shows "decodes (TPtr t) v"
  unfolding decodes_def
proof (intro allI impI)
  fix n s
  assume n: "need v \<le> n" and l: "length (rlpEnc v) < 2 ^ 64" and a: "avail s (rlpEnc v)"
  obtain m where "n = Suc m" using n need_pos [of v] by (cases n) auto
  with decodesD [OF assms n l a] show "\<exists>s'. decodeTyp n (TPtr t) s = Ok (Inr v, s') \<and> reads s (rlpEnc v) s'" by (metis decodeTyp.simps(12))
qed

lemma list_decodes:
  assumes e: "\<And>n s. decodeTyp (Suc n) t s = (case s_List s of
        (Inl err, s) \<Rightarrow> Ok (Inl (wrapStreamError err), s)
      | (Inr _, s) \<Rightarrow> bind_res (E n s) (\<lambda>r. case r of (Inl err, s) \<Rightarrow> Ok (Inl err, s) | (Inr vs, s) \<Rightarrow> Ok (listEndWrapped vs s)))"
    and E: "\<And>n s. needs vs \<le> n \<Longrightarrow> length (concat (map rlpEnc vs)) < 2 ^ 64 \<Longrightarrow> avail s (concat (map rlpEnc vs)) \<Longrightarrow>
      \<exists>s'. E n s = Ok (Inr vs, s') \<and> reads s (concat (map rlpEnc vs)) s'"
  shows "decodes t (RList vs)"
proof (rule decodes_list)
  fix n s
  let ?p = "concat (map rlpEnc vs)"
  assume n: "needs vs \<le> n" and l: "length (rlpEnc (RList vs)) < 2 ^ 64" and a: "avail s (rlpEnc (RList vs))"
  have lp: "length ?p < 2 ^ 64" using l rlpLst_length [of ?p] by simp
  from List_ok [OF a [simplified] lp] obtain s1 where 1: "s_List s = (Inr (of_nat (length ?p)), s1)" "avail s1 ?p"
    "\<And>s2. reads s1 ?p s2 \<Longrightarrow> atEnd s2 \<and> (\<exists>s3. s_ListEnd s2 = (None, s3) \<and> reads s (rlpLst ?p) s3)" by blast
  from E [OF n lp 1(2)] obtain s2 where 2: "E n s1 = Ok (Inr vs, s2)" "reads s1 ?p s2" by blast
  from 1(3) [OF 2(2)] show "\<exists>s'. decodeTyp (Suc n) t s = Ok (Inr (RList vs), s') \<and> reads s (rlpEnc (RList vs)) s'"
    unfolding e using 1(1) 2(1) by (auto simp: listEndWrapped_def res_simps)
qed

lemma interface_leaf: "decodes TInterface (RBytes b)"
proof (rule decodes_leaf)
  fix s
  assume "length (rlpEnc (RBytes b)) < 2 ^ 64" and a: "avail s (rlpEnc (RBytes b))"
  then have "length b < 2 ^ 64" using rlpStr_length [of b] by simp
  from Bytes_ok [OF _ this] a obtain s' where 1: "s_Bytes s = (Inr b, s')" "reads s (rlpStr b) s'" by auto
  then obtain k z s1 where 2: "s_Kind s = (Inr (k, z), s1)" "k \<noteq> List"
    by (auto simp: s_Bytes_def split: prod.splits sum.splits Kind.splits)
  then show "\<exists>s'. (\<forall>n. decodeTyp (Suc n) TInterface s = Ok (Inr (RBytes b), s')) \<and> reads s (rlpEnc (RBytes b)) s'"
    using 1 Kind_idem_ops(1) [OF 2(1)] by simp
qed

lemma interface_list:
  assumes "\<forall>v \<in> set vs. decodes TInterface v \<and> rlpEnc v \<noteq> []"
  shows "decodes TInterface (RList vs)"
proof (rule decodes_list)
  fix n s
  assume *: "needs vs \<le> n" "length (rlpEnc (RList vs)) < 2 ^ 64" "avail s (rlpEnc (RList vs))"
  from slice_ok [OF assms *] obtain s' where
    1: "decodeListSlice n TInterface s = Ok (Inr (RList vs), s')" "reads s (rlpEnc (RList vs)) s'" by blast
  then obtain z s1 where 2: "s_Kind s = (Inr (List, z), s1)"
    by (auto simp: s_List_def split: prod.splits sum.splits if_splits)
  have "decodeListSlice n TInterface s1 = decodeListSlice n TInterface s" by (simp add: Kind_idem_ops(2) [OF 2])
  then show "\<exists>s'. decodeTyp (Suc n) TInterface s = Ok (Inr (RList vs), s') \<and> reads s (rlpEnc (RList vs)) s'"
    using 1 2 by (simp del: decodeListSlice.simps)
qed

lemma slice_decodes:
  assumes "\<forall>v \<in> set vs. decodes t v \<and> rlpEnc v \<noteq> []"
  shows "decodes (TSlice t) (RList vs)"
  by (rule decodes_list) (simp only: decodeTyp.simps slice_ok [OF assms])

lemma array_decodes:
  assumes "\<forall>v \<in> set vs. decodes t v"
  shows "decodes (TArray (length vs) t) (RList vs)"
  by (rule list_decodes [where E = "\<lambda>m. decodeArrayElems m (length vs) t"], simp only: decodeTyp.simps, rule array_ok [OF assms])

lemma struct_decodes:
  assumes "list_all2 decodes ts vs"
  shows "decodes (TStruct ts) (RList vs)"
  by (rule list_decodes [where E = "\<lambda>m. decodeFields m ts"], simp only: decodeTyp.simps, rule fields_ok [OF assms])

lemma wt_decodes: "wt t v \<Longrightarrow> typ_ok t \<Longrightarrow> decodes t v" "wts ts vs \<Longrightarrow> \<forall>t \<in> set ts. typ_ok t \<Longrightarrow> list_all2 decodes ts vs"
proof (induction t v and ts vs rule: wt_wts.induct)
  case (8 t v)
  then obtain vs where v: "v = RList vs" "\<forall>u \<in> set vs. wt t u" by (auto split: rlpval.splits)
  with 8 have "\<forall>u \<in> set vs. decodes t u \<and> rlpEnc u \<noteq> []" using wt_nonempty(1) by auto
  then show ?case unfolding v(1) by (rule slice_decodes)
next
  case (9 n t v)
  then obtain vs where v: "v = RList vs" "length vs = n" "\<forall>u \<in> set vs. wt t u" by (auto split: rlpval.splits)
  with 9 have "\<forall>u \<in> set vs. decodes t u" by auto
  then show ?case unfolding v(1) v(2) [symmetric] by (rule array_decodes)
next
  case (10 ts v)
  then obtain vs where v: "v = RList vs" "wts ts vs" by (auto split: rlpval.splits)
  with 10 show ?case by (auto intro: struct_decodes)
next
  case (13 v)
  then consider b where "v = RBytes b" | vs where "v = RList vs" "\<forall>u \<in> set vs. wt TInterface u"
    by (auto simp: wt_TInterface [of v] split: rlpval.splits)
  then show ?case
  proof cases
    case 2
    with 13 have "\<forall>u \<in> set vs. decodes TInterface u \<and> rlpEnc u \<noteq> []" using wt_nonempty(1) by auto
    then show ?thesis unfolding 2(1) by (rule interface_list)
  qed (simp add: interface_leaf)
next
  case (14 vs)
  then show ?case by simp
next
  case (15 t ts vs)
  then show ?case by (auto split: list.splits)
qed (auto simp: decodes_leaves Ptr_decodes OptPtr_decodes split: rlpval.splits)

section \<open>Only encodings decode\<close>

text \<open>The end of a list is reported by \<^verbatim>\<open>Kind\<close> alone, and nothing is consumed then.\<close>

lemma read_noEOL:
  "willRead s n = (Some e, s') \<Longrightarrow> e \<noteq> EOL" "s_readByte s = (Inl e, s') \<Longrightarrow> e \<noteq> EOL"
  "s_readFull s k = (Inl e, s') \<Longrightarrow> e \<noteq> EOL" "s_readUint s z = (Inl e, s') \<Longrightarrow> e \<noteq> EOL"
proof -
  show w: "e \<noteq> EOL" if "willRead s n = (Some e, s')" for s n e s'
    using that by (auto simp: willRead_def willReadList_def split: list.splits if_splits prod.splits option.splits)
  show b: "e \<noteq> EOL" if "s_readByte s = (Inl e, s')" for s e s'
    using that w by (auto simp: s_readByte_def split: prod.splits option.splits list.splits)
  show f: "e \<noteq> EOL" if "s_readFull s k = (Inl e, s')" for s k e s'
    using that w by (auto simp: s_readFull_def split: prod.splits option.splits if_splits)
  show "e \<noteq> EOL" if "s_readUint s z = (Inl e, s')"
    using that b f by (auto simp: s_readUint_def split: prod.splits sum.splits if_splits)
qed

lemma readKind_noEOL: "s_readKind s = ((k, z, Some e), s') \<Longrightarrow> e \<noteq> EOL"
proof -
  have l: "longSize k r = ((k', z, Some e), s') \<Longrightarrow> (\<And>x s1. r = (Inl x, s1) \<Longrightarrow> x \<noteq> EOL) \<Longrightarrow> e \<noteq> EOL" for k r k' z e s'
    by (auto simp: longSize_def split: prod.splits sum.splits if_splits)
  assume "s_readKind s = ((k, z, Some e), s')"
  then show "e \<noteq> EOL"
    using read_noEOL(2) by (auto simp: s_readKind_def Let_def atTop_def dest!: l read_noEOL(4) split: prod.splits sum.splits if_splits)
qed

lemma Kind_EOL: "s_Kind s = (Inl EOL, s') \<Longrightarrow> s_kind s = None \<Longrightarrow> s' = s\<lparr>s_kinderr := None\<rparr>"
  by (auto simp: s_Kind_def Let_def checkRoom_def dest: readKind_noEOL split: if_splits prod.splits option.splits list.splits)

lemma ops_EOL:
  "s_Bytes s = (Inl EOL, s') \<Longrightarrow> s_Kind s = (Inl EOL, s')" "s_List s = (Inl EOL, s') \<Longrightarrow> s_Kind s = (Inl EOL, s')"
  "s_uint s m = (Inl EOL, s') \<Longrightarrow> s_Kind s = (Inl EOL, s')" "s_Raw s = (Inl EOL, s') \<Longrightarrow> s_Kind s = (Inl EOL, s')"
  "s_Bool s = (Inl EOL, s') \<Longrightarrow> s_Kind s = (Inl EOL, s')" "decodeByteArray k s = (Inl EOL, s') \<Longrightarrow> s_Kind s = (Inl EOL, s')"
proof -
  show "s_Kind s = (Inl EOL, s')" if "s_Bytes s = (Inl EOL, s')"
    using that read_noEOL(3) by (auto simp: s_Bytes_def split: prod.splits sum.splits Kind.splits if_splits)
  show "s_Kind s = (Inl EOL, s')" if "s_List s = (Inl EOL, s')"
    using that by (auto simp: s_List_def split: prod.splits sum.splits if_splits)
  show u: "s_Kind s = (Inl EOL, s')" if "s_uint s m = (Inl EOL, s')" for m
    using that read_noEOL(4) by (auto simp: s_uint_def split: prod.splits sum.splits Kind.splits if_splits)
  show "s_Kind s = (Inl EOL, s')" if "s_Raw s = (Inl EOL, s')"
    using that read_noEOL(3) by (auto simp: s_Raw_def split: prod.splits sum.splits if_splits)
  show "s_Kind s = (Inl EOL, s')" if "s_Bool s = (Inl EOL, s')"
    using that u by (auto simp: s_Bool_def split: prod.splits sum.splits if_splits)
  show "s_Kind s = (Inl EOL, s')" if "decodeByteArray k s = (Inl EOL, s')"
    using that read_noEOL(3) by (auto simp: decodeByteArray_def wrapStreamError_def split: prod.splits sum.splits Kind.splits if_splits)
qed

lemma wrap_EOL [simp]: "wrapStreamError e = EOL \<longleftrightarrow> e = EOL"
  by (auto simp: wrapStreamError_def)

lemma wrapped_EOL: "wrapped f r = (Inl EOL, s') \<Longrightarrow> r = (Inl EOL, s')"
  by (auto simp: wrapped_def split: prod.splits sum.splits)

lemma elems_noEOL: "decodeSliceElems n t s = Ok (Inl e, s') \<Longrightarrow> e \<noteq> EOL"
  by (induction n arbitrary: s s') (auto elim!: bind_res_OkE split: prod.splits sum.splits if_splits)

lemma array_noEOL: "decodeArrayElems n k t s = Ok (Inl e, s') \<Longrightarrow> e \<noteq> EOL"
  by (induction n arbitrary: k s s') (auto elim!: bind_res_OkE split: prod.splits sum.splits if_splits)

lemma fields_noEOL: "decodeFields n ts s = Ok (Inl e, s') \<Longrightarrow> e \<noteq> EOL"
proof (induction ts arbitrary: n s)
  case (Cons t ts)
  then show ?case by (cases n) (auto elim!: bind_res_OkE split: prod.splits sum.splits if_splits)
qed simp

lemma listSlice_noEOL:
  assumes "s_Kind s = (Inr x, s1)"
  shows "decodeListSlice n t s1 \<noteq> Ok (Inl EOL, s')"
proof
  assume "decodeListSlice n t s1 = Ok (Inl EOL, s')"
  then have "decodeListSlice n t s = Ok (Inl EOL, s')" by (simp add: Kind_idem_ops(2) [OF assms])
  then have "s_List s = (Inl EOL, s')"
    by (auto simp: listEndPlain_def s_ListEnd_def Let_def dest: elems_noEOL elim!: bind_res_OkE
        split: prod.splits sum.splits if_splits list.splits)
  from ops_EOL(2) [OF this] assms show False by simp
qed

lemma decode_EOL_Suc:
  "decodeTyp (Suc m) t s = Ok (Inl EOL, s') \<Longrightarrow> s_kind s = None \<Longrightarrow> s' = s\<lparr>s_kinderr := None\<rparr>"
proof (induction t)
  case (TSlice t)
  then have "s_List s = (Inl EOL, s')"
    by (auto simp: listEndPlain_def s_ListEnd_def Let_def dest: elems_noEOL elim!: bind_res_OkE
        split: prod.splits sum.splits if_splits list.splits)
  then show ?case using ops_EOL(2) Kind_EOL TSlice.prems(2) by blast
next
  case (TArray k t)
  then have "s_List s = (Inl EOL, s')"
    by (auto simp: listEndWrapped_def s_ListEnd_def Let_def dest: array_noEOL elim!: bind_res_OkE
        split: prod.splits sum.splits if_splits list.splits)
  then show ?case using ops_EOL(2) Kind_EOL TArray.prems(2) by blast
next
  case (TStruct ts)
  then have "s_List s = (Inl EOL, s')"
    by (auto simp: listEndWrapped_def s_ListEnd_def Let_def dest: fields_noEOL elim!: bind_res_OkE
        split: prod.splits sum.splits if_splits list.splits)
  then show ?case using ops_EOL(2) Kind_EOL TStruct.prems(2) by blast
next
  case (TPtr t)
  then show ?case by auto
next
  case (TOptPtr t)
  have k: "s\<lparr>s_kinderr := None, s_kind := None\<rparr> = s\<lparr>s_kinderr := None\<rparr>" using TOptPtr.prems(2) by (cases s) simp
  show ?case
  proof (cases "s_Kind s")
    case (Pair r s1)
    show ?thesis
    proof (cases r)
      case (Inl e)
      then show ?thesis using TOptPtr.prems Pair Kind_EOL k by auto
    next
      case (Inr kz)
      with Pair have kz: "s_Kind s = (Inr kz, s1)" by simp
      have "decodeTyp (Suc m) t s = Ok (Inl EOL, s')"
        using TOptPtr.prems(1) kz Kind_idem_decode [OF kz, of m t] by (auto split: if_splits prod.splits)
      then show ?thesis using TOptPtr.IH TOptPtr.prems(2) by blast
    qed
  qed
next
  case TInterface
  show ?case
  proof (cases "s_Kind s")
    case (Pair r s1)
    show ?thesis
    proof (cases r)
      case (Inl e)
      then show ?thesis using TInterface Pair Kind_EOL by auto
    next
      case (Inr kz)
      with Pair obtain k z where kz: "s_Kind s = (Inr (k, z), s1)" by (cases kz) auto
      show ?thesis
      proof (cases "k = List")
        case True
        then show ?thesis using TInterface(1) kz listSlice_noEOL [OF kz] by (simp del: decodeListSlice.simps)
      next
        case False
        then have "s_Bytes s1 = (Inl EOL, s')" using TInterface(1) kz by (auto split: prod.splits sum.splits)
        then show ?thesis using Kind_idem_ops(1) [OF kz] ops_EOL(1) kz by fastforce
      qed
    qed
  qed
qed (auto simp: decodeRawValue_def decodeUint_def decodeBool_def decodeString_def decodeByteSlice_def decodeBigInt_def
      dest!: wrapped_EOL ops_EOL Kind_EOL split: prod.splits sum.splits if_splits)

lemma decode_EOL: "decodeTyp n t s = Ok (Inl EOL, s') \<Longrightarrow> s_kind s = None \<Longrightarrow> s' = s\<lparr>s_kinderr := None\<rparr>"
  using decode_EOL_Suc by (cases n) auto

text \<open>Types without one-byte arrays and optional pointers.\<close>

fun plain :: "rtyp \<Rightarrow> bool" where
  "plain (TByteArray n) \<longleftrightarrow> n \<noteq> 1"
| "plain (TSlice t) \<longleftrightarrow> plain t"
| "plain (TArray n t) \<longleftrightarrow> plain t"
| "plain (TStruct ts) \<longleftrightarrow> (\<forall>t \<in> set ts. plain t)"
| "plain (TPtr t) \<longleftrightarrow> plain t"
| "plain (TOptPtr t) \<longleftrightarrow> False"
| "plain _ \<longleftrightarrow> True"

definition canon :: "nat \<Rightarrow> rtyp \<Rightarrow> bool" where
  "canon n t \<longleftrightarrow> (\<forall>s v s'. s_kind s = None \<longrightarrow> stack_ok (s_stack s) \<longrightarrow> decodeTyp n t s = Ok (Inr v, s') \<longrightarrow>
     wt t v \<and> reads s (rlpEnc v) s')"

lemma canonD:
  assumes "canon n t" "decodeTyp n t s = Ok (Inr v, s')" "s_kind s = None" "stack_ok (s_stack s)"
  shows "wt t v" "reads s (rlpEnc v) s'" "s_kind s' = None" "stack_ok (s_stack s')"
  using assms reads_ok unfolding canon_def by blast+

lemma elems_inv:
  assumes "\<forall>m < n. canon m t" "decodeSliceElems n t s = Ok (Inr vs, s')" "s_kind s = None" "stack_ok (s_stack s)"
  shows "(\<forall>v \<in> set vs. wt t v) \<and> reads s (concat (map rlpEnc vs)) s'"
  using assms
proof (induction n arbitrary: s vs)
  case (Suc n)
  from Suc.prems(2) obtain r s1 where r: "decodeTyp n t s = Ok (r, s1)" by (auto elim!: bind_res_OkE)
  show ?case
  proof (cases r)
    case (Inl e)
    then have e: "e = EOL" "vs = []" "s' = s1" using Suc.prems(2) r by (auto simp: res_simps split: if_splits)
    then have "s1 = s\<lparr>s_kinderr := None\<rparr>" using decode_EOL [of n t s s1] r Inl Suc.prems(3) by simp
    then show ?thesis using e reads_nil [OF Suc.prems(3,4)] by simp
  next
    case (Inr v)
    have c: "canon n t" using Suc.prems(1) by simp
    note 1 = canonD [OF c r [unfolded Inr] Suc.prems(3,4)]
    from Suc.prems(2) r Inr obtain us where 2: "decodeSliceElems n t s1 = Ok (Inr us, s')" "vs = v # us"
      by (auto elim!: bind_res_OkE split: prod.splits sum.splits)
    from Suc.IH [OF _ 2(1) 1(3,4)] Suc.prems(1) have "(\<forall>v \<in> set us. wt t v) \<and> reads s1 (concat (map rlpEnc us)) s'" by simp
    then show ?thesis using 1 2(2) reads_trans by auto
  qed
qed simp

lemma array_inv:
  assumes "\<forall>m < n. canon m t" "decodeArrayElems n k t s = Ok (Inr vs, s')" "s_kind s = None" "stack_ok (s_stack s)"
  shows "length vs = k \<and> (\<forall>v \<in> set vs. wt t v) \<and> reads s (concat (map rlpEnc vs)) s'"
  using assms
proof (induction n arbitrary: k s vs)
  case (Suc n)
  show ?case
  proof (cases "k = 0")
    case True
    then show ?thesis using Suc.prems reads_nil by simp
  next
    case False
    with Suc.prems(2) obtain v s1 us where 2: "decodeTyp n t s = Ok (Inr v, s1)" "decodeArrayElems n (k - 1) t s1 = Ok (Inr us, s')" "vs = v # us"
      by (auto elim!: bind_res_OkE split: prod.splits sum.splits)
    have c: "canon n t" using Suc.prems(1) by simp
    note 1 = canonD [OF c 2(1) Suc.prems(3,4)]
    from Suc.IH [OF _ 2(2) 1(3,4)] Suc.prems(1)
    have "length us = k - 1 \<and> (\<forall>v \<in> set us. wt t v) \<and> reads s1 (concat (map rlpEnc us)) s'" by simp
    then show ?thesis using 1 2(3) False reads_trans by auto
  qed
qed simp

lemma fields_inv:
  assumes "\<forall>t \<in> set ts. \<forall>m < n. canon m t" "decodeFields n ts s = Ok (Inr vs, s')" "s_kind s = None" "stack_ok (s_stack s)"
  shows "wts ts vs \<and> reads s (concat (map rlpEnc vs)) s'"
  using assms
proof (induction ts arbitrary: n s vs)
  case Nil
  then show ?case using reads_nil by simp
next
  case (Cons t ts)
  from Cons.prems(2) obtain m where n: "n = Suc m" by (cases n) auto
  with Cons.prems(2) obtain v s1 us where 2: "decodeTyp m t s = Ok (Inr v, s1)" "decodeFields m ts s1 = Ok (Inr us, s')" "vs = v # us"
    by (auto elim!: bind_res_OkE split: prod.splits sum.splits)
  have c: "canon m t" using Cons.prems(1) n by simp
  note 1 = canonD [OF c 2(1) Cons.prems(3,4)]
  from Cons.IH [OF _ 2(2) 1(3,4)] Cons.prems(1) n have "wts ts us \<and> reads s1 (concat (map rlpEnc us)) s'" by simp
  then show ?case using 1 2(3) reads_trans by auto
qed

lemma listEnd_inv:
  "listEndPlain vs s = (Inr v, s') \<Longrightarrow> v = RList vs \<and> s_ListEnd s = (None, s')"
  "listEndWrapped vs s = (Inr v, s') \<Longrightarrow> v = RList vs \<and> s_ListEnd s = (None, s')"
  by (auto simp: listEndPlain_def listEndWrapped_def split: prod.splits option.splits)

lemma slice_inv:
  assumes c: "\<forall>m < n. canon m t" and d: "decodeListSlice n t s = Ok (Inr v, s')" and k: "s_kind s = None" "stack_ok (s_stack s)"
  obtains vs where "v = RList vs" "\<forall>u \<in> set vs. wt t u" "reads s (rlpEnc v) s'"
proof -
  from d obtain z s1 where 1: "s_List s = (Inr z, s1)" by (auto split: prod.splits sum.splits)
  note L = List_inv [OF k 1]
  show thesis
  proof (cases "z = 0")
    case True
    then have "listEndPlain [] s1 = (Inr v, s')" using d 1 by simp
    from listEnd_inv(1) [OF this] have "v = RList []" "s_ListEnd s1 = (None, s')" by simp_all
    then show thesis using that [of "[]"] L(3) [OF L(4) [OF True]] by simp
  next
    case False
    with d 1 obtain vs s2 where 2: "decodeSliceElems n t s1 = Ok (Inr vs, s2)" "listEndPlain vs s2 = (Inr v, s')"
      by (auto elim!: bind_res_OkE split: prod.splits sum.splits)
    from elems_inv [OF c 2(1) L(1,2)] listEnd_inv(1) [OF 2(2)]
    have "v = RList vs" "\<forall>u \<in> set vs. wt t u" "reads s (rlpLst (concat (map rlpEnc vs))) s'" using L(3) by blast+
    then show thesis using that by simp
  qed
qed

lemma Raw_inv:
  assumes r: "s_Raw s = (Inr b, s')" and k: "s_kind s = None" "stack_ok (s_stack s)"
  shows "rawItem b" "reads s b s'"
proof -
  from r obtain kd z s1 where 1: "s_Kind s = (Inr (kd, z), s1)" by (auto simp: s_Raw_def split: prod.splits sum.splits)
  from k 1 have "rawItem b \<and> reads s b s'"
  proof (cases rule: Kind_inv)
    case (byte x)
    then have "b = [x]" "s' = s1\<lparr>s_kind := None\<rparr>" using r 1 by (auto simp: s_Raw_def)
    then show ?thesis using byte by (simp add: rawItem_def avail_def reads_def)
  next
    case head
    with r 1 obtain c where c: "s_readFull s1 (unat z) = (Inr c, s')"
        "b = (if kd = String then puthead 0x80 0xB7 z else puthead 0xC0 0xF7 z) @ c"
      by (auto simp: s_Raw_def split: prod.splits sum.splits)
    note i = content_inv [OF head(2,3) unat_lt64 c(1)]
    have "b = kindHead kd (unat z) @ c"
      using c(2) head(1) puthead_eq [OF unat_lt64 [of z]] by (cases kd) simp_all
    then show ?thesis using i head(1) unat_lt64 [of z] rawItemI [of kd b c] by simp
  qed
  then show "rawItem b" "reads s b s'" by blast+
qed

lemma ByteArray_inv:
  assumes r: "decodeByteArray n s = (Inr v, s')" and n: "n \<noteq> 1" "n < 2 ^ 64" and k: "s_kind s = None" "stack_ok (s_stack s)"
  shows "\<exists>b. v = RBytes b \<and> length b = n \<and> reads s (rlpStr b) s'"
proof -
  from r obtain kd z s1 where 1: "s_Kind s = (Inr (kd, z), s1)"
    by (auto simp: decodeByteArray_def split: prod.splits sum.splits)
  from k 1 show ?thesis
  proof (cases rule: Kind_inv)
    case (byte x)
    then show ?thesis using r 1 n by (auto simp: decodeByteArray_def split: if_splits)
  next
    case head
    then have s: "kd = String" using r 1 by (cases kd) (auto simp: decodeByteArray_def)
    with r 1 have z: "\<not> of_nat n < z" "\<not> z < of_nat n" and "\<exists>b. s_readFull s1 n = (Inr b, s') \<and> v = RBytes b"
      by (auto simp: decodeByteArray_def split: prod.splits sum.splits if_splits)
    then obtain b where b: "s_readFull s1 n = (Inr b, s')" "v = RBytes b" by blast
    have "z = of_nat n" using z by simp
    then have u: "unat z = n" using n(2) by (simp add: unat_of_nat64)
    note i = content_inv [OF head(2,3) n(2) b(1)]
    have "rlpStr b = kindHead kd (unat z) @ b" using i(1) n(1) u s by (simp add: rlpStr_head)
    then show ?thesis using i b(2) by simp
  qed
qed

lemma list_inv:
  assumes e: "decodeTyp (Suc n) t s = (case s_List s of
        (Inl err, s) \<Rightarrow> Ok (Inl (wrapStreamError err), s)
      | (Inr _, s) \<Rightarrow> bind_res (E s) (\<lambda>r. case r of (Inl err, s) \<Rightarrow> Ok (Inl err, s) | (Inr vs, s) \<Rightarrow> Ok (listEndWrapped vs s)))"
    and E: "\<And>s vs s'. E s = Ok (Inr vs, s') \<Longrightarrow> s_kind s = None \<Longrightarrow> stack_ok (s_stack s) \<Longrightarrow>
      P vs \<and> reads s (concat (map rlpEnc vs)) s'"
    and d: "decodeTyp (Suc n) t s = Ok (Inr v, s')" and k: "s_kind s = None" "stack_ok (s_stack s)"
  shows "\<exists>vs. v = RList vs \<and> P vs \<and> reads s (rlpEnc v) s'"
proof -
  from d e obtain z s1 vs s2 where 1: "s_List s = (Inr z, s1)" "E s1 = Ok (Inr vs, s2)" "listEndWrapped vs s2 = (Inr v, s')"
    by (auto elim!: bind_res_OkE split: prod.splits sum.splits)
  note L = List_inv [OF k 1(1)]
  from E [OF 1(2) L(1,2)] listEnd_inv(2) [OF 1(3)] show ?thesis using L(3) by auto
qed

lemma canon_leaves:
  "canon (Suc n) TRaw" "canon (Suc n) TBigInt" "canon (Suc n) TBool" "canon (Suc n) TString" "canon (Suc n) TByteSlice"
  "bits \<in> {8, 16, 32, 64} \<Longrightarrow> canon (Suc n) (TUint bits)" "k \<noteq> 1 \<Longrightarrow> k < 2 ^ 64 \<Longrightarrow> canon (Suc n) (TByteArray k)"
proof -
  show "canon (Suc n) TRaw"
    by (auto simp: canon_def decodeRawValue_def dest: Raw_inv split: prod.splits sum.splits)
  show "canon (Suc n) TString" "canon (Suc n) TByteSlice"
    by (auto simp: canon_def decodeString_def decodeByteSlice_def wrapped_def dest: Bytes_inv split: prod.splits sum.splits)
  show "canon (Suc n) (TUint bits)" if "bits \<in> {8, 16, 32, 64}"
    using that uint_inv [where m = bits] by (auto simp: canon_def decodeUint_def wrapped_def split: prod.splits sum.splits)
  show "canon (Suc n) (TByteArray k)" if "k \<noteq> 1" "k < 2 ^ 64"
    using that ByteArray_inv [where n = k] by (fastforce simp: canon_def)
  show "canon (Suc n) TBigInt"
  proof -
    have "rlpStr (nat_bytes (nat (SetBytes b))) = rlpStr b" if "\<not> (0 < length b \<and> hd b = 0)" for b
      using nat_bytes_SetBytes [of b] that by auto
    then show ?thesis by (auto simp: canon_def decodeBigInt_def dest: Bytes_inv split: prod.splits sum.splits if_splits)
  qed
  show "canon (Suc n) TBool"
  proof -
    have "reads s (rlpStr (if b then [1] else [])) s'" if "s_Bool s = (Inr b, s')" "s_kind s = None" "stack_ok (s_stack s)" for s b s'
    proof -
      from that(1) obtain u where u: "s_uint s 8 = (Inr u, s')" "u = (if b then 1 else 0)"
        by (auto simp: s_Bool_def split: prod.splits sum.splits if_splits)
      then have "nat_bytes (unat u) = (if b then [1] else [])" by (simp add: nat_bytes_small)
      then show ?thesis using uint_inv(2) [OF that(2,3) u(1)] by simp
    qed
    then show ?thesis by (auto simp: canon_def decodeBool_def wrapped_def split: prod.splits sum.splits)
  qed
qed

lemma canon_all: "plain t \<Longrightarrow> typ_ok t \<Longrightarrow> canon n t"
proof (induction n arbitrary: t rule: less_induct)
  case (less n)
  show ?case
  proof (cases n)
    case 0
    then show ?thesis by (simp add: canon_def)
  next
    case (Suc m)
    have IH: "\<forall>k < m. canon k t" if "plain t" "typ_ok t" for t using less.IH Suc that by simp
    have "canon (Suc m) t" if "plain t" "typ_ok t" for t
      using that
    proof (induction t)
      case (TSlice t)
      then have c: "\<forall>k < m. canon k t" using IH by simp
      then show ?case unfolding canon_def by (auto simp del: decodeListSlice.simps elim!: slice_inv [OF c])
    next
      case (TArray k t)
      then have c: "\<forall>k < m. canon k t" using IH by simp
      show ?case unfolding canon_def
        using list_inv [of m "TArray k t" _ "decodeArrayElems m k t" "\<lambda>vs. length vs = k \<and> (\<forall>v \<in> set vs. wt t v)"] array_inv [OF c]
        by (fastforce simp del: decodeArrayElems.simps)
    next
      case (TStruct ts)
      then have c: "\<forall>t \<in> set ts. \<forall>k < m. canon k t" using IH by simp
      show ?case unfolding canon_def
        using list_inv [of m "TStruct ts" _ "decodeFields m ts" "wts ts"] fields_inv [OF c]
        by (fastforce simp del: decodeFields.simps)
    next
      case (TPtr t)
      then show ?case by (simp add: canon_def)
    next
      case TInterface
      have c: "\<forall>k < m. canon k TInterface" using IH by simp
      show ?case unfolding canon_def
      proof (intro allI impI)
        fix s v s'
        assume k: "s_kind s = None" "stack_ok (s_stack s)" and d: "decodeTyp (Suc m) TInterface s = Ok (Inr v, s')"
        from d obtain kd z s1 where 1: "s_Kind s = (Inr (kd, z), s1)" by (auto split: prod.splits sum.splits)
        show "wt TInterface v \<and> reads s (rlpEnc v) s'"
        proof (cases "kd = List")
          case True
          then have "decodeListSlice m TInterface s1 = Ok (Inr v, s')" using d 1 by (simp del: decodeListSlice.simps)
          then have "decodeListSlice m TInterface s = Ok (Inr v, s')" by (simp add: Kind_idem_ops(2) [OF 1])
          from slice_inv [OF c this k] obtain vs where "v = RList vs" "\<forall>u \<in> set vs. wt TInterface u" "reads s (rlpEnc v) s'" by blast
          then show ?thesis by (simp add: wt_TInterface [of "RList vs"])
        next
          case False
          then obtain b where "s_Bytes s1 = (Inr b, s')" "v = RBytes b" using d 1 by (auto split: prod.splits sum.splits)
          then show ?thesis using Bytes_inv(2) [OF k, of b s'] by (simp add: Kind_idem_ops(1) [OF 1] wt_TInterface [of "RBytes b"])
        qed
      qed
    qed (auto simp: canon_leaves)
    then show ?thesis using less.prems Suc by blast
  qed
qed

end
