(* ===== verification/RlpRaw.thy ===== *)
theory RlpRaw
  imports RlpRound
begin

text \<open>
  The slice functions of rlp/raw.go: splitting off a value is exactly the inverse of writing its
  header in front of its content, and counting values counts the encodings that were joined.
\<close>

section \<open>Sizes\<close>

lemma nat_or_add: "b < 2 ^ m \<Longrightarrow> push_bit m a OR b = a * 2 ^ m + (b :: nat)"
proof -
  assume b: "b < 2 ^ m"
  have "\<not> bit b n" if "m \<le> n" for n
  proof -
    have "b < 2 ^ n" using b that power_increasing [of m n "2 :: nat"] by linarith
    then show ?thesis by (simp add: bit_iff_odd)
  qed
  then have "push_bit m a + b = push_bit m a OR b"
    by (intro disjunctive_add) (auto simp: bit_push_bit_iff)
  then show ?thesis by (simp add: push_bit_eq_mult)
qed

lemma shiftBytes_val: "n \<le> 8 \<Longrightarrow> n \<le> length bs \<Longrightarrow> int (unat (shiftBytes n bs)) = SetBytes (take n bs)"
proof (induction n bs rule: shiftBytes.induct)
  case (2 n b bs)
  show ?case
  proof (cases n)
    case (Suc m)
    have IH: "int (unat (shiftBytes m bs)) = SetBytes (take m bs)" using 2 Suc by simp
    have "SetBytes (take m bs) < 256 ^ m" using SetBytes_bound [of "take m bs"] 2(3) Suc by (simp add: min_absorb2)
    then have l: "unat (shiftBytes m bs) < 2 ^ (8 * m)" using IH by (simp add: power_mult flip: of_nat_less_iff [where 'a = int])
    have push_bit_nat_eq: "push_bit k x = x * 2 ^ k" for k and x :: nat by (rule push_bit_eq_mult)
    have b: "unat b < 256" using unsigned_less [of b] by simp
    have "unat b * 2 ^ (8 * m) < 256 * 2 ^ (8 * m)" using b by simp
    also have "\<dots> = 2 ^ (8 * Suc m)" by (simp add: power_add)
    also have "\<dots> \<le> (2 ^ 64 :: nat)" using 2(2) Suc by (intro power_increasing) simp_all
    finally have "unat b * 2 ^ (8 * m) < 2 ^ 64" .
    then have tm: "take_bit 64 (unat b * 2 ^ (8 * m)) = unat b * 2 ^ (8 * m)" by (simp add: take_bit_nat_eq_self_iff)
    have tb: "take_bit 64 (unat b) = unat b" using b by (simp add: take_bit_nat_eq_self_iff)
    have "unat (push_bit (8 * m) (ucast b :: uint64)) = push_bit (8 * m) (unat b)"
      by (simp add: unsigned_push_bit_eq unsigned_ucast_eq push_bit_nat_eq tb tm)
    then have "unat (shiftBytes n (b # bs)) = unat b * 2 ^ (8 * m) + unat (shiftBytes m bs)"
      using nat_or_add [OF l] Suc by (simp add: unsigned_or_eq)
    then show ?thesis using IH Suc 2(3) by (simp add: SetBytes_Cons power_mult min_absorb2)
  qed simp
qed simp

lemma readSize_eq:
  assumes "1 \<le> l" "l \<le> 8"
  shows "readSize b (of_nat l) =
    (if length b < l then Ok (Inl IoErrUnexpectedEOF)
     else if SetBytes (take l b) < 56 \<or> hd b = 0 then Ok (Inl ErrCanonSize) else Ok (Inr (word_of_int (SetBytes (take l b)))))"
proof (cases "length b < l")
  case False
  have u: "unat (of_nat l :: byte) = l" using assms by (simp add: unat_of_nat8)
  have v: "int (unat (shiftBytes l b)) = SetBytes (take l b)" using shiftBytes_val [of l b] assms False by simp
  then have w: "shiftBytes l b = word_of_int (SetBytes (take l b))" by (simp flip: v)
  have "shiftBytes l b < 56 \<longleftrightarrow> SetBytes (take l b) < 56" 
    using v word_less_nat_alt [of "shiftBytes l b" 56] by (simp del: of_nat_unat) linarith
  moreover obtain x xs where "b = x # xs" using False assms by (cases b) auto
  ultimately show ?thesis using False assms u w by (simp add: readSize_def del: shiftBytes.simps)
qed (use assms in \<open>simp add: readSize_def unat_of_nat8\<close>)

section \<open>Splitting off a value\<close>

lemma readKind_raw:
  "b < 0x80 \<Longrightarrow> readKind (b # r) = Ok (checkSize (b # r) Byte 0 (Inr 1))"
  "k \<noteq> Byte \<Longrightarrow> n < 56 \<Longrightarrow> b = of_nat (tagBase k + n) \<Longrightarrow> readKind (b # r) =
     (if k = String \<and> n = 1 then (case r of [] \<Rightarrow> Panic | b1 # _ \<Rightarrow>
         if b1 < 128 then Ok (Inl ErrCanonSize) else Ok (checkSize (b # r) k 1 (Inr (of_nat n))))
      else Ok (checkSize (b # r) k 1 (Inr (of_nat n))))"
  "k \<noteq> Byte \<Longrightarrow> 1 \<le> l \<Longrightarrow> l \<le> 8 \<Longrightarrow> b = of_nat (tagBase k + 55 + l) \<Longrightarrow>
     readKind (b # r) = bind_res (readSize r (of_nat l)) (\<lambda>x. Ok (checkSize (b # r) k (of_nat (l + 1)) x))"
proof -
  define f where "f = (\<lambda>k (x :: byte). if k = String \<and> ucast x = (1 :: uint64)
    then (case r of [] \<Rightarrow> Panic | b1 # _ \<Rightarrow> if b1 < 128 then Ok (Inl ErrCanonSize) else Ok (checkSize (b # r) k 1 (Inr (ucast x))))
    else Ok (checkSize (b # r) k 1 (Inr (ucast x))))"
  define g where "g = (\<lambda>k x. bind_res (readSize r x) (\<lambda>y. Ok (checkSize (b # r) k (ucast x + 1) y)))"
  have r: "readKind (b # r) = (if b < 0x80 then Ok (checkSize (b # r) Byte 0 (Inr 1)) else if b < 0xB8 then f String (b - 0x80)
      else if b < 0xC0 then g String (b - 0xB7) else if b < 0xF8 then f List (b - 0xC0) else g List (b - 0xF7))"
    by (simp add: readKind_def f_def g_def Let_def)
  show "readKind (b # r) = Ok (checkSize (b # r) Byte 0 (Inr 1))" if "b < 0x80" using that r by simp
  have c: "(ucast (of_nat n :: byte) :: uint64) = of_nat n" if "n < 256" for n
  proof -
    have "take_bit 8 n = n" "take_bit 64 n = n" using that by (simp_all add: take_bit_nat_eq_self_iff)
    then show ?thesis by (simp add: word_unat_eq_iff unsigned_ucast_eq unsigned_of_nat)
  qed
  have one: "of_nat n = (1 :: uint64) \<longleftrightarrow> n = 1" if "n < 256" for n
    using that unat_of_nat64 [of n] by auto
  show "readKind (b # r) =
     (if k = String \<and> n = 1 then (case r of [] \<Rightarrow> Panic | b1 # _ \<Rightarrow>
         if b1 < 128 then Ok (Inl ErrCanonSize) else Ok (checkSize (b # r) k 1 (Inr (of_nat n))))
      else Ok (checkSize (b # r) k 1 (Inr (of_nat n))))" if "k \<noteq> Byte" "n < 56" "b = of_nat (tagBase k + n)"
    unfolding r tag_branch(1) [OF that] using that(2) c [of n] by (simp add: f_def one split: list.split)
  show "readKind (b # r) = bind_res (readSize r (of_nat l)) (\<lambda>x. Ok (checkSize (b # r) k (of_nat (l + 1)) x))"
    if "k \<noteq> Byte" "1 \<le> l" "l \<le> 8" "b = of_nat (tagBase k + 55 + l)"
    unfolding r tag_branch(2) [OF that] using that(3) by (simp add: g_def c ac_simps)
qed

text \<open>A single byte below 128 stands for itself, and has no other form.\<close>

fun shortest :: "Kind \<Rightarrow> bytes \<Rightarrow> bool" where
  "shortest Byte c \<longleftrightarrow> (\<exists>x. c = [x] \<and> x < 128)"
| "shortest String c \<longleftrightarrow> \<not> (\<exists>x. c = [x] \<and> x < 128)"
| "shortest List c \<longleftrightarrow> True"

lemma checkSize_Inr:
  assumes "length buf < 2 ^ 64" "ts \<le> length buf" "n < 2 ^ 64"
  shows "checkSize buf k (of_nat ts) (Inr (of_nat n)) = (if ts + n \<le> length buf then Inr (k, of_nat ts, of_nat n) else Inl ErrValueTooLarge)"
proof -
  have "unat (of_nat (length buf) - of_nat ts :: uint64) = length buf - ts"
    using unat_sub_of_nat [of ts "of_nat (length buf)"] assms by (simp add: unat_of_nat64)
  then show ?thesis using assms by (auto simp: checkSize_def word_less_nat_alt unat_of_nat64)
qed

lemma Split_readKind:
  "readKind b = Ok (Inr (k, of_nat ts, of_nat n)) \<Longrightarrow> ts + n \<le> length b \<Longrightarrow> length b < 2 ^ 64 \<Longrightarrow>
   Split b = Ok (Inr (k, take n (drop ts b), drop (ts + n) b))"
  by (simp add: Split_def res_simps unat_of_nat64 flip: of_nat_add)

lemma readKind_item:
  assumes "shortest k c" "b = kindHead k (length c) @ c @ rest" "length b < 2 ^ 64"
  shows "readKind b = Ok (Inr (k, of_nat (length (kindHead k (length c))), of_nat (length c)))"
proof (cases "k = Byte")
  case True
  then obtain x where c: "c = [x]" "x < 128" using assms(1) by auto
  then show ?thesis using True assms checkSize_Inr [of b 0 1 Byte] by (simp add: readKind_raw(1))
next
  case k: False
  let ?n = "length c"
  have n: "?n < 2 ^ 64" using assms by simp
  show ?thesis
  proof (cases "?n < 56")
    case True
    then have h: "kindHead k ?n = [of_nat (tagBase k + ?n)]" using k by (simp add: kindHead_eq)
    have cs: "checkSize b k 1 (Inr (of_nat ?n)) = Inr (k, 1, of_nat ?n)"
      using checkSize_Inr [of b 1 ?n k] n assms(2,3) h by simp
    have b: "b = of_nat (tagBase k + ?n) # c @ rest" using assms(2) h by simp
    have "readKind b = Ok (checkSize b k 1 (Inr (of_nat ?n)))"
      unfolding b readKind_raw(2) [OF k True refl] using assms(1) by (cases c) auto
    then show ?thesis using cs h by simp
  next
    case False
    let ?l = "length (nat_bytes ?n)"
    have l: "1 \<le> ?l" "?l \<le> 8" "hd (nat_bytes ?n) \<noteq> 0" "nat_bytes ?n \<noteq> []" using nat_bytes_size [of ?n] False n by auto
    have h: "kindHead k ?n = of_nat (tagBase k + 55 + ?l) # nat_bytes ?n" using False k by (simp add: kindHead_eq)
    have "readSize (nat_bytes ?n @ c @ rest) (of_nat ?l) = Ok (Inr (of_nat ?n))"
      using readSize_eq [OF l(1,2), of "nat_bytes ?n @ c @ rest"] l False by (simp add: SetBytes_nat_bytes)
    moreover have "checkSize b k (of_nat (?l + 1)) (Inr (of_nat ?n)) = Inr (k, of_nat (?l + 1), of_nat ?n)"
      using checkSize_Inr [of b "?l + 1" ?n k] n assms(2,3) h by simp
    ultimately show ?thesis
      using readKind_raw(3) [OF k l(1,2) refl, of "nat_bytes ?n @ c @ rest"] by (simp add: assms(2) h res_simps ac_simps)
  qed
qed

lemma Split_item:
  assumes "shortest k c" "b = kindHead k (length c) @ c @ rest" "length b < 2 ^ 64"
  shows "Split b = Ok (Inr (k, c, rest))"
  using Split_readKind [OF readKind_item [OF assms]] assms(2,3) by simp

lemma readKind_nonempty: "readKind b = Ok (Inr x) \<Longrightarrow> b \<noteq> []"
  by (auto simp: readKind_def)

lemma readKind_cases:
  assumes r: "readKind b = Ok (Inr (k, ts, z))" and b: "length b < 2 ^ 64"
  shows "\<exists>c rest. shortest k c \<and> b = kindHead k (length c) @ c @ rest \<and> ts = of_nat (length (kindHead k (length c))) \<and> z = of_nat (length c)"
proof -
  obtain t r where br: "b = t # r" using readKind_nonempty [OF assms(1)] by (cases b) auto
  show ?thesis
  proof (cases t rule: tag_cases)
    case byte
    then show ?thesis using r b checkSize_Inr [of b 0 1 Byte]
      by (intro exI [of _ "[t]"] exI [of _ r]) (auto simp: br readKind_raw(1))
  next
    case (short k' n)
    have n: "n < 2 ^ 64" using short(2) by simp
    have c: "Ok (checkSize b k' 1 (Inr (of_nat n))) = Ok (Inr (k, ts, z)) \<and> (k' = String \<longrightarrow> n = 1 \<longrightarrow> \<not> hd r < 128)"
      using assms(1) unfolding br readKind_raw(2) [OF short] by (auto split: if_splits list.splits)
    then have e: "k' = k" "ts = 1" "z = of_nat n" "1 + n \<le> length b"
      using checkSize_Inr [of b 1 n k', OF b _ n] br by (auto split: if_splits)
    have h: "kindHead k n = [t]" using short e(1) by (simp add: kindHead_eq)
    have l: "length (take n r) = n" using e(4) br by simp
    have "shortest k (take n r)"
      using c e(1) l short(1) by (cases k; cases r; cases n) auto
    then show ?thesis using h l e br by (intro exI [of _ "take n r"] exI [of _ "drop n r"]) simp
  next
    case (long k' l)
    obtain w where w: "readSize r (of_nat l) = Ok (Inr w)" "checkSize b k' (of_nat (l + 1)) (Inr w) = Inr (k, ts, z)"
      using assms(1) unfolding br readKind_raw(3) [OF long]
      by (elim bind_res_OkE) (auto simp: checkSize_def split: sum.splits)
    then have s: "l \<le> length r" "\<not> SetBytes (take l r) < 56" "hd r \<noteq> 0" "w = word_of_int (SetBytes (take l r))"
      using readSize_eq [OF long(2,3), of r] by (auto split: if_splits)
    define n where "n = nat (SetBytes (take l r))"
    have "SetBytes (take l r) < 256 ^ l" using SetBytes_bound [of "take l r"] s(1) by (simp add: min_absorb2)
    also have "\<dots> \<le> 256 ^ 8" using long(3) by (intro power_increasing) simp_all
    finally have n64: "SetBytes (take l r) < 2 ^ 64" by simp
    have v: "SetBytes (take l r) = int n" by (simp add: n_def)
    have n: "n < 2 ^ 64" "56 \<le> n" using s(2) n64 unfolding v by simp_all
    have "w = of_nat n" using s(4) by (simp add: v)
    then have e: "k' = k" "ts = of_nat (l + 1)" "z = of_nat n" "l + 1 + n \<le> length b"
      using w(2) checkSize_Inr [of b "l + 1" n k', OF b _ n(1)] s(1) br by (auto split: if_splits)
    have "take l r \<noteq> []" "hd (take l r) = hd r" using s(1) long(2) by (cases r; cases l; simp)+
    then have nb: "nat_bytes n = take l r" using nat_bytes_SetBytes [of "take l r"] s(3) by (simp add: n_def)
    have h: "kindHead k n = t # take l r" using n(2) long s(1) e(1) nb by (simp add: kindHead_eq)
    have c: "length (take n (drop l r)) = n" using e(4) br by simp
    have "r = take l r @ take n (drop l r) @ drop n (drop l r)" by (simp del: drop_drop)
    moreover have "shortest k (take n (drop l r))" using n(2) c e(1) long(1) by (cases k) (auto simp del: length_take)
    ultimately show ?thesis using h c e br s(1)
      by (intro exI [of _ "take n (drop l r)"] exI [of _ "drop n (drop l r)"]) (simp del: append_take_drop_id drop_drop)
  qed
qed

text \<open>
  C19. \<^verbatim>\<open>Split\<close> accepts exactly the encodings: for an input shorter than \<open>2 ^ 64\<close> bytes it returns a
  kind, a content and a rest just when the input is the header of that kind for the length of the
  content, the content and the rest, and a single byte below 128 stands for itself.
\<close>

theorem Split_correct:
  assumes "length b < 2 ^ 64"
  shows "Split b = Ok (Inr (k, c, rest)) \<longleftrightarrow> b = kindHead k (length c) @ c @ rest \<and> shortest k c"
proof
  assume "Split b = Ok (Inr (k, c, rest))"
  then obtain ts z where r: "readKind b = Ok (Inr (k, ts, z))"
    by (auto simp: Split_def elim!: bind_res_OkE split: sum.splits)
  from readKind_cases [OF this assms] obtain c' rest' where i: "shortest k c'" "b = kindHead k (length c') @ c' @ rest'" by blast
  then show "b = kindHead k (length c) @ c @ rest \<and> shortest k c"
    using Split_item [OF i assms] \<open>Split b = _\<close> by simp
next
  assume "b = kindHead k (length c) @ c @ rest \<and> shortest k c"
  then show "Split b = Ok (Inr (k, c, rest))" using Split_item assms by blast
qed

theorem Split_correct_witness: "Split [0x83, 0x64, 0x6F, 0x67, 0xC0] = Ok (Inr (String, [0x64, 0x6F, 0x67], [0xC0]))"
proof -
  have "kindHead String 3 = [0x83]" by code_simp
  then show ?thesis using Split_correct [of "[0x83, 0x64, 0x6F, 0x67, 0xC0]" String "[0x64, 0x6F, 0x67]" "[0xC0]"] by (simp add: numeral_3_eq_3)
qed

lemma readKind_panics: "readKind (t # r) = Panic \<longleftrightarrow> t = 0x81 \<and> r = []"
proof (cases t rule: tag_cases)
  case byte
  then show ?thesis by (auto simp: readKind_raw(1))
next
  case (short k n)
  have u: "unat t = tagBase k + n" using short by (cases k) (simp_all add: tagBase_def unat_of_nat8 del: of_nat_add)
  have "t = 0x81 \<longleftrightarrow> unat t = 0x81" by (simp add: word_unat_eq_iff)
  then have "t = 0x81 \<longleftrightarrow> k = String \<and> n = 1" unfolding u using short(1,2) by (cases k) (auto simp: tagBase_def)
  then show ?thesis unfolding readKind_raw(2) [OF short] by (auto split: list.splits)
next
  case (long k l)
  have u: "unat t = tagBase k + 55 + l" using long by (cases k) (simp_all add: tagBase_def unat_of_nat8 del: of_nat_add)
  have "unat t \<noteq> 0x81" unfolding u using long(1) by (cases k) (auto simp: tagBase_def)
  then have "t \<noteq> 0x81" by auto
  then show ?thesis unfolding readKind_raw(3) [OF long] readSize_eq [OF long(2,3)] by (auto simp: res_simps split: if_splits)
qed


end
