(* ===== verification/RlpTotal.thy ===== *)
theory RlpTotal
  imports RlpRound
begin

text \<open>
  Decoding ends on every input, because every value read consumes at least one byte. The one
  exception is an array of one byte: reading a zero into it does not consume anything.
\<close>

section \<open>Progress\<close>

definition ahead :: "Stream \<Rightarrow> nat" where
  "ahead s = length (s_r s) + (if s_kind s = None then 0 else 1)"

text \<open>\<open>read_from s s'\<close>: a value was read, and the next call of \<^verbatim>\<open>Kind\<close> looks at new input.\<close>

definition read_from :: "Stream \<Rightarrow> Stream \<Rightarrow> bool" where
  "read_from s s' \<longleftrightarrow> s_kind s' = None \<and> length (s_r s') < ahead s"

lemma read_from_ahead: "read_from s s' \<Longrightarrow> ahead s' < ahead s"
  by (simp add: read_from_def ahead_def)

lemma willRead_r: "willRead s n = (None, s') \<Longrightarrow> s_r s' = s_r s \<and> s_kind s' = None"
  by (auto simp: willRead_def willReadList_def split: list.splits if_splits prod.splits option.splits)

lemma readByte_r: "s_readByte s = (Inr b, s') \<Longrightarrow> length (s_r s') < length (s_r s) \<and> s_kind s' = None"
  by (auto simp: s_readByte_def dest!: willRead_r split: prod.splits option.splits list.splits)

lemma readFull_r: "s_readFull s k = (Inr b, s') \<Longrightarrow> length (s_r s') \<le> length (s_r s) \<and> s_kind s' = None"
  by (auto simp: s_readFull_def dest!: willRead_r split: prod.splits option.splits if_splits)

lemma readUint_r: "s_readUint s k = (Inr b, s') \<Longrightarrow> length (s_r s') \<le> length (s_r s) \<and> s_kind s' = None"
  by (auto simp: s_readUint_def dest!: readFull_r readByte_r split: prod.splits sum.splits if_splits)

lemma readKind_r:
  assumes "s_readKind s = ((k, z, None), s')"
  shows "length (s_r s') < length (s_r s)"
proof -
  have l: "longSize k r = ((k', z, None), s') \<Longrightarrow> \<exists>v. r = (Inr v, s')" for k r k' z s'
    by (auto simp: longSize_def split: prod.splits sum.splits if_splits)
  from assms show ?thesis
    by (auto simp: s_readKind_def Let_def dest!: l readByte_r readUint_r split: prod.splits sum.splits if_splits)
qed

lemma Kind_r: "s_Kind s = (Inr x, s') \<Longrightarrow> s_kind s' \<noteq> None \<and> ahead s' \<le> ahead s"
  by (auto simp: s_Kind_def Let_def ahead_def dest!: readKind_r split: if_splits prod.splits option.splits)

lemma after_Kind: "s_Kind s = (Inr x, s1) \<Longrightarrow> length (s_r s') \<le> length (s_r s1) \<Longrightarrow> s_kind s' = None \<Longrightarrow> read_from s s'"
  using Kind_r [of s x s1] by (auto simp: read_from_def ahead_def)

lemma ops_r:
  "s_Bytes s = (Inr b, s') \<Longrightarrow> read_from s s'" "s_uint s m = (Inr i, s') \<Longrightarrow> read_from s s'" "s_Raw s = (Inr b, s') \<Longrightarrow> read_from s s'"
  "s_List s = (Inr z, s') \<Longrightarrow> read_from s s'" "s_Bool s = (Inr x, s') \<Longrightarrow> read_from s s'"
  "k \<noteq> 1 \<Longrightarrow> decodeByteArray k s = (Inr v, s') \<Longrightarrow> read_from s s'"
proof -
  show "read_from s s'" if "s_Bytes s = (Inr b, s')"
    using that by (auto simp: s_Bytes_def dest!: readFull_r intro: after_Kind split: prod.splits sum.splits Kind.splits if_splits)
  show u: "read_from s s'" if "s_uint s m = (Inr i, s')" for m i
    using that by (auto simp: s_uint_def dest!: readUint_r intro: after_Kind split: prod.splits sum.splits Kind.splits if_splits)
  show "read_from s s'" if "s_Raw s = (Inr b, s')"
    using that by (auto simp: s_Raw_def dest!: readFull_r intro: after_Kind split: prod.splits sum.splits if_splits)
  show "read_from s s'" if "s_List s = (Inr z, s')"
    using that by (auto simp: s_List_def intro: after_Kind split: prod.splits sum.splits if_splits)
  show "read_from s s'" if "s_Bool s = (Inr x, s')"
    using that u by (auto simp: s_Bool_def split: prod.splits sum.splits if_splits)
  show "read_from s s'" if "k \<noteq> 1" "decodeByteArray k s = (Inr v, s')"
    using that by (auto simp: decodeByteArray_def dest!: readFull_r intro: after_Kind split: prod.splits sum.splits Kind.splits if_splits)
qed

lemma ListEnd_r: "s_ListEnd s = (None, s') \<Longrightarrow> s_r s' = s_r s \<and> s_kind s' = None"
  by (auto simp: s_ListEnd_def Let_def split: list.splits if_splits)

lemma listEnd_r: "listEndPlain vs s = (Inr v, s') \<Longrightarrow> s_r s' = s_r s \<and> s_kind s' = None"
  "listEndWrapped vs s = (Inr v, s') \<Longrightarrow> s_r s' = s_r s \<and> s_kind s' = None"
  using listEnd_inv ListEnd_r by blast+

fun rearms :: "rtyp \<Rightarrow> bool" where
  "rearms (TByteArray n) \<longleftrightarrow> n \<noteq> 1"
| "rearms (TSlice t) \<longleftrightarrow> rearms t"
| "rearms (TArray n t) \<longleftrightarrow> rearms t"
| "rearms (TStruct ts) \<longleftrightarrow> (\<forall>t \<in> set ts. rearms t)"
| "rearms (TPtr t) \<longleftrightarrow> rearms t"
| "rearms (TOptPtr t) \<longleftrightarrow> rearms t"
| "rearms _ \<longleftrightarrow> True"

lemma read_from_trans: "read_from s s1 \<Longrightarrow> length (s_r s') \<le> ahead s1 \<Longrightarrow> s_kind s' = None \<Longrightarrow> read_from s s'"
  by (auto simp: read_from_def ahead_def)

lemma read_from_shrinks: "s_kind s = None \<Longrightarrow> read_from s s' \<Longrightarrow> length (s_r s') \<le> length (s_r s) \<and> s_kind s' = None"
  by (auto simp: read_from_def ahead_def)

definition progress :: "nat \<Rightarrow> rtyp \<Rightarrow> bool" where
  "progress n t \<longleftrightarrow> (\<forall>s v s'. decodeTyp n t s = Ok (Inr v, s') \<longrightarrow> read_from s s')"

lemma progressD:
  "progress n t \<Longrightarrow> decodeTyp n t s = Ok (Inr v, s') \<Longrightarrow> s_kind s = None \<Longrightarrow>
   length (s_r s') \<le> length (s_r s) \<and> s_kind s' = None"
  using read_from_shrinks unfolding progress_def by blast

lemma elems_r:
  "\<forall>m < n. progress m t \<Longrightarrow> s_kind s = None \<Longrightarrow> decodeSliceElems n t s = Ok (Inr vs, s') \<Longrightarrow>
   length (s_r s') \<le> length (s_r s) \<and> s_kind s' = None"
proof (induction n arbitrary: s vs)
  case (Suc n)
  from Suc.prems(3) obtain r s1 where r: "decodeTyp n t s = Ok (r, s1)" by (auto elim!: bind_res_OkE)
  show ?case
  proof (cases r)
    case (Inl e)
    then have e: "e = EOL" "s' = s1" using Suc.prems(3) r by (auto simp: res_simps split: if_splits)
    then have "s1 = s\<lparr>s_kinderr := None\<rparr>" using decode_EOL [of n t s s1] r Inl Suc.prems(2) by simp
    then show ?thesis using e Suc.prems(2) by simp
  next
    case (Inr v)
    have 1: "length (s_r s1) \<le> length (s_r s) \<and> s_kind s1 = None"
      using progressD [OF _ r [unfolded Inr]] Suc.prems(1,2) by simp
    from Suc.prems(3) r Inr obtain us where 2: "decodeSliceElems n t s1 = Ok (Inr us, s')"
      by (auto elim!: bind_res_OkE split: prod.splits sum.splits)
    from Suc.IH [OF _ _ 2] Suc.prems(1) 1 show ?thesis by auto
  qed
qed simp

lemma array_r:
  "\<forall>m < n. progress m t \<Longrightarrow> s_kind s = None \<Longrightarrow> decodeArrayElems n k t s = Ok (Inr vs, s') \<Longrightarrow>
   length (s_r s') \<le> length (s_r s) \<and> s_kind s' = None"
proof (induction n arbitrary: k s vs)
  case (Suc n)
  show ?case
  proof (cases "k = 0")
    case False
    with Suc.prems(3) obtain v s1 us where 2: "decodeTyp n t s = Ok (Inr v, s1)" "decodeArrayElems n (k - 1) t s1 = Ok (Inr us, s')"
      by (auto elim!: bind_res_OkE split: prod.splits sum.splits)
    have 1: "length (s_r s1) \<le> length (s_r s) \<and> s_kind s1 = None"
      using progressD [OF _ 2(1)] Suc.prems(1,2) by simp
    from Suc.IH [OF _ _ 2(2)] Suc.prems(1) 1 show ?thesis by auto
  qed (use Suc.prems in simp)
qed simp

lemma fields_r:
  "\<forall>t \<in> set ts. \<forall>m < n. progress m t \<Longrightarrow> s_kind s = None \<Longrightarrow> decodeFields n ts s = Ok (Inr vs, s') \<Longrightarrow>
   length (s_r s') \<le> length (s_r s) \<and> s_kind s' = None"
proof (induction ts arbitrary: n s vs)
  case (Cons t ts)
  from Cons.prems(3) obtain m where n: "n = Suc m" by (cases n) auto
  with Cons.prems(3) obtain v s1 us where 2: "decodeTyp m t s = Ok (Inr v, s1)" "decodeFields m ts s1 = Ok (Inr us, s')"
    by (auto elim!: bind_res_OkE split: prod.splits sum.splits)
  have 1: "length (s_r s1) \<le> length (s_r s) \<and> s_kind s1 = None"
    using progressD [OF _ 2(1)] Cons.prems(1,2) n by simp
  from Cons.IH [OF _ _ 2(2)] Cons.prems(1) 1 n show ?case by auto
qed simp

lemma list_r:
  assumes "s_List s = (Inr z, s1)" "length (s_r s2) \<le> length (s_r s1)" "s_r s' = s_r s2" "s_kind s' = None"
  shows "read_from s s'"
  using read_from_trans [OF ops_r(4) [OF assms(1)], of s'] assms by (simp add: ahead_def)

lemma slice_r:
  assumes "\<forall>m < n. progress m t" "decodeListSlice n t s = Ok (Inr v, s')"
  shows "read_from s s'"
proof -
  obtain z s1 where 1: "s_List s = (Inr z, s1)" using assms(2) by (auto split: prod.splits sum.splits)
  have k: "s_kind s1 = None" using ops_r(4) [OF 1] by (simp add: read_from_def)
  show ?thesis
  proof (cases "z = 0")
    case True
    then have "listEndPlain [] s1 = (Inr v, s')" using assms(2) 1 by simp
    then show ?thesis using list_r [OF 1, of s1] listEnd_r(1) by blast
  next
    case False
    then obtain vs s2 where "decodeSliceElems n t s1 = Ok (Inr vs, s2)" "listEndPlain vs s2 = (Inr v, s')"
      using assms(2) 1 by (auto elim!: bind_res_OkE split: prod.splits sum.splits)
    then show ?thesis using list_r [OF 1] elems_r [OF assms(1) k] listEnd_r(1) by metis
  qed
qed

lemma body_r:
  assumes d: "(case s_List s of (Inl err, s) \<Rightarrow> Ok (Inl (wrapStreamError err), s)
        | (Inr x, s) \<Rightarrow> bind_res (E s) (\<lambda>r. case r of (Inl err, s) \<Rightarrow> Ok (Inl err, s) | (Inr vs, s) \<Rightarrow> Ok (listEndWrapped vs s)))
      = Ok (Inr v, s')"
    and E: "\<And>s vs s'. s_kind s = None \<Longrightarrow> E s = Ok (Inr vs, s') \<Longrightarrow> length (s_r s') \<le> length (s_r s) \<and> s_kind s' = None"
  shows "read_from s s'"
proof -
  from d obtain z s1 where 1: "s_List s = (Inr z, s1)" by (auto split: prod.splits sum.splits)
  have k: "s_kind s1 = None" using ops_r(4) [OF 1] by (simp add: read_from_def)
  from d 1 obtain vs s2 where "E s1 = Ok (Inr vs, s2)" "listEndWrapped vs s2 = (Inr v, s')"
    by (auto elim!: bind_res_OkE split: prod.splits sum.splits)
  then show ?thesis using list_r [OF 1] E [OF k] listEnd_r(2) by metis
qed

lemma leaves_r:
  "decodeRawValue s = (Inr v, s') \<Longrightarrow> read_from s s'" "decodeBigInt s = (Inr v, s') \<Longrightarrow> read_from s s'"
  "decodeUint k s = (Inr v, s') \<Longrightarrow> read_from s s'" "decodeBool s = (Inr v, s') \<Longrightarrow> read_from s s'"
  "decodeString s = (Inr v, s') \<Longrightarrow> read_from s s'" "decodeByteSlice s = (Inr v, s') \<Longrightarrow> read_from s s'"
  by (auto simp: decodeRawValue_def decodeBigInt_def decodeUint_def decodeBool_def decodeString_def decodeByteSlice_def wrapped_def
      intro: ops_r split: prod.splits sum.splits if_splits)

lemma read_from_Kind: "s_Kind s = (Inr x, s1) \<Longrightarrow> read_from s1 s' \<Longrightarrow> read_from s s'"
  using Kind_r [of s x s1] by (auto simp: read_from_def)

lemma progress_all: "rearms t \<Longrightarrow> progress n t"
proof (induction n arbitrary: t rule: less_induct)
  case (less n)
  show ?case
  proof (cases n)
    case 0
    then show ?thesis by (simp add: progress_def)
  next
    case (Suc m)
    have IH: "\<forall>k < m. progress k t" if "rearms t" for t using less.IH Suc that by simp
    have "progress (Suc m) t" if "rearms t" for t
      using that
    proof (induction t)
      case (TSlice t)
      then show ?case using slice_r [OF IH [of t]] by (simp add: progress_def del: decodeListSlice.simps)
    next
      case (TArray k t)
      then have "\<forall>j < m. progress j t" using IH by simp
      note f = array_r [OF this]
      show ?case unfolding progress_def decodeTyp.simps by (intro allI impI) (erule body_r, erule (1) f)
    next
      case (TStruct ts)
      then have "\<forall>t \<in> set ts. \<forall>k < m. progress k t" using IH by simp
      note f = fields_r [OF this]
      show ?case unfolding progress_def decodeTyp.simps by (intro allI impI) (erule body_r, erule (1) f)
    next
      case (TOptPtr t)
      show ?case unfolding progress_def
      proof (intro allI impI)
        fix s v s'
        assume d: "decodeTyp (Suc m) (TOptPtr t) s = Ok (Inr v, s')"
        then obtain kd z s1 where 1: "s_Kind s = (Inr (kd, z), s1)" by (auto split: prod.splits sum.splits)
        show "read_from s s'"
        proof (cases "z = 0 \<and> kd \<noteq> Byte")
          case True
          then show ?thesis using d 1 after_Kind [OF 1, of s'] by auto
        next
          case False
          then have "decodeTyp (Suc m) t s1 = Ok (Inr v, s')" using d 1 by (auto split: if_splits)
          then show ?thesis using TOptPtr read_from_Kind [OF 1] by (simp add: progress_def)
        qed
      qed
    next
      case TInterface
      show ?case unfolding progress_def
      proof (intro allI impI)
        fix s v s'
        assume d: "decodeTyp (Suc m) TInterface s = Ok (Inr v, s')"
        then obtain kd z s1 where 1: "s_Kind s = (Inr (kd, z), s1)" by (auto split: prod.splits sum.splits)
        show "read_from s s'"
        proof (cases "kd = List")
          case True
          then show ?thesis using d 1 slice_r [OF IH [of TInterface]] read_from_Kind [OF 1] by (simp del: decodeListSlice.simps)
        next
          case False
          then show ?thesis using d 1 read_from_Kind [OF 1] ops_r(1) by (auto split: prod.splits sum.splits)
        qed
      qed
    qed (auto simp: progress_def leaves_r ops_r)
    then show ?thesis using less.prems Suc by blast
  qed
qed

section \<open>Enough fuel\<close>

definition returns :: "'a sres res \<Rightarrow> bool" where
  "returns r \<longleftrightarrow> (\<exists>x s. r = Ok (x, s))"

lemma returnsE [consumes 1]: "returns r \<Longrightarrow> (\<And>e s. r = Ok (Inl e, s) \<Longrightarrow> P) \<Longrightarrow> (\<And>v s. r = Ok (Inr v, s) \<Longrightarrow> P) \<Longrightarrow> P"
  unfolding returns_def by (metis sum.exhaust)

lemma returns_Ok [simp]: "returns (Ok x)"
  by (cases x) (simp add: returns_def)

lemma returns_cont [simp]:
  "returns (case x of (Inl err, s) \<Rightarrow> Ok (Inl (f err), s) | (Inr vs, s) \<Rightarrow> Ok (g vs s))"
  by (auto split: prod.split sum.split)

definition ends :: "nat \<Rightarrow> rtyp \<Rightarrow> bool" where
  "ends n t \<longleftrightarrow> (\<forall>s. 2 * ahead s + 1 \<le> n \<longrightarrow> returns (decodeTyp n t s))"

lemma elems_ends:
  "rearms t \<Longrightarrow> \<forall>m < n. ends m t \<Longrightarrow> 2 * ahead s + 2 \<le> n \<Longrightarrow> returns (decodeSliceElems n t s)"
proof (induction n arbitrary: s)
  case (Suc n)
  have "returns (decodeTyp n t s)" using Suc.prems by (simp add: ends_def)
  then show ?case
  proof (cases rule: returnsE)
    case (2 v s1)
    have "ahead s1 < ahead s" using progress_all [OF Suc.prems(1)] 2 read_from_ahead unfolding progress_def by blast
    then have "returns (decodeSliceElems n t s1)" using Suc by simp
    then show ?thesis by (cases rule: returnsE) (simp_all add: 2 res_simps)
  qed (simp add: res_simps)
qed simp

lemma array_ends:
  "rearms t \<Longrightarrow> \<forall>m < n. ends m t \<Longrightarrow> 2 * ahead s + 2 \<le> n \<Longrightarrow> returns (decodeArrayElems n k t s)"
proof (induction n arbitrary: k s)
  case (Suc n)
  have "returns (decodeTyp n t s)" using Suc.prems by (simp add: ends_def)
  then show ?case
  proof (cases rule: returnsE)
    case (2 v s1)
    have "ahead s1 < ahead s" using progress_all [OF Suc.prems(1)] 2 read_from_ahead unfolding progress_def by blast
    then have "returns (decodeArrayElems n (k - 1) t s1)" using Suc by simp
    then show ?thesis by (cases rule: returnsE) (simp_all add: 2 res_simps)
  qed (simp add: res_simps)
qed simp

lemma fields_ends:
  "\<forall>t \<in> set ts. rearms t \<and> (\<forall>m < n. ends m t) \<Longrightarrow> 2 * ahead s + 2 \<le> n \<Longrightarrow> returns (decodeFields n ts s)"
proof (induction ts arbitrary: n s)
  case (Cons t ts)
  from Cons.prems obtain m where n: "n = Suc m" by (cases n) auto
  have "returns (decodeTyp m t s)" using Cons.prems n by (simp add: ends_def)
  then show ?case
  proof (cases rule: returnsE)
    case (2 v s1)
    have "rearms t" using Cons.prems by simp
    then have "ahead s1 < ahead s" using progress_all 2 read_from_ahead unfolding progress_def by blast
    then have "returns (decodeFields m ts s1)" using Cons n by simp
    then show ?thesis by (cases rule: returnsE) (simp_all add: 2 n res_simps)
  qed (simp add: res_simps n)
qed simp

lemma body_ends:
  assumes E: "\<And>s1. ahead s1 < ahead s \<Longrightarrow> returns (E s1)"
  shows "returns (case s_List s of (Inl err, s) \<Rightarrow> Ok (Inl (wrapStreamError err), s)
     | (Inr x, s) \<Rightarrow> bind_res (E s) (\<lambda>r. case r of (Inl err, s) \<Rightarrow> Ok (Inl err, s) | (Inr vs, s) \<Rightarrow> Ok (f vs s)))"
proof -
  obtain r s1 where 1: "s_List s = (r, s1)" by fastforce
  show ?thesis
  proof (cases r)
    case (Inr z)
    then have "returns (E s1)" using 1 ops_r(4) read_from_ahead E by blast
    then show ?thesis by (cases rule: returnsE) (simp_all add: 1 Inr res_simps)
  qed (simp add: 1)
qed

lemma slice_ends:
  assumes "rearms t" "\<forall>m < n. ends m t" "2 * ahead s \<le> n"
  shows "returns (decodeListSlice n t s)"
proof -
  have "returns (decodeSliceElems n t s1)" if "ahead s1 < ahead s" for s1
    using elems_ends [OF assms(1,2)] assms(3) that by simp
  from body_ends [of s "decodeSliceElems n t" listEndPlain, OF this]
  show ?thesis by (simp split: prod.splits sum.splits)
qed

lemma ends_all: "rearms t \<Longrightarrow> ends n t"
proof (induction n arbitrary: t rule: less_induct)
  case (less n)
  show ?case
  proof (cases n)
    case 0
    then show ?thesis by (simp add: ends_def)
  next
    case (Suc m)
    have IH: "\<forall>k < m. ends k t" if "rearms t" for t using less.IH Suc that by simp
    have "returns (decodeTyp (Suc m) t s)" if "rearms t" "2 * ahead s + 1 \<le> Suc m" for t s
      using that
    proof (induction t arbitrary: s)
      case (TSlice t)
      then show ?case using slice_ends [OF _ IH [of t], of s] by (simp del: decodeListSlice.simps)
    next
      case (TArray k t)
      then have "returns (decodeArrayElems m k t s1)" if "ahead s1 < ahead s" for s1
        using array_ends [OF _ IH [of t]] that by simp
      then show ?case unfolding decodeTyp.simps by (rule body_ends)
    next
      case (TStruct ts)
      then have "returns (decodeFields m ts s1)" if "ahead s1 < ahead s" for s1
        using fields_ends [of ts m s1] IH that by simp
      then show ?case unfolding decodeTyp.simps by (rule body_ends)
    next
      case (TOptPtr t)
      obtain r s1 where 1: "s_Kind s = (r, s1)" by fastforce
      show ?case
      proof (cases r)
        case (Inr x)
        then have "returns (decodeTyp (Suc m) t s1)" using TOptPtr Kind_r [of s x s1] 1 by simp
        then show ?thesis using 1 Inr by (cases x) simp
      qed (simp add: 1)
    next
      case TInterface
      obtain r s1 where 1: "s_Kind s = (r, s1)" by fastforce
      show ?case
      proof (cases r)
        case (Inr x)
        then have "returns (decodeListSlice m TInterface s1)"
          using TInterface Kind_r [of s x s1] 1 slice_ends [OF _ IH [of TInterface], of s1] by simp
        then show ?thesis using 1 Inr by (cases x) (simp split: prod.split sum.split del: decodeListSlice.simps)
      qed (simp add: 1)
    qed simp_all
    then show ?thesis using less.prems Suc by (simp add: ends_def)
  qed
qed



section \<open>Round trip\<close>

lemma wt_encodable: "wt t v \<Longrightarrow> encodable v" "wts ts vs \<Longrightarrow> \<forall>v \<in> set vs. encodable v"
proof (induction t v and ts vs rule: wt_wts.induct)
  case (13 v)
  then show ?case unfolding wt_TInterface [of v] by (auto split: rlpval.splits)
qed (auto split: rlpval.splits list.splits)

lemma needs_bound:
  "\<forall>v \<in> set vs. need v \<le> 2 * length (rlpEnc v) + 1 \<and> rlpEnc v \<noteq> [] \<Longrightarrow> needs vs \<le> 2 * length (concat (map rlpEnc vs)) + 2"
proof (induction vs)
  case (Cons v vs)
  moreover obtain x xs where "rlpEnc v = x # xs" using Cons.prems by (cases "rlpEnc v") auto
  ultimately show ?case by auto
qed simp

lemma need_list:
  "\<forall>v \<in> set vs. need v \<le> 2 * length (rlpEnc v) + 1 \<and> rlpEnc v \<noteq> [] \<Longrightarrow> need (RList vs) \<le> 2 * length (rlpEnc (RList vs)) + 1"
  using needs_bound [of vs] by (auto simp: rlpLst_def rlpHead_def Let_def)

lemma need_bound:
  "wt t v \<Longrightarrow> need v \<le> 2 * length (rlpEnc v) + 1"
  "wts ts vs \<Longrightarrow> \<forall>v \<in> set vs. need v \<le> 2 * length (rlpEnc v) + 1 \<and> rlpEnc v \<noteq> []"
proof (induction t v and ts vs rule: wt_wts.induct)
  case (8 t v)
  then obtain vs where "v = RList vs" "\<forall>u \<in> set vs. wt t u" by (auto split: rlpval.splits)
  with 8 show ?case using need_list [of vs] wt_nonempty(1) [of t] by (simp del: need.simps rlpEnc.simps)
next
  case (9 n t v)
  then obtain vs where "v = RList vs" "\<forall>u \<in> set vs. wt t u" by (auto split: rlpval.splits)
  with 9 show ?case using need_list [of vs] wt_nonempty(1) [of t] by (simp del: need.simps rlpEnc.simps)
next
  case (10 ts v)
  then show ?case using need_list by (auto split: rlpval.splits simp del: need.simps rlpEnc.simps)
next
  case (13 v)
  then consider b where "v = RBytes b" | vs where "v = RList vs" "\<forall>u \<in> set vs. wt TInterface u"
    by (auto simp: wt_TInterface [of v] split: rlpval.splits)
  then show ?case
  proof cases
    case 2
    with 13 show ?thesis using need_list [of vs] wt_nonempty(1) [of TInterface] by (simp del: need.simps rlpEnc.simps)
  qed simp
next
  case (15 t ts vs)
  then show ?case using wt_nonempty(1) by (auto split: list.splits)
qed (auto split: rlpval.splits)

lemma avail_NewStream: "length b < 2 ^ 64 \<Longrightarrow> avail (NewStream b) b"
  by (simp add: avail_def NewStream_def fits_def unat_of_nat64)

lemma NewStream_idle [simp]: "s_kind (NewStream b) = None" "stack_ok (s_stack (NewStream b))" "s_r (NewStream b) = b"
  by (simp_all add: NewStream_def)





section \<open>The zero byte\<close>

definition zero1 :: Stream where
  "zero1 = snd (s_List (NewStream [0xC1, 0]))"

definition zero2 :: Stream where
  "zero2 = snd (decodeByteArray 1 zero1)"

lemma zero_steps:
  "s_List (NewStream [0xC1, 0]) = (Inr 1, zero1)" "decodeByteArray 1 zero1 = (Inr (RBytes [0]), zero2)"
  "decodeByteArray 1 zero2 = (Inr (RBytes [0]), zero2)"
  by code_simp+

lemma zero_elem:
  "decodeSliceElems (Suc n) (TByteArray 1) s = NoFuel"
  if "decodeByteArray 1 s = (Inr v, zero2)" "decodeSliceElems n (TByteArray 1) zero2 = NoFuel"
  using that by (cases n) (simp_all add: res_simps del: decodeSliceElems.simps(2), simp_all add: res_simps)

lemma zero_loop: "decodeSliceElems n (TByteArray 1) zero2 = NoFuel"
  by (induction n) (simp, erule zero_elem [OF zero_steps(3)])

text \<open>
  C21. A list with one zero byte is never decoded into a slice of one-byte arrays: whatever the
  recursion budget, \<^verbatim>\<open>DecodeBytes\<close> does not return, because \<^verbatim>\<open>decodeByteArray\<close> drops the error of
  reading the zero and leaves the zero in front of the stream.
\<close>

theorem decode_zero_byte: "DecodeBytes n [0xC1, 0] (TSlice (TByteArray 1)) = NoFuel"
proof (cases n)
  case (Suc m)
  have "decodeSliceElems m (TByteArray 1) zero1 = NoFuel"
    using zero_elem [OF zero_steps(2) zero_loop] by (cases m) simp_all
  then show ?thesis by (simp add: Suc DecodeBytes_def zero_steps res_simps)
qed (simp add: DecodeBytes_def res_simps)

end
