(* ===== verification/Fallible.thy ===== *)
theory Fallible
  imports Prelude
begin

text \<open>
  Results with an error value: a Go function that returns \<^verbatim>\<open>(x, err)\<close> gives \<open>Ok (Inr x)\<close> or
  \<open>Ok (Inl err)\<close>, and \<open>bindE\<close> is the statement \<^verbatim>\<open>if err != nil { return err }\<close>.
\<close>

type_synonym ('e, 'a) fallible = "('e + 'a) res"

definition bindE :: "('e, 'a) fallible \<Rightarrow> ('a \<Rightarrow> ('e, 'b) fallible) \<Rightarrow> ('e, 'b) fallible" where
  "bindE m f = bind_res m (\<lambda>r. case r of Inl err \<Rightarrow> Ok (Inl err) | Inr x \<Rightarrow> f x)"

lemma bindE_simps [simp]:
  "bindE (Ok (Inr x)) f = f x" "bindE (Ok (Inl e)) f = Ok (Inl e)" "bindE Panic f = Panic" "bindE NoFuel f = NoFuel"
  by (simp_all add: bindE_def)

lemma bindE_OkE:
  assumes "bindE m f = Ok (Inr y)"
  obtains x where "m = Ok (Inr x)" "f x = Ok (Inr y)"
  using assms by (cases m) (auto split: sum.splits simp: bindE_def)

lemma bindE_cong [fundef_cong]:
  "m = m' \<Longrightarrow> (\<And>x. m' = Ok (Inr x) \<Longrightarrow> f x = f' x) \<Longrightarrow> bindE m f = bindE m' f'"
  by (auto simp: bindE_def split: sum.split intro!: bind_res_cong)

lemma bindE_unfold [code_unfold]:
  "bindE m f = (case m of Ok (Inr x) \<Rightarrow> f x | Ok (Inl e) \<Rightarrow> Ok (Inl e) | Panic \<Rightarrow> Panic | NoFuel \<Rightarrow> NoFuel)"
  by (cases m) (auto simp: bindE_def split: sum.split)

text \<open>An element of a slice; an index out of range panics.\<close>

definition index :: "'a list \<Rightarrow> nat \<Rightarrow> 'a res" where
  "index xs i = (if i < length xs then Ok (xs ! i) else Panic)"

lemma index_simps [simp]: "i < length xs \<Longrightarrow> index xs i = Ok (xs ! i)" "\<not> i < length xs \<Longrightarrow> index xs i = Panic"
  by (simp_all add: index_def)

end
