(* ===== verification/TrieKeys.thy ===== *)
theory TrieKeys
  imports Fallible
begin

text \<open>
  The key encodings of trie/encoding.go: key bytes, one byte for each nibble with an optional
  terminator 16, and the compact form with a flag nibble that is stored in the database.
\<close>

section \<open>encoding.go\<close>

definition hasTerm :: "bytes \<Rightarrow> bool" where
  "hasTerm s \<longleftrightarrow> 0 < length s \<and> last s = 16"

fun decodeNibbles :: "bytes \<Rightarrow> bytes res" where
  "decodeNibbles [] = Ok []"
| "decodeNibbles [x] = Panic"
| "decodeNibbles (x # y # nibbles) = bind_res (decodeNibbles nibbles) (\<lambda>bs. Ok ((push_bit 4 x OR y) # bs))"

definition hexToCompact :: "bytes \<Rightarrow> bytes res" where
  "hexToCompact hex0 =
     (let terminator = (if hasTerm hex0 then 1 else 0);
          hex = (if hasTerm hex0 then butlast hex0 else hex0);
          flag = push_bit 5 terminator
      in case hex of
           h # hex' \<Rightarrow>
             if odd (length hex) then bind_res (decodeNibbles hex') (\<lambda>bs. Ok ((flag OR push_bit 4 1 OR h) # bs))
             else bind_res (decodeNibbles hex) (\<lambda>bs. Ok (flag # bs))
         | [] \<Rightarrow> Ok [flag])"

definition keybytesToHex :: "bytes \<Rightarrow> bytes" where
  "keybytesToHex str = concat (map (\<lambda>b. [b div 16, b mod 16]) str) @ [16]"

definition compactToHex :: "bytes \<Rightarrow> bytes res" where
  "compactToHex compact =
     (let base = butlast (keybytesToHex compact) in
      case base of
        [] \<Rightarrow> Panic
      | b0 # _ \<Rightarrow> Ok (drop (2 - unat (b0 AND 1)) (if 2 \<le> b0 then base @ [16] else base)))"

definition hexToKeybytes :: "bytes \<Rightarrow> bytes res" where
  "hexToKeybytes hex0 =
     (let hex = (if hasTerm hex0 then butlast hex0 else hex0) in
      if odd (length hex) then Panic else decodeNibbles hex)"

fun prefixLen :: "bytes \<Rightarrow> bytes \<Rightarrow> nat" where
  "prefixLen (x # a) (y # b) = (if x = y then Suc (prefixLen a b) else 0)"
| "prefixLen _ _ = 0"

section \<open>Nibbles\<close>

definition nibbles :: "bytes \<Rightarrow> bool" where
  "nibbles ns \<longleftrightarrow> (\<forall>x \<in> set ns. x < 16)"

lemma nibbles_simps [simp]: "nibbles []" "nibbles (x # ns) \<longleftrightarrow> x < 16 \<and> nibbles ns" "nibbles (xs @ ys) \<longleftrightarrow> nibbles xs \<and> nibbles ys"
  by (auto simp: nibbles_def)

lemma nibbles_take_drop: "nibbles ns \<Longrightarrow> nibbles (take n ns)" "nibbles ns \<Longrightarrow> nibbles (drop n ns)"
  by (auto simp: nibbles_def dest: in_set_takeD in_set_dropD)

lemma nibbles_hasTerm: "nibbles ns \<Longrightarrow> \<not> hasTerm ns"
  by (auto simp: nibbles_def hasTerm_def dest!: last_in_set)

definition join :: "byte \<Rightarrow> byte \<Rightarrow> byte" where
  "join x y = push_bit 4 x OR y"

lemma join_split: "join (b div 16) (b mod 16) = b"
proof -
  have "b div 16 = drop_bit 4 b" "b mod 16 = take_bit 4 b" by (simp_all add: drop_bit_eq_div take_bit_eq_mod)
  moreover have "push_bit 4 (drop_bit 4 b) OR take_bit 4 b = b"
    by (rule bit_word_eqI) (auto simp: bit_simps)
  ultimately show ?thesis by (simp add: join_def)
qed

lemma split_join:
  assumes "x < 16" "y < 16"
  shows "join x y div 16 = x" "join x y mod 16 = y"
proof -
  have t: "take_bit 4 x = x" "take_bit 4 y = y"
    using assms by (simp_all add: take_bit_eq_mod word_less_nat_alt word_unat_eq_iff unat_mod)
  have b: "bit x n \<Longrightarrow> n < 4" "bit y n \<Longrightarrow> n < 4" for n
    using t bit_take_bit_iff [of 4 x n] bit_take_bit_iff [of 4 y n] by auto
  have "drop_bit 4 (join x y) = x"
    by (rule bit_word_eqI) (auto simp: join_def bit_simps dest: b)
  moreover have "take_bit 4 (join x y) = y"
    by (rule bit_word_eqI) (auto simp: join_def bit_simps dest: b)
  ultimately have "drop_bit 4 (join x y) = x" "take_bit 4 (join x y) = y" by simp_all
  then show "join x y div 16 = x" "join x y mod 16 = y" by (simp_all add: drop_bit_eq_div take_bit_eq_mod)
qed

definition splitByte :: "byte \<Rightarrow> bytes" where
  "splitByte b = [b div 16, b mod 16]"

lemma nibble_div_mod: "(b :: byte) div 16 < 16" "b mod 16 < 16"
proof -
  have "unat b < 256" using unsigned_less [of b] by simp
  then show "b div 16 < 16" "b mod 16 < 16" by (simp_all add: word_less_nat_alt unat_div unat_mod)
qed

lemma splitByte_nibbles: "nibbles (concat (map splitByte bs))"
  by (induction bs) (simp_all add: splitByte_def nibble_div_mod)

lemma splitByte_length: "length (concat (map splitByte bs)) = 2 * length bs"
  by (induction bs) (simp_all add: splitByte_def)

lemma decodeNibbles_split: "decodeNibbles (concat (map splitByte bs)) = Ok bs"
  by (induction bs) (simp_all add: splitByte_def join_split [unfolded join_def])

lemma decodeNibbles_even:
  "nibbles ns \<Longrightarrow> even (length ns) \<Longrightarrow> \<exists>bs. decodeNibbles ns = Ok bs \<and> concat (map splitByte bs) = ns"
proof (induction ns rule: decodeNibbles.induct)
  case (3 x y ns)
  then obtain bs where "decodeNibbles ns = Ok bs" "concat (map splitByte bs) = ns" by auto
  then show ?case using 3 split_join [of x y] by (simp add: splitByte_def join_def)
qed auto

lemma keybytesToHex_split: "keybytesToHex k = concat (map splitByte k) @ [16]"
  by (simp add: keybytesToHex_def splitByte_def [abs_def])

lemma hexToKeybytes_keybytesToHex: "hexToKeybytes (keybytesToHex k) = Ok k"
  by (simp add: hexToKeybytes_def keybytesToHex_split hasTerm_def splitByte_length decodeNibbles_split)

lemma keybytesToHex_inj: "keybytesToHex a = keybytesToHex b \<longleftrightarrow> a = b"
  by (metis hexToKeybytes_keybytesToHex res.inject)

text \<open>Node keys: nibbles, closed by the terminator where a value follows.\<close>

definition nodeKey :: "bytes \<Rightarrow> bool" where
  "nodeKey k \<longleftrightarrow> nibbles k \<or> (\<exists>ns. nibbles ns \<and> k = ns @ [16])"

lemma compact_aux:
  assumes "nibbles ns"
  obtains c where "hexToCompact (ns @ (if t then [16] else [])) = Ok c" "c \<noteq> []"
    "compactToHex c = Ok (ns @ (if t then [16] else []))"
proof -
  let ?f = "push_bit 5 (if t then 1 else 0) :: byte"
  have trm: "hasTerm (ns @ (if t then [16] else [])) = t" using nibbles_hasTerm [OF assms] by (simp add: hasTerm_def)
  have butl: "(if t then butlast (ns @ (if t then [16] else [])) else ns @ (if t then [16] else [])) = ns" by simp
  show thesis
  proof (cases "odd (length ns)")
    case True
    then obtain h ns' where ns: "ns = h # ns'" by (cases ns) auto
    then obtain bs where bs: "decodeNibbles ns' = Ok bs" "concat (map splitByte bs) = ns'"
      using decodeNibbles_even [of ns'] assms True by auto
    have h: "h < 16" using assms ns by simp
    have f: "16 OR h = join 1 h" "32 OR join 1 h = join 3 h" by (simp_all add: join_def flip: or.assoc)
    have s: "splitByte (join 3 h) = [3, h]" "splitByte (join 1 h) = [1, h]" using split_join [OF _ h] by (simp_all add: splitByte_def)
    show thesis
    proof (rule that)
      show "hexToCompact (ns @ (if t then [16] else [])) = Ok (join (if t then 3 else 1) h # bs)"
        using True bs(1) unfolding hexToCompact_def trm butl by (simp add: ns f)
      show "compactToHex (join (if t then 3 else 1) h # bs) = Ok (ns @ (if t then [16] else []))"
        by (cases t) (simp_all add: compactToHex_def keybytesToHex_split s ns bs(2) butlast_append Let_def word_le_nat_alt)
    qed simp
  next
    case False
    then obtain bs where bs: "decodeNibbles ns = Ok bs" "concat (map splitByte bs) = ns"
      using decodeNibbles_even [of ns] assms by auto
    have s: "splitByte ?f = [if t then 2 else 0, 0]" by (simp add: splitByte_def)
    show thesis
    proof (rule that)
      show "hexToCompact (ns @ (if t then [16] else [])) = Ok (?f # bs)"
        using False bs(1) unfolding hexToCompact_def trm butl by (cases ns) (simp_all)
      show "compactToHex (?f # bs) = Ok (ns @ (if t then [16] else []))"
        by (simp add: compactToHex_def keybytesToHex_split s bs(2) butlast_append del: push_bit_of_1)
    qed simp
  qed
qed

lemma nodeKey_compact: "nodeKey k \<Longrightarrow> \<exists>c. hexToCompact k = Ok c \<and> compactToHex c = Ok k"
proof -
  assume "nodeKey k"
  then consider "nibbles k" | ns where "nibbles ns" "k = ns @ [16]" unfolding nodeKey_def by blast
  then show ?thesis
  proof cases
    case 1
    obtain c where "hexToCompact k = Ok c" "compactToHex c = Ok k" by (rule compact_aux [OF 1, of False]) simp
    then show ?thesis by blast
  next
    case 2
    obtain c where "hexToCompact k = Ok c" "compactToHex c = Ok k" by (rule compact_aux [OF 2(1), of True]) (simp add: 2(2))
    then show ?thesis by blast
  qed
qed

text \<open>
  C27. The compact encoding of a node key loses nothing: for every key of nibbles, with or without the
  terminator and of even or odd length, \<^verbatim>\<open>compactToHex\<close> gives back what \<^verbatim>\<open>hexToCompact\<close> was given.
\<close>

theorem compactToHex_hexToCompact:
  assumes "nodeKey k"
  shows "\<exists>c. hexToCompact k = Ok c \<and> compactToHex c = Ok k"
  by (rule nodeKey_compact [OF assms])

theorem compactToHex_hexToCompact_witness: "\<exists>c. hexToCompact [1, 2, 3, 16] = Ok c \<and> compactToHex c = Ok [1, 2, 3, 16]"
proof (rule compactToHex_hexToCompact)
  have "nibbles [1, 2, 3]" by simp
  then show "nodeKey [1, 2, 3, 16]" unfolding nodeKey_def by (intro disjI2 exI [of _ "[1, 2, 3]"]) simp
qed

end
