(* ===== verification/PureTrie.thy ===== *)
theory PureTrie
  imports TrieKeys
begin

text \<open>
  The reference the trie is compared with: tries in memory without hashes and cache flags, what they
  map keys to, and their minimal form. In minimal form a trie is determined by its contents.
\<close>

section \<open>Tries\<close>

datatype ptree = PNil | PVal bytes | PShort bytes ptree | PFull "ptree list"

function pget :: "ptree \<Rightarrow> bytes \<Rightarrow> bytes option" where
  "pget PNil key = None"
| "pget (PVal v) key = Some v"
| "pget (PShort k c) key = (if take (length k) key = k then pget c (drop (length k) key) else None)"
| "pget (PFull cs) key =
     (case key of [] \<Rightarrow> None | x # key' \<Rightarrow> if unat x < length cs then pget (cs ! unat x) key' else None)"
  by pat_completeness auto
termination
proof (relation "measure (\<lambda>(t, _). size t)")
  fix cs :: "ptree list" and key :: bytes and x :: byte and key'
  assume "unat x < length cs"
  then have "size (cs ! unat x) < Suc (size_list size cs)"
    using size_list_estimation' [of "cs ! unat x" cs "size (cs ! unat x)" size] by simp
  then show "((cs ! unat x, key'), PFull cs, key) \<in> measure (\<lambda>(t, _). size t)" by simp
qed auto

text \<open>Keys with the terminator: no valid key is a proper prefix of another.\<close>

definition validKey :: "bytes \<Rightarrow> bool" where
  "validKey k \<longleftrightarrow> (\<exists>ns. nibbles ns \<and> k = ns @ [16])"

lemma validKey_Nil [simp]: "\<not> validKey []"
  by (simp add: validKey_def)

lemma validKey_Cons: "validKey (x # k) \<longleftrightarrow> (x = 16 \<and> k = []) \<or> (x < 16 \<and> validKey k)"
  by (auto simp: validKey_def Cons_eq_append_conv)

lemma validKey_append: "nibbles ns \<Longrightarrow> validKey (ns @ k) \<longleftrightarrow> validKey k"
  by (induction ns) (auto simp: validKey_Cons)

lemma validKey_keybytesToHex [simp]: "validKey (keybytesToHex k)"
  using splitByte_nibbles [of k] by (auto simp: validKey_def keybytesToHex_split)

text \<open>
  Minimal form, for the subtries below which at least the terminator of a key is missing: no empty
  short key, no short node below a short node, at least two children in a full node, no empty value.
\<close>

definition leaf :: "ptree \<Rightarrow> bool" where
  "leaf t \<longleftrightarrow> (\<exists>v. t = PVal v \<and> v \<noteq> [])"

lemma size_take [termination_simp]: "c \<in> set (take n cs) \<Longrightarrow> size c < Suc (size_list size cs)"
  using size_list_estimation' [of c cs "size c" size] by (auto dest!: in_set_takeD)

fun minimal :: "ptree \<Rightarrow> bool" where
  "minimal (PShort k c) \<longleftrightarrow> (validKey k \<and> leaf c) \<or> (k \<noteq> [] \<and> nibbles k \<and> (case c of PFull _ \<Rightarrow> True | _ \<Rightarrow> False) \<and> minimal c)"
| "minimal (PFull cs) \<longleftrightarrow>
     length cs = 17 \<and> (\<forall>c \<in> set (take 16 cs). c = PNil \<or> minimal c) \<and> (cs ! 16 = PNil \<or> leaf (cs ! 16)) \<and>
     2 \<le> length (filter (\<lambda>c. c \<noteq> PNil) cs)"
| "minimal _ \<longleftrightarrow> False"

definition minimalRoot :: "ptree \<Rightarrow> bool" where
  "minimalRoot t \<longleftrightarrow> t = PNil \<or> minimal t"

section \<open>Common prefixes\<close>

lemma prefix_cases:
  fixes key k :: bytes
  obtains (all) r where "key = k @ r" "prefixLen key k = length k"
  | (inside) y s where "k = key @ y # s" "prefixLen key k = length key"
  | (diff) p x r y s where "key = p @ x # r" "k = p @ y # s" "x \<noteq> y" "prefixLen key k = length p"
proof (induction key k arbitrary: thesis rule: prefixLen.induct [case_names step left_nil right_nil])
  case (step x a y b)
  show ?case
  proof (cases "x = y")
    case False
    then show ?thesis using step(4) [of "[]" x a y b] by simp
  next
    case True
    show ?thesis
    proof (rule step(1) [OF True])
      show thesis if "a = b @ r" "prefixLen a b = length b" for r using that step(2) [of r] True by simp
      show thesis if "b = a @ z # s" "prefixLen a b = length a" for z s using that step(3) [of z s] True by simp
      show thesis if "a = p @ u # r" "b = p @ z # s" "u \<noteq> z" "prefixLen a b = length p" for p u r z s
        using that step(4) [of "x # p" u r z s] True by simp
    qed
  qed
next
  case (left_nil b)
  then show ?case by (cases b) auto
next
  case (right_nil a)
  then show ?case by simp
qed

lemma validKey_prefix: "validKey k \<Longrightarrow> validKey (k @ r) \<longleftrightarrow> r = []"
  by (induction k) (auto simp: validKey_Cons)

lemma validKey_take: "validKey k \<Longrightarrow> validKey key \<Longrightarrow> take (length k) key = k \<longleftrightarrow> key = k"
  by (metis append_take_drop_id validKey_prefix append.right_neutral take_all_iff order_refl)

lemma nibble_index: "(x :: byte) < 16 \<Longrightarrow> unat x < 16"
  by (simp add: word_less_nat_alt)

lemma nibble_of_nat: "i < 16 \<Longrightarrow> unat (of_nat i :: byte) = i \<and> (of_nat i :: byte) < 16"
proof -
  assume i: "i < 16"
  then have "take_bit 8 i = i" by (simp add: take_bit_nat_eq_self_iff)
  then show ?thesis using i by (simp add: unsigned_of_nat word_less_nat_alt)
qed

lemma validKey_hd: "validKey (x # k) \<Longrightarrow> unat x < 17"
  by (auto simp: validKey_Cons dest: nibble_index)

section \<open>What a minimal trie holds\<close>

definition keysOf :: "ptree \<Rightarrow> bytes set" where
  "keysOf t = {k. validKey k \<and> pget t k \<noteq> None}"

lemma keysOf_PFull:
  "length cs = 17 \<Longrightarrow> x # k \<in> keysOf (PFull cs) \<longleftrightarrow>
     (x = 16 \<and> k = [] \<and> pget (cs ! 16) [] \<noteq> None) \<or> (x < 16 \<and> k \<in> keysOf (cs ! unat x))"
  using validKey_hd [of x k] by (auto simp: keysOf_def validKey_Cons)

lemma two_children:
  assumes "2 \<le> length (filter P cs)"
  obtains i j where "i < j" "j < length cs" "P (cs ! i)" "P (cs ! j)"
proof -
  have "filter P cs = map ((!) cs) (filter (\<lambda>i. P (cs ! i)) [0..<length cs])"
    by (metis filter_map map_nth comp_apply filter_cong)
  then have l: "2 \<le> length (filter (\<lambda>i. P (cs ! i)) [0..<length cs])" (is "2 \<le> length ?is") using assms by simp
  have s: "sorted_wrt (<) ?is" by (rule sorted_wrt_filter) simp
  obtain a is1 where 1: "?is = a # is1" using l by (cases ?is) auto
  obtain b is2 where 2: "is1 = b # is2" using l 1 by (cases is1) auto
  have "a < b" using s by (simp add: 1 2)
  moreover have "a \<in> set ?is" "b \<in> set ?is" by (simp_all add: 1 2)
  ultimately show thesis using that by auto
qed

lemma minimal_child:
  assumes "minimal (PFull cs)" "i < 17" "cs ! i \<noteq> PNil"
  shows "i = 16 \<and> leaf (cs ! 16) \<or> i < 16 \<and> minimal (cs ! i)"
proof (cases "i < 16")
  case True
  then have "cs ! i \<in> set (take 16 cs)" using assms(1) by (auto simp: in_set_conv_nth intro!: exI [of _ i])
  then show ?thesis using assms True by auto
next
  case False
  then have "i = 16" using assms(2) by simp
  then show ?thesis using assms by auto
qed

lemma minimal_key: "minimal t \<Longrightarrow> \<exists>k. k \<in> keysOf t"
proof (induction t rule: minimal.induct)
  case (1 k c)
  then consider "validKey k" "leaf c" | "k \<noteq> []" "nibbles k" "minimal c" by auto
  then show ?case
  proof cases
    case 1
    then show ?thesis by (intro exI [of _ k]) (auto simp: keysOf_def leaf_def)
  next
    case 2
    then obtain r where "r \<in> keysOf c" using "1.IH" by blast
    then show ?thesis using 2 by (intro exI [of _ "k @ r"]) (auto simp: keysOf_def validKey_append)
  qed
next
  case (2 cs)
  from "2.prems" obtain i where i: "i < 17" "cs ! i \<noteq> PNil" by (auto elim: two_children)
  have l: "length cs = 17" using "2.prems" by simp
  from minimal_child [OF "2.prems" i] show ?case
  proof
    assume "i = 16 \<and> leaf (cs ! 16)"
    then have "[16] \<in> keysOf (PFull cs)" using keysOf_PFull [OF l, of 16 "[]"] by (auto simp: leaf_def)
    then show ?thesis by blast
  next
    assume m: "i < 16 \<and> minimal (cs ! i)"
    then have "cs ! i \<in> set (take 16 cs)" using l by (auto simp: in_set_conv_nth intro!: exI [of _ i])
    then obtain k where "k \<in> keysOf (cs ! i)" using "2.IH" m by blast
    moreover have "unat (of_nat i :: byte) = i" "(of_nat i :: byte) < 16" using m nibble_of_nat by simp_all
    ultimately have "of_nat i # k \<in> keysOf (PFull cs)" using keysOf_PFull [OF l, of "of_nat i" k] by simp
    then show ?thesis by blast
  qed
qed simp_all

lemma child_key:
  assumes "minimal (PFull cs)" "i < 17" "cs ! i \<noteq> PNil"
  obtains x k where "x # k \<in> keysOf (PFull cs)" "unat x = i"
proof -
  have l: "length cs = 17" using assms(1) by simp
  from minimal_child [OF assms] consider "i = 16" "leaf (cs ! 16)" | "i < 16" "minimal (cs ! i)" by blast
  then show thesis
  proof cases
    case 1
    then have "[16] \<in> keysOf (PFull cs)" using keysOf_PFull [OF l, of 16 "[]"] by (auto simp: leaf_def)
    then show thesis using that 1 by simp
  next
    case 2
    then obtain k where "k \<in> keysOf (cs ! i)" using minimal_key by blast
    then have "of_nat i # k \<in> keysOf (PFull cs)" using keysOf_PFull [OF l, of "of_nat i" k] nibble_of_nat [OF 2(1)] by simp
    then show thesis using that nibble_of_nat [OF 2(1)] by simp
  qed
qed

lemma two_heads:
  assumes "minimal (PFull cs)"
  obtains x k y k' where "x # k \<in> keysOf (PFull cs)" "y # k' \<in> keysOf (PFull cs)" "x \<noteq> y"
proof -
  from assms obtain i j where "i < j" "j < 17" "cs ! i \<noteq> PNil" "cs ! j \<noteq> PNil" by (auto elim!: two_children)
  then show thesis using child_key [OF assms, of i] child_key [OF assms, of j] that by (metis less_trans less_irrefl)
qed

lemma keysOf_cong: "\<forall>k. validKey k \<longrightarrow> pget t k = pget t' k \<Longrightarrow> keysOf t = keysOf t'"
  by (auto simp: keysOf_def)

lemma keysOf_PShort: "x \<in> keysOf (PShort k c) \<longleftrightarrow> (\<exists>r. x = k @ r \<and> validKey x \<and> pget c r \<noteq> None)"
proof
  assume "x \<in> keysOf (PShort k c)"
  then have "take (length k) x = k" "validKey x" "pget c (drop (length k) x) \<noteq> None" by (auto simp: keysOf_def split: if_splits)
  then show "\<exists>r. x = k @ r \<and> validKey x \<and> pget c r \<noteq> None" by (metis append_take_drop_id)
qed (auto simp: keysOf_def)

lemma keysOf_leaf: "validKey k \<Longrightarrow> leaf c \<Longrightarrow> keysOf (PShort k c) = {k}"
  by (rule set_eqI) (auto simp: keysOf_PShort leaf_def validKey_prefix)

lemma keysOf_ext: "nibbles k \<Longrightarrow> keysOf (PShort k c) = (\<lambda>r. k @ r) ` keysOf c"
  by (rule set_eqI) (auto simp: keysOf_PShort keysOf_def [of c] validKey_append)

section \<open>The minimal form is determined by the contents\<close>

lemma same_prefix:
  assumes "minimal c" "c = PFull cs" "minimal c'" "c' = PFull cs'" "(\<lambda>r. k @ r) ` keysOf c = (\<lambda>r. k' @ r) ` keysOf c'"
  shows "k = k'"
proof -
  have le: "length k \<le> length k'"
    if M: "minimal c'" "c' = PFull cs'" "(\<lambda>r. k @ r) ` keysOf c = (\<lambda>r. k' @ r) ` keysOf c'" for k k' c c' cs'
  proof (rule ccontr)
    assume "\<not> length k \<le> length k'"
    then have lt: "length k' < length k" by simp
    obtain x r y r' where h: "x # r \<in> keysOf c'" "y # r' \<in> keysOf c'" "x \<noteq> y" using two_heads M(1,2) by metis
    have "(k @ s) ! length k' = k ! length k'" for s using lt by (simp add: nth_append)
    moreover have "\<exists>s. k' @ x # r = k @ s" "\<exists>s. k' @ y # r' = k @ s" using h M(3) by blast+
    ultimately show False using h(3) by (metis nth_append_length)
  qed
  have l: "length k = length k'" using le [OF assms(3,4,5)] le [OF assms(1,2) assms(5) [symmetric]] by simp
  obtain r where "r \<in> keysOf c" using minimal_key assms(1) by blast
  then obtain r' where "k @ r = k' @ r'" using assms(5) by blast
  then show ?thesis using l by simp
qed

lemma minimal_unique:
  "minimal t \<Longrightarrow> minimal t' \<Longrightarrow> \<forall>k. validKey k \<longrightarrow> pget t k = pget t' k \<Longrightarrow> t = t'"
proof (induction t arbitrary: t' rule: minimal.induct)
  case (1 k c)
  have ks: "keysOf (PShort k c) = keysOf t'" using keysOf_cong "1.prems"(3) by blast
  have hd: "\<forall>x \<in> keysOf (PShort k c). x \<noteq> [] \<and> hd x = hd k" using "1.prems"(1) by (cases k) (auto simp: keysOf_PShort)
  obtain k' c' where t': "t' = PShort k' c'"
  proof (cases t')
    case (PFull cs)
    then show thesis using two_heads [of cs] "1.prems"(2) ks hd by (metis list.sel(1))
  qed (use "1.prems"(2) in auto)
  from "1.prems"(1) consider "validKey k" "leaf c" | cs where "k \<noteq> []" "nibbles k" "c = PFull cs" "minimal c"
    by (cases c) auto
  note C = this
  from "1.prems"(2) t' consider "validKey k'" "leaf c'" | cs where "k' \<noteq> []" "nibbles k'" "c' = PFull cs" "minimal c'"
    by (cases c') auto
  note C' = this
  from C show ?case
  proof cases
    case L: 1
    from C' show ?thesis
    proof cases
      case L': 1
      then have "k = k'" using keysOf_leaf ks L t' by auto
      moreover have "pget (PShort k c) k = pget t' k" using "1.prems"(3) [rule_format, OF L(1)] .
      ultimately show ?thesis using L L' t' by (auto simp: leaf_def)
    next
      case 2
      then obtain x r y r' where "k' @ x # r \<in> keysOf t'" "k' @ y # r' \<in> keysOf t'" "x \<noteq> y"
        using two_heads [of cs] t' keysOf_ext [of k' c'] by (metis imageI)
      then show ?thesis using ks keysOf_leaf [OF L] by (metis singletonD same_append_eq list.inject)
    qed
  next
    case E: 2
    from C' show ?thesis
    proof cases
      case L': 1
      obtain x r y r' where "k @ x # r \<in> keysOf t'" "k @ y # r' \<in> keysOf t'" "x \<noteq> y"
        using two_heads [of cs] E keysOf_ext [of k c] ks by (metis imageI)
      then show ?thesis using keysOf_leaf [OF L'] t' by (metis singletonD same_append_eq list.inject)
    next
      case E': (2 cs')
      have "(\<lambda>r. k @ r) ` keysOf c = (\<lambda>r. k' @ r) ` keysOf c'" using ks t' keysOf_ext E E' by simp
      from same_prefix [OF E(4,3) E'(4,3) this] have k: "k = k'" .
      have "pget c r = pget c' r" if "validKey r" for r
        using "1.prems"(3) [rule_format, of "k @ r"] that E(2) by (simp add: t' k [symmetric] validKey_append)
      then have "c = c'" using "1.IH" E E'(4) by blast
      then show ?thesis using t' k by simp
    qed
  qed
next
  case (2 cs)
  have ks: "keysOf (PFull cs) = keysOf t'" using keysOf_cong "2.prems"(3) by blast
  obtain cs' where t': "t' = PFull cs'"
  proof (cases t')
    case (PShort k c)
    then have "\<forall>x \<in> keysOf t'. x \<noteq> [] \<and> hd x = hd k" using "2.prems"(2) by (cases k) (auto simp: keysOf_PShort)
    then show thesis using two_heads [of cs] "2.prems"(1) ks by (metis list.sel(1))
  qed (use "2.prems"(2) in auto)
  have l: "length cs = 17" "length cs' = 17" using "2.prems" t' by simp_all
  have "cs ! i = cs' ! i" if i: "i < 17" for i
  proof (cases "i < 16")
    case True
    note n = nibble_of_nat [OF True]
    have p: "pget (cs ! i) k = pget (cs' ! i) k" if "validKey k" for k
      using "2.prems"(3) [rule_format, of "of_nat i # k"] that n i l by (simp add: t' validKey_Cons)
    have m: "cs ! i = PNil \<or> minimal (cs ! i)" "cs' ! i = PNil \<or> minimal (cs' ! i)"
      using minimal_child [of cs i] minimal_child [of cs' i] "2.prems"(1,2) t' True i by auto
    have "cs ! i \<in> set (take 16 cs)" using True l by (auto simp: in_set_conv_nth intro!: exI [of _ i])
    then show ?thesis using "2.IH" [of "cs ! i" "cs' ! i"] m p minimal_key [of "cs ! i"] minimal_key [of "cs' ! i"]
      by (auto simp: keysOf_def)
  next
    case False
    then have i: "i = 16" using i by simp
    have v: "validKey [16]" by (simp add: validKey_Cons)
    have "pget (cs ! 16) [] = pget (cs' ! 16) []" using "2.prems"(3) [rule_format, OF v] l by (simp add: t')
    then show ?thesis using "2.prems"(1,2) t' by (auto simp: i leaf_def)
  qed
  then show ?case unfolding t' using l by (simp add: list_eq_iff_nth_eq)
qed simp_all

end
