(* ===== verification/PureTrieOps.thy ===== *)
theory PureTrieOps
  imports PureTrie
begin

text \<open>
  Insertion and deletion on the reference tries, as updates of the map a trie stands for that keep the
  minimal form.
\<close>

section \<open>Insertion\<close>

definition mk :: "bytes \<Rightarrow> ptree \<Rightarrow> ptree" where
  "mk k c = (if k = [] then c else PShort k c)"

definition branch :: "byte \<Rightarrow> ptree \<Rightarrow> byte \<Rightarrow> ptree \<Rightarrow> ptree" where
  "branch y a x b = PFull ((replicate 17 PNil)[unat y := a, unat x := b])"

function pins :: "ptree \<Rightarrow> bytes \<Rightarrow> bytes \<Rightarrow> ptree" where
  "pins PNil key v = mk key (PVal v)"
| "pins (PVal w) key v = (if key = [] then PVal v else PVal w)"
| "pins (PShort k c) key v =
     (let m = prefixLen key k in
      if m = length k then PShort k (pins c (drop m key) v)
      else mk (take m key) (branch (k ! m) (mk (drop (m + 1) k) c) (key ! m) (mk (drop (m + 1) key) (PVal v))))"
| "pins (PFull cs) key v =
     (case key of
        [] \<Rightarrow> PVal v
      | x # key' \<Rightarrow> if unat x < length cs then PFull (cs[unat x := pins (cs ! unat x) key' v]) else PFull cs)"
  by pat_completeness auto
termination
proof (relation "measure (\<lambda>(t, _). size t)")
  fix cs :: "ptree list" and key v :: bytes and x :: byte and key'
  assume "unat x < length cs"
  then show "((cs ! unat x, key', v), PFull cs, key, v) \<in> measure (\<lambda>(t, _). size t)"
    using size_list_estimation' [of "cs ! unat x" cs "size (cs ! unat x)" size] by simp
qed auto

lemma unat_inj [simp]: "unat (x :: byte) = unat y \<longleftrightarrow> x = y"
  by (simp add: word_unat_eq_iff)

lemma pget_mk: "pget (mk k c) key = (if take (length k) key = k then pget c (drop (length k) key) else None)"
  by (simp add: mk_def)

lemma pget_branch:
  assumes "x \<noteq> y" "unat x < 17" "unat y < 17"
  shows "pget (branch y a x b) (z # key) = (if z = x then pget b key else if z = y then pget a key else None)"
  using assms by (auto simp: branch_def nth_list_update)

text \<open>What follows the terminator is the value.\<close>

lemma validKey_tail: "validKey (p @ x # r) \<Longrightarrow> nibbles p \<and> (x = 16 \<and> r = [] \<or> x < 16 \<and> validKey r)"
  by (induction p) (auto simp: validKey_Cons)

lemma nibbles_split: "nibbles (p @ y # s) \<Longrightarrow> nibbles p \<and> y < 16 \<and> nibbles s"
  by simp

lemma split_keys:
  assumes "validKey key" "minimal (PShort k c)"
  obtains (same) "key = k" "leaf c" "prefixLen key k = length k"
  | (below) r cs where "key = k @ r" "validKey r" "nibbles k" "c = PFull cs" "minimal c" "prefixLen key k = length k"
  | (diff) p x r y s where "key = p @ x # r" "k = p @ y # s" "x \<noteq> y" "prefixLen key k = length p" "nibbles p"
      "unat x < 17" "unat y < 17" "x = 16 \<and> r = [] \<or> x < 16 \<and> validKey r"
      "y = 16 \<and> s = [] \<and> leaf c \<or> y < 16 \<and> (validKey s \<and> leaf c \<or> nibbles s \<and> minimal c \<and> (\<exists>cs. c = PFull cs))"
proof -
  from assms(2) consider (l) "validKey k" "leaf c" | (e) cs where "k \<noteq> []" "nibbles k" "c = PFull cs" "minimal c"
    by (cases c) auto
  note K = this
  show thesis
  proof (cases key k rule: prefix_cases)
    case (all r)
    from K show thesis
    proof cases
      case l
      then have "r = []" using assms(1) all validKey_prefix by simp
      then show thesis using same l all by simp
    next
      case e
      then show thesis using below [OF all(1) _ e(2,3,4) all(2)] assms(1) all(1) validKey_append by simp
    qed
  next
    case (inside y s)
    from K show thesis
    proof cases
      case l
      then show thesis using inside assms(1) validKey_prefix [of key "y # s"] by simp
    next
      case e
      then have "nibbles key" using inside by simp
      then show thesis using assms(1) validKey_append [of key "[]"] by simp
    qed
  next
    case (diff p x r y s)
    have 1: "nibbles p" "x = 16 \<and> r = [] \<or> x < 16 \<and> validKey r" using validKey_tail assms(1) diff(1) by simp_all
    have 2: "y = 16 \<and> s = [] \<and> leaf c \<or> y < 16 \<and> (validKey s \<and> leaf c \<or> nibbles s \<and> minimal c \<and> (\<exists>cs. c = PFull cs))"
      using K
    proof cases
      case l
      then show ?thesis using validKey_tail [of p y s] diff(2) by auto
    next
      case e
      then show ?thesis using diff(2) by simp
    qed
    have "unat x < 17" "unat y < 17" using 1(2) 2 by (auto dest: nibble_index)
    then show thesis using that(3) [OF diff] 1 2 by blast
  qed
qed

lemma minimal_mk:
  "validKey s \<and> leaf c \<or> nibbles s \<and> minimal c \<and> (\<exists>cs. c = PFull cs) \<Longrightarrow> minimal (mk s c)"
  by (auto simp: mk_def)

lemma minimal_branch:
  assumes "x \<noteq> y" "unat x < 17" "unat y < 17" "y = 16 \<and> leaf a \<or> y < 16 \<and> minimal a" "x = 16 \<and> leaf b \<or> x < 16 \<and> minimal b"
  shows "minimal (branch y a x b)"
proof -
  let ?cs = "(replicate 17 PNil)[unat y := a, unat x := b]"
  have ne: "a \<noteq> PNil" "b \<noteq> PNil" using assms(4,5) by (auto simp: leaf_def)
  have u: "unat x \<noteq> unat y" using assms(1) by simp
  have nth: "?cs ! i = (if i = unat x then b else if i = unat y then a else PNil)" if "i < 17" for i
    using that assms(2,3) by (simp add: nth_list_update)
  have "?cs ! 16 = PNil \<or> leaf (?cs ! 16)"
    using assms(4,5) nth [of 16] by (auto dest: nibble_index)
  moreover have "c = PNil \<or> minimal c" if c: "c \<in> set (take 16 ?cs)" for c
  proof -
    from c obtain i where "i < 16" "c = ?cs ! i" by (auto simp: in_set_conv_nth)
    then show ?thesis using nth [of i] assms(4,5) by auto
  qed
  moreover have "2 \<le> length (filter (\<lambda>c. c \<noteq> PNil) ?cs)"
  proof -
    have "?cs ! unat x = b" "?cs ! unat y = a" using nth [OF assms(2)] nth [OF assms(3)] assms(1) by simp_all
    then have "{unat x, unat y} \<subseteq> {i. i < 17 \<and> ?cs ! i \<noteq> PNil}" using assms(2,3) ne by simp
    then have "card {unat x, unat y} \<le> card {i. i < 17 \<and> ?cs ! i \<noteq> PNil}" by (rule card_mono [rotated]) simp
    then show ?thesis using u by (simp add: length_filter_conv_card)
  qed
  ultimately show ?thesis by (simp add: branch_def)
qed

lemma pins_cases:
  "prefixLen key k = length k \<Longrightarrow> key = k @ r \<Longrightarrow> pins (PShort k c) key v = PShort k (pins c r v)"
  "x \<noteq> y \<Longrightarrow> prefixLen (p @ x # r) (p @ y # s) = length p \<Longrightarrow> pins (PShort (p @ y # s) c) (p @ x # r) v = mk p (branch y (mk s c) x (mk r (PVal v)))"
  by (simp_all add: Let_def)

lemma pins_leaf: "pins t [] v = PVal v \<or> (\<exists>k c. t = PShort k c)"
  by (cases t) (auto simp: mk_def)

lemma minimal_list_update:
  assumes "minimal (PFull cs)" "i < 17" "i = 16 \<and> leaf c \<or> i < 16 \<and> minimal c"
  shows "minimal (PFull (cs[i := c]))"
proof -
  have l: "length cs = 17" using assms(1) by simp
  have ne: "c \<noteq> PNil" using assms(3) by (auto simp: leaf_def)
  have "d = PNil \<or> minimal d" if "d \<in> set (take 16 (cs[i := c]))" for d
  proof -
    from that obtain j where "j < 16" "d = cs[i := c] ! j" by (auto simp: in_set_conv_nth)
    then show ?thesis using assms l minimal_child [OF assms(1), of j] by (cases "i = j") auto
  qed
  moreover have "cs[i := c] ! 16 = PNil \<or> leaf (cs[i := c] ! 16)" using assms l by (cases "i = 16") auto
  moreover have "2 \<le> length (filter (\<lambda>c. c \<noteq> PNil) (cs[i := c]))"
  proof -
    have "{j. j < 17 \<and> cs ! j \<noteq> PNil} \<subseteq> {j. j < 17 \<and> cs[i := c] ! j \<noteq> PNil}" using l ne assms(2) by (auto simp: nth_list_update)
    then have "card {j. j < 17 \<and> cs ! j \<noteq> PNil} \<le> card {j. j < 17 \<and> cs[i := c] ! j \<noteq> PNil}" by (rule card_mono [rotated]) simp
    then show ?thesis using assms(1) l by (simp add: length_filter_conv_card)
  qed
  ultimately show ?thesis using l by simp
qed

lemma pins_minimal: "minimal t \<or> t = PNil \<Longrightarrow> validKey key \<Longrightarrow> v \<noteq> [] \<Longrightarrow> minimal (pins t key v)"
proof (induction t key v rule: pins.induct)
  case (1 key v)
  then show ?case by (cases key) (auto simp: mk_def leaf_def)
next
  case (2 w key v)
  then show ?case by simp
next
  case (3 k c key v)
  have m: "minimal (PShort k c)" using 3 by simp
  from 3(3) m show ?case
  proof (cases rule: split_keys)
    case same
    then show ?thesis using 3(3,4) pins_cases(1) [of key k "[]" c v] pins_leaf [of c v] by (auto simp: leaf_def)
  next
    case (below r cs)
    then have "minimal (pins c r v)" using 3(1) [OF refl] 3(4) by simp
    moreover have "\<exists>cs. pins c r v = PFull cs" using below by (cases r) auto
    ultimately show ?thesis using below pins_cases(1) [of key k r c v] 3(2) by auto
  next
    case (diff p x r y s)
    have a: "y = 16 \<and> leaf (mk s c) \<or> y < 16 \<and> minimal (mk s c)" using diff(9) minimal_mk by (auto simp: mk_def)
    have b: "x = 16 \<and> leaf (mk r (PVal v)) \<or> x < 16 \<and> minimal (mk r (PVal v))"
      using diff(8) 3(4) minimal_mk [of r "PVal v"] by (auto simp: mk_def leaf_def)
    have "minimal (branch y (mk s c) x (mk r (PVal v)))" by (rule minimal_branch [OF diff(3,6,7) a b])
    then show ?thesis using diff pins_cases(2) [OF diff(3), of p r s c v] minimal_mk [of p] by (simp add: branch_def)
  qed
next
  case (4 cs key v)
  then obtain x r where k: "key = x # r" by (cases key) auto
  have m: "minimal (PFull cs)" and l: "length cs = 17" using 4(2) by simp_all
  have x: "x = 16 \<and> r = [] \<or> x < 16 \<and> validKey r" "unat x < 17" using 4(3) validKey_hd [of x r] by (auto simp: k validKey_Cons)
  show ?case
  proof (cases "x = 16")
    case True
    then have "leaf (pins (cs ! 16) r v)" using x m 4(4) pins_leaf [of "cs ! 16" v] by (auto simp: leaf_def)
    then show ?thesis using minimal_list_update [OF m x(2), of "pins (cs ! unat x) r v"] True l by (simp add: k)
  next
    case False
    then have x': "x < 16" "validKey r" using x by auto
    then have "cs ! unat x = PNil \<or> minimal (cs ! unat x)" using minimal_child [OF m x(2)] nibble_index [OF x'(1)] by auto
    then have "minimal (pins (cs ! unat x) r v)" using 4(1) [OF k] l x x'(2) 4(4) by auto
    then show ?thesis using minimal_list_update [OF m x(2), of "pins (cs ! unat x) r v"] nibble_index [OF x'(1)] l x(2) by (simp add: k)
  qed
qed

lemma take_prefix: "take (length (p @ s)) key = p @ s \<Longrightarrow> take (length p) key = p"
proof -
  assume "take (length (p @ s)) key = p @ s"
  from arg_cong [OF this, of "take (length p)"] show ?thesis by simp
qed

lemma pget_pins:
  "minimal t \<or> t = PNil \<Longrightarrow> validKey key \<Longrightarrow> validKey key' \<Longrightarrow>
   pget (pins t key v) key' = (if key' = key then Some v else pget t key')"
proof (induction t key v arbitrary: key' rule: pins.induct)
  case (1 key v)
  then show ?case using validKey_take by (simp add: pget_mk)
next
  case (2 w key v)
  then show ?case by simp
next
  case (3 k c key v)
  have m: "minimal (PShort k c)" using 3 by simp
  from 3(3) m show ?case
  proof (cases rule: split_keys)
    case same
    then have "pins (PShort k c) key v = PShort k (PVal v)" using pins_leaf [of c v] by (auto simp: leaf_def)
    then show ?thesis using same(1) validKey_take 3(3,4) by simp
  next
    case (below r cs)
    show ?thesis
    proof (cases "take (length k) key' = k")
      case True
      define r' where "r' = drop (length k) key'"
      have k': "key' = k @ r'" using True unfolding r'_def by (metis append_take_drop_id)
      have "validKey r'" using 3(4) validKey_append [OF below(3)] by (simp add: k')
      then have "pget (pins c r v) r' = (if r' = r then Some v else pget c r')" using 3(1) [OF refl] below by simp
      then show ?thesis using pins_cases(1) [OF below(6,1)] by (simp add: k' below(1) del: pins.simps)
    next
      case False
      then show ?thesis using pins_cases(1) [OF below(6,1)] below(1) by (auto simp del: pins.simps)
    qed
  next
    case (diff p x r y s)
    have e: "pins (PShort k c) key v = mk p (branch y (mk s c) x (mk r (PVal v)))"
      using pins_cases(2) [OF diff(3)] diff(1,2,4) by simp
    show ?thesis
    proof (cases "take (length p) key' = p")
      case True
      define q where "q = drop (length p) key'"
      have k': "key' = p @ q" using True unfolding q_def by (metis append_take_drop_id)
      have q: "validKey q" using 3(4) validKey_append [OF diff(5)] by (simp add: k')
      then obtain z q' where z: "q = z # q'" by (cases q) auto
      have "take (length r) q' = r \<longleftrightarrow> q' = r" if "z = x"
        using diff(8) q that validKey_take [of r q'] by (auto simp: z validKey_Cons)
      then show ?thesis unfolding e using diff(3,6,7) by (auto simp: k' z pget_mk pget_branch diff(1,2) simp del: pins.simps)
    next
      case False
      then have "take (length k) key' \<noteq> k" "key' \<noteq> key" using take_prefix [of p "y # s" key'] diff(1,2) by auto
      then show ?thesis unfolding e using False by (simp add: pget_mk)
    qed
  qed
next
  case (4 cs key v)
  then obtain x r where k: "key = x # r" by (cases key) auto
  obtain y r' where k': "key' = y # r'" using 4(4) by (cases key') auto
  have m: "minimal (PFull cs)" and l: "length cs = 17" using 4(2) by simp_all
  have x: "x = 16 \<and> r = [] \<or> x < 16 \<and> validKey r" "unat x < 17" using 4(3) validKey_hd [of x r] by (auto simp: k validKey_Cons)
  have y: "y = 16 \<and> r' = [] \<or> y < 16 \<and> validKey r'" "unat y < 17" using 4(4) validKey_hd [of y r'] by (auto simp: k' validKey_Cons)
  have "pget (pins (cs ! unat x) r v) r' = (if r' = r then Some v else pget (cs ! unat x) r')" if "y = x"
  proof (cases "x = 16")
    case True
    then have "r = []" "r' = []" "cs ! 16 = PNil \<or> leaf (cs ! 16)" using x y that m by auto
    then show ?thesis using pins_leaf [of "cs ! 16" v] True by (auto simp: leaf_def)
  next
    case False
    then have x': "x < 16" "validKey r" "validKey r'" using x y that by auto
    then have "cs ! unat x = PNil \<or> minimal (cs ! unat x)" using minimal_child [OF m x(2)] nibble_index [OF x'(1)] by auto
    then show ?thesis using 4(1) [OF k] l x(2) x' by auto
  qed
  then show ?case using l x(2) y(2) by (auto simp: k k' nth_list_update)
qed

section \<open>Deletion\<close>

definition present :: "ptree list \<Rightarrow> nat list" where
  "present cs = filter (\<lambda>i. cs ! i \<noteq> PNil) [0..<length cs]"

text \<open>A full node with one child left becomes a short node, merged with a short node below.\<close>

definition collapse :: "ptree list \<Rightarrow> ptree" where
  "collapse cs =
     (case present cs of
        [i] \<Rightarrow>
          (case cs ! i of
             PShort ck c \<Rightarrow> if i \<noteq> 16 then PShort (of_nat i # ck) c else PShort [of_nat i] (cs ! i)
           | c \<Rightarrow> PShort [of_nat i] c)
      | _ \<Rightarrow> PFull cs)"

definition joinShort :: "bytes \<Rightarrow> ptree \<Rightarrow> ptree" where
  "joinShort k t = (case t of PShort ck c \<Rightarrow> PShort (k @ ck) c | _ \<Rightarrow> PShort k t)"

function pdel :: "ptree \<Rightarrow> bytes \<Rightarrow> ptree" where
  "pdel PNil key = PNil"
| "pdel (PVal v) key = PNil"
| "pdel (PShort k c) key =
     (let m = prefixLen key k in
      if m < length k then PShort k c
      else if m = length key then PNil
      else joinShort k (pdel c (drop (length k) key)))"
| "pdel (PFull cs) key =
     (case key of
        [] \<Rightarrow> PFull cs
      | x # key' \<Rightarrow> if unat x < length cs then collapse (cs[unat x := pdel (cs ! unat x) key']) else PFull cs)"
  by pat_completeness auto
termination
proof (relation "measure (\<lambda>(t, _). size t)")
  fix cs :: "ptree list" and key :: bytes and x :: byte and key'
  assume "unat x < length cs"
  then show "((cs ! unat x, key'), PFull cs, key) \<in> measure (\<lambda>(t, _). size t)"
    using size_list_estimation' [of "cs ! unat x" cs "size (cs ! unat x)" size] by simp
qed auto

lemma length_present: "length (present cs) = length (filter (\<lambda>c. c \<noteq> PNil) cs)"
proof -
  have "filter (\<lambda>c. c \<noteq> PNil) cs = map ((!) cs) (present cs)"
    unfolding present_def by (metis (no_types, lifting) filter_map map_nth comp_apply filter_cong)
  then show ?thesis by simp
qed

lemma present_set: "i \<in> set (present cs) \<longleftrightarrow> i < length cs \<and> cs ! i \<noteq> PNil"
  by (auto simp: present_def)

lemma collapse_cases:
  assumes "present cs \<noteq> []"
  obtains (one) i where "present cs = [i]" "i < length cs" "cs ! i \<noteq> PNil" "\<And>j. j < length cs \<Longrightarrow> j \<noteq> i \<Longrightarrow> cs ! j = PNil"
      "collapse cs = (if i \<noteq> 16 then joinShort [of_nat i] (cs ! i) else PShort [of_nat i] (cs ! i))"
  | (many) "2 \<le> length (filter (\<lambda>c. c \<noteq> PNil) cs)" "collapse cs = PFull cs"
proof (cases "\<exists>i. present cs = [i]")
  case True
  then obtain i where i: "present cs = [i]" by blast
  have "i < length cs" "cs ! i \<noteq> PNil" using present_set [of i cs] i by simp_all
  moreover have "cs ! j = PNil" if "j < length cs" "j \<noteq> i" for j using present_set [of j cs] i that by auto
  ultimately show thesis using one [OF i] by (auto simp: collapse_def joinShort_def i split: ptree.split)
next
  case False
  then have "2 \<le> length (present cs)" using assms by (cases "present cs"; cases "tl (present cs)") auto
  moreover have "collapse cs = PFull cs" using False assms by (auto simp: collapse_def split: list.split)
  ultimately show thesis using many length_present by simp
qed

lemma pget_joinShort: "pget (joinShort k t) key = (if take (length k) key = k then pget t (drop (length k) key) else None)"
proof (cases t)
  case (PShort ck c)
  have "take (length (k @ ck)) key = k @ ck \<longleftrightarrow> take (length k) key = k \<and> take (length ck) (drop (length k) key) = ck"
  proof
    assume a: "take (length (k @ ck)) key = k @ ck"
    then have "take (length k) key = k" by (rule take_prefix)
    with a show "take (length k) key = k \<and> take (length ck) (drop (length k) key) = ck" by (simp add: take_add)
  qed (simp add: take_add)
  then show ?thesis by (simp add: PShort joinShort_def drop_drop add.commute)
qed (simp_all add: joinShort_def)

lemma pget_collapse:
  assumes "length cs = 17" "present cs \<noteq> []" "unat z < 17"
  shows "pget (collapse cs) (z # key) = pget (cs ! unat z) key"
  using assms(2)
proof (cases rule: collapse_cases)
  case (one i)
  have i: "unat (of_nat i :: byte) = i" using one(2) assms(1) by (simp add: unsigned_of_nat take_bit_nat_eq_self_iff)
  have "pget (collapse cs) (z # key) = (if z = of_nat i then pget (cs ! i) key else None)"
    using one(5) by (simp add: pget_joinShort)
  moreover have "z = of_nat i \<longleftrightarrow> unat z = i" using i by auto
  ultimately show ?thesis using one(4) [of "unat z"] assms by auto
qed (use assms in simp)

lemma minimal_joinShort: "k \<noteq> [] \<Longrightarrow> nibbles k \<Longrightarrow> minimal t \<Longrightarrow> minimal (joinShort k t)"
  by (cases t) (auto simp: joinShort_def validKey_append)

lemma minimal_collapse:
  assumes "length cs = 17" "present cs \<noteq> []" "\<And>i. i < 16 \<Longrightarrow> cs ! i = PNil \<or> minimal (cs ! i)" "cs ! 16 = PNil \<or> leaf (cs ! 16)"
  shows "minimal (collapse cs)"
  using assms(2)
proof (cases rule: collapse_cases)
  case (one i)
  show ?thesis
  proof (cases "i = 16")
    case True
    then show ?thesis using one(3,5) assms(4) by (auto simp: validKey_Cons)
  next
    case False
    then have i: "i < 16" using one(2) assms(1) by simp
    then have "minimal (cs ! i)" using one(3) assms(3) by blast
    then show ?thesis using one(5) False minimal_joinShort [of "[of_nat i]" "cs ! i"] nibble_of_nat [OF i] by simp
  qed
next
  case many
  have "\<forall>c \<in> set (take 16 cs). c = PNil \<or> minimal c" using assms(1,3) by (fastforce simp: in_set_conv_nth)
  then show ?thesis using many assms(1,4) by simp
qed

lemma present_update:
  assumes "minimal (PFull cs)" "x < 17"
  shows "present (cs[x := d]) \<noteq> []"
proof -
  have l: "length cs = 17" using assms(1) by simp
  from assms(1) obtain i j where "i < j" "j < 17" "cs ! i \<noteq> PNil" "cs ! j \<noteq> PNil" by (auto elim!: two_children)
  then obtain h where "h < 17" "cs ! h \<noteq> PNil" "h \<noteq> x" by (metis less_trans less_irrefl)
  then have "h \<in> set (present (cs[x := d]))" using l by (simp add: present_set)
  then show ?thesis by (metis list.set(1) empty_iff)
qed

lemma pdel_leaf: "c = PNil \<or> leaf c \<Longrightarrow> pdel c k = PNil"
  by (auto simp: leaf_def)

definition deletes :: "ptree \<Rightarrow> bytes \<Rightarrow> bool" where
  "deletes t key \<longleftrightarrow> (pdel t key = PNil \<or> minimal (pdel t key)) \<and>
     (\<forall>key'. validKey key' \<longrightarrow> pget (pdel t key) key' = (if key' = key then None else pget t key'))"

lemma deletes_full:
  assumes "deletes c r" "minimal c" "c = PFull cs"
  shows "minimal (pdel c r)"
proof (rule ccontr)
  assume "\<not> minimal (pdel c r)"
  then have "pdel c r = PNil" using assms(1) by (simp add: deletes_def)
  then have "pget c k = None" if "validKey k" "k \<noteq> r" for k using assms(1) that by (simp add: deletes_def) (metis pget.simps(1))
  then have "keysOf c \<subseteq> {r}" by (force simp: keysOf_def)
  then show False using two_heads [of cs] assms(2,3) by (metis singletonD subsetD list.inject)
qed

lemma pdel_deletes: "minimal t \<or> t = PNil \<Longrightarrow> validKey key \<Longrightarrow> deletes t key"
proof (induction t key rule: pdel.induct)
  case (3 k c key)
  have m: "minimal (PShort k c)" using 3(2) by simp
  from 3(3) m show ?case
  proof (cases rule: split_keys)
    case same
    then show ?thesis using validKey_take 3(3) by (auto simp: deletes_def)
  next
    case (below r cs)
    have ne: "prefixLen key k \<noteq> length key" using below(1,2,6) by (cases r) auto
    have d: "deletes c r" using 3(1) [OF refl] below ne by simp
    have e: "pdel (PShort k c) key = joinShort k (pdel c r)" using below ne by (simp add: Let_def)
    have k: "k \<noteq> []" using m below(3,4) by (auto simp: validKey_def leaf_def)
    have "minimal (joinShort k (pdel c r))" using minimal_joinShort [OF k below(3)] deletes_full [OF d below(5,4)] by blast
    moreover have "pget (joinShort k (pdel c r)) key' = (if key' = key then None else pget (PShort k c) key')" if "validKey key'" for key'
    proof (cases "take (length k) key' = k")
      case True
      then have k': "key' = k @ drop (length k) key'" by (metis append_take_drop_id)
      then have "validKey (drop (length k) key')" using that validKey_append [OF below(3)] by metis
      then have "pget (pdel c r) (drop (length k) key') = (if drop (length k) key' = r then None else pget c (drop (length k) key'))"
        using d by (simp add: deletes_def)
      moreover have "key' = key \<longleftrightarrow> drop (length k) key' = r" using k' below(1) by (metis append_eq_conv_conj)
      ultimately show ?thesis using True by (simp add: pget_joinShort)
    next
      case False
      then show ?thesis using below(1) by (simp add: pget_joinShort)
    qed
    ultimately show ?thesis unfolding deletes_def e by blast
  next
    case (diff p x r y s)
    have "pget (PShort k c) key = None" using diff(1-3) by simp
    moreover have "pdel (PShort k c) key = PShort k c" using diff by (simp add: Let_def)
    ultimately show ?thesis using m unfolding deletes_def by metis
  qed
next
  case (4 cs key)
  then obtain x r where k: "key = x # r" by (cases key) auto
  have m: "minimal (PFull cs)" and l: "length cs = 17" using 4(2) by simp_all
  have x: "x = 16 \<and> r = [] \<or> x < 16 \<and> validKey r" "unat x < 17" using 4(3) validKey_hd [of x r] by (auto simp: k validKey_Cons)
  define d where "d = pdel (cs ! unat x) r"
  have e: "pdel (PFull cs) key = collapse (cs[unat x := d])" using x(2) l by (simp add: k d_def)
  have c16: "cs ! 16 = PNil \<or> leaf (cs ! 16)" using m by simp
  have d: "x < 16 \<and> deletes (cs ! unat x) r \<or> x = 16 \<and> r = [] \<and> d = PNil"
  proof (cases "x = 16")
    case True
    then show ?thesis using pdel_leaf [OF c16] x by (simp add: d_def)
  next
    case False
    then have x': "x < 16" "validKey r" using x by auto
    then have "minimal (cs ! unat x) \<or> cs ! unat x = PNil" using minimal_child [OF m x(2)] nibble_index [OF x'(1)] by auto
    then show ?thesis using 4(1) [OF k] l x(2) x' by simp
  qed
  have p: "present (cs[unat x := d]) \<noteq> []" by (rule present_update [OF m x(2)])
  have "minimal (collapse (cs[unat x := d]))"
  proof (rule minimal_collapse [OF _ p])
    show "cs[unat x := d] ! i = PNil \<or> minimal (cs[unat x := d] ! i)" if "i < 16" for i
      using that minimal_child [OF m, of i] d l by (cases "i = unat x") (auto simp: deletes_def d_def)
    show "cs[unat x := d] ! 16 = PNil \<or> leaf (cs[unat x := d] ! 16)"
      using c16 d l nibble_index [of x] by (cases "unat x = 16") auto
  qed (simp add: l)
  moreover have "pget (collapse (cs[unat x := d])) key' = (if key' = key then None else pget (PFull cs) key')" if v: "validKey key'" for key'
  proof -
    obtain z r' where k': "key' = z # r'" using v by (cases key') auto
    have z: "z = 16 \<and> r' = [] \<or> z < 16 \<and> validKey r'" "unat z < 17" using v validKey_hd [of z r'] by (auto simp: k' validKey_Cons)
    have "pget (collapse (cs[unat x := d])) key' = pget (cs[unat x := d] ! unat z) r'"
      using pget_collapse [OF _ p z(2)] l by (simp add: k')
    then show ?thesis using d z l x by (cases "z = x") (auto simp: k k' deletes_def d_def [symmetric])
  qed
  ultimately show ?case unfolding deletes_def e by blast
qed (auto simp: deletes_def)

lemma collapse_minimal: "minimal (PFull cs) \<Longrightarrow> collapse cs = PFull cs"
  using length_present [of cs] by (cases "present cs"; cases "tl (present cs)") (auto simp: collapse_def)

lemma deleted_child:
  assumes "minimal (PFull cs)" "validKey key" "key = x # r"
  shows "i < 16 \<Longrightarrow> cs[unat x := pdel (cs ! unat x) r] ! i = PNil \<or> minimal (cs[unat x := pdel (cs ! unat x) r] ! i)"
    "cs[unat x := pdel (cs ! unat x) r] ! 16 = PNil \<or> leaf (cs[unat x := pdel (cs ! unat x) r] ! 16)"
proof -
  have l: "length cs = 17" and c16: "cs ! 16 = PNil \<or> leaf (cs ! 16)" using assms(1) by simp_all
  have x: "x = 16 \<and> r = [] \<or> x < 16 \<and> validKey r" "unat x < 17" using assms(2,3) validKey_hd [of x r] by (auto simp: validKey_Cons)
  show "cs[unat x := pdel (cs ! unat x) r] ! i = PNil \<or> minimal (cs[unat x := pdel (cs ! unat x) r] ! i)" if i: "i < 16"
  proof (cases "i = unat x")
    case True
    then have x': "x < 16" "validKey r" using x i by (auto simp: word_less_nat_alt)
    then have "minimal (cs ! unat x) \<or> cs ! unat x = PNil" using minimal_child [OF assms(1) x(2)] nibble_index [OF x'(1)] by auto
    then show ?thesis using pdel_deletes [OF _ x'(2)] True l x(2) by (simp add: deletes_def)
  next
    case False
    then show ?thesis using minimal_child [OF assms(1), of i] i by auto
  qed
  show "cs[unat x := pdel (cs ! unat x) r] ! 16 = PNil \<or> leaf (cs[unat x := pdel (cs ! unat x) r] ! 16)"
    using c16 pdel_leaf [OF c16] l by (cases "unat x = 16") auto
qed

section \<open>Bounds on keys and values\<close>

text \<open>The nibbles on every path, and the values.\<close>

fun deep :: "nat \<Rightarrow> ptree \<Rightarrow> bool" where
  "deep n PNil = True"
| "deep n (PVal v) \<longleftrightarrow> length v < 2 ^ 32"
| "deep n (PShort k c) \<longleftrightarrow> length k \<le> n \<and> deep (n - length k) c"
| "deep n (PFull cs) \<longleftrightarrow> 0 < n \<and> length cs = 17 \<and> (\<forall>c \<in> set cs. deep (n - 1) c)"

lemma deep_mono: "deep m t \<Longrightarrow> m \<le> n \<Longrightarrow> deep n t"
proof (induction m t arbitrary: n rule: deep.induct)
  case (3 m k c)
  then show ?case using 3(1) [of "n - length k"] by simp
next
  case (4 m cs)
  then show ?case using 4(1) [of _ "n - 1"] by auto
qed simp_all

lemma deep_mk: "length k \<le> n \<Longrightarrow> deep (n - length k) c \<Longrightarrow> deep n (mk k c)"
  by (auto simp: mk_def)

lemma deep_update: "length cs = 17 \<Longrightarrow> \<forall>c \<in> set cs. deep n c \<Longrightarrow> deep n d \<Longrightarrow> 0 < m \<Longrightarrow> n = m - 1 \<Longrightarrow> deep m (PFull (cs[i := d]))"
  using set_update_subset_insert [of cs i d] by auto

lemma deep_branch: "deep n a \<Longrightarrow> deep n b \<Longrightarrow> 0 < m \<Longrightarrow> n = m - 1 \<Longrightarrow> deep m (branch y a x b)"
  unfolding branch_def
proof -
  assume "deep n a" "deep n b" "0 < m" "n = m - 1"
  moreover have "\<forall>c \<in> set ((replicate 17 PNil)[unat y := a]). deep n c"
    using set_update_subset_insert [of "replicate 17 PNil" "unat y" a] \<open>deep n a\<close> by auto
  ultimately show "deep m (PFull ((replicate 17 PNil)[unat y := a, unat x := b]))" by (intro deep_update) simp_all
qed

lemma deep_pins:
  "minimal t \<or> t = PNil \<Longrightarrow> validKey key \<Longrightarrow> length v < 2 ^ 32 \<Longrightarrow> deep n t \<Longrightarrow> length key \<le> n \<Longrightarrow> deep n (pins t key v)"
proof (induction t key v arbitrary: n rule: pins.induct)
  case (1 key v)
  then show ?case by (simp add: deep_mk)
next
  case (2 w key v)
  then show ?case by simp
next
  case (3 k c key v)
  have m: "minimal (PShort k c)" using 3(2) by simp
  from 3(3) m show ?case
  proof (cases rule: split_keys)
    case same
    then show ?thesis using pins_leaf [of c v] 3(4,5) by (auto simp: leaf_def)
  next
    case (below r cs)
    have d: "drop (prefixLen key k) key = r" using below(1,6) by simp
    have "length k \<le> n" "deep (n - length k) c" "length r \<le> n - length k" using 3(5,6) below(1) by auto
    then have "deep (n - length k) (pins c r v)" using 3(1) [OF refl below(6)] below(2,5) 3(4) unfolding d by blast
    then show ?thesis unfolding pins_cases(1) [OF below(6,1)] using \<open>length k \<le> n\<close> by simp
  next
    case (diff p x r y s)
    have c: "length k \<le> n" "deep (n - length k) c" and kl: "length k = length p + 1 + length s" "length key = length p + 1 + length r"
      using 3(5) diff(1,2) by simp_all
    have "deep (n - length p - 1) (mk s c)"
    proof (rule deep_mk)
      show "length s \<le> n - length p - 1" using c(1) kl(1) by linarith
      have "n - length p - 1 - length s = n - length k" using kl(1) by linarith
      then show "deep (n - length p - 1 - length s) c" using c(2) by simp
    qed
    moreover have "deep (n - length p - 1) (mk r (PVal v))"
      by (rule deep_mk) (use 3(4,6) kl(2) in linarith, use 3(4) in simp)
    ultimately have "deep (n - length p) (branch y (mk s c) x (mk r (PVal v)))"
      by (rule deep_branch) (use 3(6) diff(1) in simp_all)
    then have "deep n (mk p (branch y (mk s c) x (mk r (PVal v))))" by (intro deep_mk) (use 3(6) kl(2) in linarith)
    then show ?thesis using pins_cases(2) [OF diff(3), of p r s c v] diff(1,2,4) by simp
  qed
next
  case (4 cs key v)
  then obtain x r where k: "key = x # r" by (cases key) auto
  have m: "minimal (PFull cs)" and l: "length cs = 17" using 4(2) by simp_all
  have x: "x = 16 \<and> r = [] \<or> x < 16 \<and> validKey r" "unat x < 17" using 4(3) validKey_hd [of x r] by (auto simp: k validKey_Cons)
  have "deep (n - 1) (pins (cs ! unat x) r v)"
  proof (cases "x = 16")
    case True
    then show ?thesis using x m 4(4) pins_leaf [of "cs ! 16" v] by (auto simp: leaf_def)
  next
    case False
    then have x': "x < 16" "validKey r" using x by auto
    then have "minimal (cs ! unat x) \<or> cs ! unat x = PNil" using minimal_child [OF m x(2)] nibble_index [OF x'(1)] by auto
    moreover have "deep (n - 1) (cs ! unat x)" "length r \<le> n - 1" using 4(5,6) x(2) l by (auto simp: k)
    ultimately show ?thesis using 4(1) [OF k] x(2) l x'(2) 4(4) by metis
  qed
  then have "deep n (PFull (cs[unat x := pins (cs ! unat x) r v]))"
    using 4(5) by (intro deep_update [OF l, of "n - 1"]) simp_all
  then show ?case using x(2) l by (simp add: k)
qed

lemma deep_joinShort: "length k \<le> n \<Longrightarrow> deep (n - length k) t \<Longrightarrow> deep n (joinShort k t)"
  by (cases t) (auto simp: joinShort_def)

lemma deep_collapse: "deep n (PFull cs) \<Longrightarrow> deep n (collapse cs)"
proof (cases "\<exists>i. present cs = [i]")
  case True
  assume d: "deep n (PFull cs)"
  from True obtain i where i: "present cs = [i]" by blast
  then have "i < length cs" using present_set [of i cs] by simp
  then have c: "deep (n - 1) (cs ! i)" "0 < n" using d by simp_all
  then show ?thesis using deep_joinShort [of "[of_nat i]" n "cs ! i"] c(2)
    by (cases "cs ! i") (auto simp: collapse_def i joinShort_def)
next
  case False
  then show "deep n (PFull cs) \<Longrightarrow> ?thesis" by (auto simp: collapse_def split: list.split)
qed

lemma deep_pdel: "deep n t \<Longrightarrow> deep n (pdel t key)"
proof (induction t key arbitrary: n rule: pdel.induct)
  case (3 k c key)
  then show ?case using 3(1) [OF refl, of "n - length k"] by (auto simp: Let_def intro: deep_joinShort)
next
  case (4 cs key)
  show ?case
  proof (cases key)
    case (Cons x r)
    have "deep n (PFull (cs[unat x := pdel (cs ! unat x) r]))" if "unat x < length cs"
      by (rule deep_update) (use 4(1) [OF Cons that] 4(2) that in simp_all)
    then show ?thesis using 4(2) by (auto simp: Cons intro: deep_collapse)
  qed (use 4(2) in simp)
qed simp_all

definition bounded :: "ptree \<Rightarrow> bool" where
  "bounded t \<longleftrightarrow> deep (2 ^ 32 - 1) t"

lemma bounded_PShort: "bounded (PShort k c) \<Longrightarrow> bounded c"
  using deep_mono [of "2 ^ 32 - 1 - length k" c "2 ^ 32 - 1"] by (simp add: bounded_def)

lemma bounded_PFull: "bounded (PFull cs) \<Longrightarrow> c \<in> set cs \<Longrightarrow> bounded c"
  using deep_mono [of "2 ^ 32 - 1 - 1" c "2 ^ 32 - 1"] by (simp add: bounded_def)

lemma bounded_pdel: "bounded t \<Longrightarrow> bounded (pdel t key)"
  unfolding bounded_def by (rule deep_pdel)

lemma bounded_pins:
  "minimal t \<or> t = PNil \<Longrightarrow> validKey key \<Longrightarrow> length v < 2 ^ 32 \<Longrightarrow> bounded t \<Longrightarrow> length key < 2 ^ 32 \<Longrightarrow> bounded (pins t key v)"
  unfolding bounded_def by (rule deep_pins) simp_all

end
