(* ===== verification/TrieModel.thy ===== *)
theory TrieModel
  imports TrieKeys RlpDecode
begin

text \<open>
  The Merkle Patricia trie: nodes and their decoding (trie/node.go), lookup, insertion and deletion
  (trie/trie.go), hashing and storing (trie/hasher.go), proofs (trie/proof.go) and the trie with
  hashed keys (trie/secure_trie.go). The database is the map of what was stored; the hash function is
  an argument. A lookup follows hashes into the database, which may hold anything, so it takes fuel.
\<close>

section \<open>node.go\<close>

record nodeFlag =
  nf_hash :: "bytes option"
  nf_gen :: "16 word"
  nf_dirty :: bool

datatype node =
    NilNode
  | FullNode "node list" nodeFlag
  | ShortNode bytes node nodeFlag
  | HashNode bytes
  | ValueNode bytes

fun nf_canUnload :: "nodeFlag \<Rightarrow> 16 word \<Rightarrow> 16 word \<Rightarrow> bool" where
  "nf_canUnload f cachegen cachelimit \<longleftrightarrow> \<not> nf_dirty f \<and> cachegen - nf_gen f \<ge> cachelimit"

fun canUnload :: "node \<Rightarrow> 16 word \<Rightarrow> 16 word \<Rightarrow> bool" where
  "canUnload (FullNode _ f) gen limit = nf_canUnload f gen limit"
| "canUnload (ShortNode _ _ f) gen limit = nf_canUnload f gen limit"
| "canUnload _ gen limit = False"

fun node_cache :: "node \<Rightarrow> bytes option \<times> bool" where
  "node_cache (FullNode _ f) = (nf_hash f, nf_dirty f)"
| "node_cache (ShortNode _ _ f) = (nf_hash f, nf_dirty f)"
| "node_cache _ = (None, True)"

datatype nodeErr =
    NodeEOF
  | NodeRlp rlperr
  | NodeCount nat
  | NodeOversized nat
  | NodeSize nat

definition rlpE :: "(rlperr + 'a) res \<Rightarrow> (nodeErr, 'a) fallible" where
  "rlpE m = bind_res m (\<lambda>r. Ok (case r of Inl err \<Rightarrow> Inl (NodeRlp err) | Inr x \<Rightarrow> Inr x))"

type_synonym nodeDecoder = "bytes option \<Rightarrow> bytes \<Rightarrow> 16 word \<Rightarrow> (nodeErr, node) fallible"

definition hashLen :: nat where
  "hashLen = 32"

text \<open>\<open>dec\<close> is \<^verbatim>\<open>decodeNode\<close>, called for a node embedded in its parent.\<close>

definition decodeRef :: "nodeDecoder \<Rightarrow> bytes \<Rightarrow> 16 word \<Rightarrow> (nodeErr, node \<times> bytes) fallible" where
  "decodeRef dec buf cachegen =
     bindE (rlpE (Split buf)) (\<lambda>(kind, val, rest).
       if kind = List then
         (let size' = length buf - length rest in
          if size' > hashLen then Ok (Inl (NodeOversized size'))
          else bindE (dec None buf cachegen) (\<lambda>n. Ok (Inr (n, rest))))
       else if kind = String \<and> length val = 0 then Ok (Inr (NilNode, rest))
       else if kind = String \<and> length val = 32 then Ok (Inr (HashNode val, rest))
       else Ok (Inl (NodeSize (length val))))"

definition decodeShort :: "nodeDecoder \<Rightarrow> bytes option \<Rightarrow> bytes \<Rightarrow> 16 word \<Rightarrow> (nodeErr, node) fallible" where
  "decodeShort dec hash elems cachegen =
     bindE (rlpE (SplitString elems)) (\<lambda>(kbuf, rest).
       bind_res (compactToHex kbuf) (\<lambda>key.
         let flag = \<lparr>nf_hash = hash, nf_gen = cachegen, nf_dirty = False\<rparr> in
         if hasTerm key
         then bindE (rlpE (SplitString rest)) (\<lambda>(val, _). Ok (Inr (ShortNode key (ValueNode val) flag)))
         else bindE (decodeRef dec rest cachegen) (\<lambda>(r, _). Ok (Inr (ShortNode key r flag)))))"

text \<open>The loop of \<^verbatim>\<open>decodeFull\<close> over the first 16 children.\<close>

fun decodeRefs :: "nodeDecoder \<Rightarrow> nat \<Rightarrow> bytes \<Rightarrow> 16 word \<Rightarrow> (nodeErr, node list \<times> bytes) fallible" where
  "decodeRefs dec 0 elems cachegen = Ok (Inr ([], elems))"
| "decodeRefs dec (Suc k) elems cachegen =
     bindE (decodeRef dec elems cachegen) (\<lambda>(cld, rest).
       bindE (decodeRefs dec k rest cachegen) (\<lambda>(clds, rest'). Ok (Inr (cld # clds, rest'))))"

definition decodeFull :: "nodeDecoder \<Rightarrow> bytes option \<Rightarrow> bytes \<Rightarrow> 16 word \<Rightarrow> (nodeErr, node) fallible" where
  "decodeFull dec hash elems0 cachegen =
     bindE (decodeRefs dec 16 elems0 cachegen) (\<lambda>(clds, elems).
       bindE (rlpE (SplitString elems)) (\<lambda>(val, _).
         Ok (Inr (FullNode (clds @ [if length val > 0 then ValueNode val else NilNode])
                    \<lparr>nf_hash = hash, nf_gen = cachegen, nf_dirty = False\<rparr>))))"

text \<open>\<^verbatim>\<open>c, _ := rlp.CountValues(elems)\<close>: the count is 0 where counting fails.\<close>

definition countOr0 :: "bytes \<Rightarrow> nat res" where
  "countOr0 elems =
     bind_res (CountValues (Suc (length elems)) elems) (\<lambda>r. Ok (case r of Inl _ \<Rightarrow> 0 | Inr c \<Rightarrow> c))"

text \<open>An embedded node is shorter than the node around it, so the length of the input is enough fuel.\<close>

fun decodeNodeF :: "nat \<Rightarrow> nodeDecoder" where
  "decodeNodeF 0 hash buf cachegen = NoFuel"
| "decodeNodeF (Suc n) hash buf cachegen =
     (if length buf = 0 then Ok (Inl NodeEOF)
      else
        bindE (rlpE (SplitList buf)) (\<lambda>(elems, _).
          bind_res (countOr0 elems) (\<lambda>c.
            if c = 2 then decodeShort (decodeNodeF n) hash elems cachegen
            else if c = 17 then decodeFull (decodeNodeF n) hash elems cachegen
            else Ok (Inl (NodeCount c)))))"

definition decodeNode :: nodeDecoder where
  "decodeNode hash buf cachegen = decodeNodeF (Suc (length buf)) hash buf cachegen"

definition mustDecodeNode :: "bytes \<Rightarrow> bytes \<Rightarrow> 16 word \<Rightarrow> node res" where
  "mustDecodeNode hash buf cachegen =
     bind_res (decodeNode (Some hash) buf cachegen) (\<lambda>r. case r of Inl _ \<Rightarrow> Panic | Inr n \<Rightarrow> Ok n)"

section \<open>trie.go\<close>

type_synonym kv = "bytes \<Rightarrow> bytes option"

datatype trieErr =
    MissingNodeError bytes bytes
  | PutError

record Trie =
  t_root :: node
  t_db :: "kv option"
  originalRoot :: bytes
  t_cachegen :: "16 word"
  t_cachelimit :: "16 word"

definition newFlag :: "Trie \<Rightarrow> nodeFlag" where
  "newFlag t = \<lparr>nf_hash = None, nf_gen = t_cachegen t, nf_dirty = True\<rparr>"

definition resolveHash :: "Trie \<Rightarrow> bytes \<Rightarrow> bytes \<Rightarrow> (trieErr, node) fallible" where
  "resolveHash t n prefix' =
     (case t_db t of
        None \<Rightarrow> Panic
      | Some db \<Rightarrow>
          (case db n of
             None \<Rightarrow> Ok (Inl (MissingNodeError (BytesToHash n) prefix'))
           | Some enc \<Rightarrow> bind_res (mustDecodeNode n enc (t_cachegen t)) (\<lambda>dec. Ok (Inr dec))))"

definition resolve :: "Trie \<Rightarrow> node \<Rightarrow> bytes \<Rightarrow> (trieErr, node) fallible" where
  "resolve t n prefix' = (case n of HashNode h \<Rightarrow> resolveHash t h prefix' | _ \<Rightarrow> Ok (Inr n))"

definition emptyRoot :: bytes where
  "emptyRoot = [0x56, 0xe8, 0x1f, 0x17, 0x1b, 0xcc, 0x55, 0xa6, 0xff, 0x83, 0x45, 0xe6, 0x92, 0xc0, 0xf8, 0x6e,
     0x5b, 0x48, 0xe0, 0x1b, 0x99, 0x6c, 0xad, 0xc0, 0x01, 0x62, 0x2f, 0xb5, 0xe3, 0x63, 0xb4, 0x21]"

definition NewTrie :: "bytes \<Rightarrow> kv option \<Rightarrow> (trieErr, Trie) fallible" where
  "NewTrie root db =
     (let trie = \<lparr>t_root = NilNode, t_db = db, originalRoot = root, t_cachegen = 0, t_cachelimit = 0\<rparr> in
      if root \<noteq> zeroHash \<and> root \<noteq> emptyRoot
      then bindE (resolveHash trie root []) (\<lambda>rootnode. Ok (Inr (trie\<lparr>t_root := rootnode\<rparr>)))
      else Ok (Inr trie))"

definition SetCacheLimit :: "Trie \<Rightarrow> 16 word \<Rightarrow> Trie" where
  "SetCacheLimit t l = t\<lparr>t_cachelimit := l\<rparr>"

text \<open>The value found, the node to replace \<open>origNode\<close> and whether something was loaded.\<close>

fun tryGet :: "nat \<Rightarrow> Trie \<Rightarrow> node \<Rightarrow> bytes \<Rightarrow> nat \<Rightarrow> (trieErr, bytes option \<times> node \<times> bool) fallible" where
  "tryGet 0 t origNode key pos = NoFuel"
| "tryGet (Suc f) t origNode key pos =
     (case origNode of
        NilNode \<Rightarrow> Ok (Inr (None, NilNode, False))
      | ValueNode v \<Rightarrow> Ok (Inr (Some v, origNode, False))
      | ShortNode k val fl \<Rightarrow>
          if length key - pos < length k \<or> take (length k) (drop pos key) \<noteq> k
          then Ok (Inr (None, origNode, False))
          else
            bindE (tryGet f t val key (pos + length k)) (\<lambda>(value', newnode, didResolve).
              Ok (Inr (value',
                       (if didResolve then ShortNode k newnode (fl\<lparr>nf_gen := t_cachegen t\<rparr>) else origNode),
                       didResolve)))
      | FullNode cs fl \<Rightarrow>
          bind_res (index key pos) (\<lambda>x.
            bind_res (index cs (unat x)) (\<lambda>c.
              bindE (tryGet f t c key (pos + 1)) (\<lambda>(value', newnode, didResolve).
                Ok (Inr (value',
                         (if didResolve then FullNode (cs[unat x := newnode]) (fl\<lparr>nf_gen := t_cachegen t\<rparr>)
                          else origNode),
                         didResolve)))))
      | HashNode h \<Rightarrow>
          bindE (resolveHash t h (take pos key)) (\<lambda>child.
            bindE (tryGet f t child key pos) (\<lambda>(value', newnode, _). Ok (Inr (value', newnode, True)))))"

definition Trie_TryGet :: "nat \<Rightarrow> Trie \<Rightarrow> bytes \<Rightarrow> (trieErr, bytes option \<times> Trie) fallible" where
  "Trie_TryGet f t key =
     bindE (tryGet f t (t_root t) (keybytesToHex key) 0) (\<lambda>(value', newroot, didResolve).
       Ok (Inr (value', if didResolve then t\<lparr>t_root := newroot\<rparr> else t)))"

text \<open>Whether the node changed, and the new node.\<close>

fun trie_insert :: "nat \<Rightarrow> Trie \<Rightarrow> node \<Rightarrow> bytes \<Rightarrow> bytes \<Rightarrow> node \<Rightarrow> (trieErr, bool \<times> node) fallible" where
  "trie_insert 0 t n prefix' key value' = NoFuel"
| "trie_insert (Suc f) t n prefix' key value' =
     (if length key = 0 then
        (case n of
           ValueNode v \<Rightarrow> (case value' of ValueNode w \<Rightarrow> Ok (Inr (v \<noteq> w, value')) | _ \<Rightarrow> Panic)
         | _ \<Rightarrow> Ok (Inr (True, value')))
      else
        (case n of
           ShortNode k val fl \<Rightarrow>
             (let matchlen = prefixLen key k in
              if matchlen = length k then
                bindE (trie_insert f t val (prefix' @ take matchlen key) (drop matchlen key) value') (\<lambda>(dirty, nn).
                  Ok (Inr (if \<not> dirty then (False, n) else (True, ShortNode k nn (newFlag t)))))
              else
                bindE (trie_insert f t NilNode (prefix' @ take (matchlen + 1) k) (drop (matchlen + 1) k) val) (\<lambda>(_, c1).
                  bind_res (index key matchlen) (\<lambda>x.
                    bindE (trie_insert f t NilNode (prefix' @ take (matchlen + 1) key) (drop (matchlen + 1) key) value') (\<lambda>(_, c2).
                      if unat (k ! matchlen) < 17 \<and> unat x < 17 then
                        (let branch = FullNode ((replicate 17 NilNode)[unat (k ! matchlen) := c1, unat x := c2]) (newFlag t) in
                         if matchlen = 0 then Ok (Inr (True, branch))
                         else Ok (Inr (True, ShortNode (take matchlen key) branch (newFlag t))))
                      else Panic))))
         | FullNode cs fl \<Rightarrow>
             bind_res (index cs (unat (hd key))) (\<lambda>c.
               bindE (trie_insert f t c (prefix' @ [hd key]) (drop 1 key) value') (\<lambda>(dirty, nn).
                 Ok (Inr (if \<not> dirty then (False, n) else (True, FullNode (cs[unat (hd key) := nn]) (newFlag t))))))
         | NilNode \<Rightarrow> Ok (Inr (True, ShortNode key value' (newFlag t)))
         | HashNode h \<Rightarrow>
             bindE (resolveHash t h prefix') (\<lambda>rn.
               bindE (trie_insert f t rn prefix' key value') (\<lambda>(dirty, nn).
                 Ok (Inr (if \<not> dirty then (False, rn) else (True, nn)))))
         | ValueNode v \<Rightarrow> Panic))"

text \<open>The index of the only child that is left, -1 for none and -2 for several.\<close>

fun singlePos :: "int \<Rightarrow> int \<Rightarrow> node list \<Rightarrow> int" where
  "singlePos pos i [] = pos"
| "singlePos pos i (cld # cs) =
     (if cld \<noteq> NilNode then (if pos = -1 then singlePos i (i + 1) cs else -2) else singlePos pos (i + 1) cs)"

fun trie_delete :: "nat \<Rightarrow> Trie \<Rightarrow> node \<Rightarrow> bytes \<Rightarrow> bytes \<Rightarrow> (trieErr, bool \<times> node) fallible" where
  "trie_delete 0 t n prefix' key = NoFuel"
| "trie_delete (Suc f) t n prefix' key =
     (case n of
        ShortNode k val fl \<Rightarrow>
          (let matchlen = prefixLen key k in
           if matchlen < length k then Ok (Inr (False, n))
           else if matchlen = length key then Ok (Inr (True, NilNode))
           else
             bindE (trie_delete f t val (prefix' @ take (length k) key) (drop (length k) key)) (\<lambda>(dirty, child).
               Ok (Inr (if \<not> dirty then (False, n)
                        else (True, case child of
                                      ShortNode ck cval _ \<Rightarrow> ShortNode (k @ ck) cval (newFlag t)
                                    | _ \<Rightarrow> ShortNode k child (newFlag t))))))
      | FullNode cs0 fl \<Rightarrow>
          bind_res (index key 0) (\<lambda>x.
            bind_res (index cs0 (unat x)) (\<lambda>c.
              bindE (trie_delete f t c (prefix' @ [x]) (drop 1 key)) (\<lambda>(dirty, nn).
                if \<not> dirty then Ok (Inr (False, n))
                else
                  (let cs = cs0[unat x := nn];
                       pos = singlePos (-1) 0 cs
                   in if pos \<ge> 0 then
                        (let short = ShortNode [word_of_int pos] (cs ! nat pos) (newFlag t) in
                         if pos \<noteq> 16 then
                           bindE (resolve t (cs ! nat pos) prefix') (\<lambda>cnode.
                             Ok (Inr (True, case cnode of
                                              ShortNode ck cval _ \<Rightarrow> ShortNode (word_of_int pos # ck) cval (newFlag t)
                                            | _ \<Rightarrow> short)))
                         else Ok (Inr (True, short)))
                      else Ok (Inr (True, FullNode cs (newFlag t)))))))
      | ValueNode v \<Rightarrow> Ok (Inr (True, NilNode))
      | NilNode \<Rightarrow> Ok (Inr (False, NilNode))
      | HashNode h \<Rightarrow>
          bindE (resolveHash t h prefix') (\<lambda>rn.
            bindE (trie_delete f t rn prefix' key) (\<lambda>(dirty, nn).
              Ok (Inr (if \<not> dirty then (False, rn) else (True, nn))))))"

definition Trie_TryUpdate :: "nat \<Rightarrow> Trie \<Rightarrow> bytes \<Rightarrow> bytes \<Rightarrow> (trieErr, Trie) fallible" where
  "Trie_TryUpdate f t key value' =
     (let k = keybytesToHex key in
      if length value' \<noteq> 0
      then bindE (trie_insert f t (t_root t) [] k (ValueNode value')) (\<lambda>(_, n). Ok (Inr (t\<lparr>t_root := n\<rparr>)))
      else bindE (trie_delete f t (t_root t) [] k) (\<lambda>(_, n). Ok (Inr (t\<lparr>t_root := n\<rparr>))))"

definition Trie_TryDelete :: "nat \<Rightarrow> Trie \<Rightarrow> bytes \<Rightarrow> (trieErr, Trie) fallible" where
  "Trie_TryDelete f t key =
     bindE (trie_delete f t (t_root t) [] (keybytesToHex key)) (\<lambda>(_, n). Ok (Inr (t\<lparr>t_root := n\<rparr>)))"

section \<open>hasher.go\<close>

text \<open>
  A database to write to: the entries, and the keys for which storing fails. The hasher is the hash
  function with the cache parameters.
\<close>

record writer =
  w_map :: kv
  w_fails :: "bytes \<Rightarrow> bool"

definition db_Put :: "writer \<Rightarrow> bytes \<Rightarrow> bytes \<Rightarrow> (trieErr, writer) fallible" where
  "db_Put w key value' = (if w_fails w key then Ok (Inl PutError) else Ok (Inr (w\<lparr>w_map := (w_map w)(key \<mapsto> value')\<rparr>)))"

record hasher =
  h_sha :: "bytes \<Rightarrow> bytes"
  h_cachegen :: "16 word"
  h_cachelimit :: "16 word"

text \<open>What \<^verbatim>\<open>rlp.Encode\<close> sees of a node: the exported fields, and the children of a full node.\<close>

fun nodeVal :: "node \<Rightarrow> rlpval" where
  "nodeVal NilNode = RNil"
| "nodeVal (FullNode cs _) = RList (map nodeVal cs)"
| "nodeVal (ShortNode k val _) = RList [RBytes k, nodeVal val]"
| "nodeVal (HashNode h) = RBytes h"
| "nodeVal (ValueNode v) = RBytes v"

definition hasher_store :: "hasher \<Rightarrow> node \<Rightarrow> writer option \<Rightarrow> bool \<Rightarrow> (trieErr, node \<times> writer option) fallible" where
  "hasher_store h n db force =
     (if (case n of HashNode _ \<Rightarrow> True | NilNode \<Rightarrow> True | _ \<Rightarrow> False) then Ok (Inr (n, db))
      else
        (case EncodeToBytes (nodeVal n) of
           None \<Rightarrow> Panic
         | Some enc \<Rightarrow>
             if length enc < 32 \<and> \<not> force then Ok (Inr (n, db))
             else
               (let hash = (case fst (node_cache n) of Some hash \<Rightarrow> hash | None \<Rightarrow> h_sha h enc) in
                case db of
                  None \<Rightarrow> Ok (Inr (HashNode hash, None))
                | Some w \<Rightarrow> bindE (db_Put w hash enc) (\<lambda>w'. Ok (Inr (HashNode hash, Some w'))))))"

fun setHash :: "bytes option \<Rightarrow> bool \<Rightarrow> node \<Rightarrow> node" where
  "setHash h committed (FullNode cs f) = FullNode cs (f\<lparr>nf_hash := h, nf_dirty := (if committed then False else nf_dirty f)\<rparr>)"
| "setHash h committed (ShortNode k v f) = ShortNode k v (f\<lparr>nf_hash := h, nf_dirty := (if committed then False else nf_dirty f)\<rparr>)"
| "setHash h committed n = n"

text \<open>The early returns of \<^verbatim>\<open>hash\<close> for a node whose hash is cached: the hash and the node to keep.\<close>

definition cachedHash :: "hasher \<Rightarrow> node \<Rightarrow> writer option \<Rightarrow> (node \<times> node) option" where
  "cachedHash h n db =
     (case node_cache n of
        (None, _) \<Rightarrow> None
      | (Some hash, dirty) \<Rightarrow>
          if Option.is_none db then Some (HashNode hash, n)
          else if canUnload n (h_cachegen h) (h_cachelimit h) then Some (HashNode hash, HashNode hash)
          else if \<not> dirty then Some (HashNode hash, n)
          else None)"

definition storeHashed :: "hasher \<Rightarrow> writer option \<Rightarrow> bool \<Rightarrow> node \<times> node \<times> writer option \<Rightarrow> (trieErr, node \<times> node \<times> writer option) fallible" where
  "storeHashed h db force r =
     (case r of (collapsed, cached, db1) \<Rightarrow>
        bindE (hasher_store h collapsed db1 force) (\<lambda>(hashed, db2).
          Ok (Inr (hashed, setHash (case hashed of HashNode x \<Rightarrow> Some x | _ \<Rightarrow> None) (\<not> Option.is_none db) cached, db2))))"

text \<open>
  The collapsed form of a node, the node to keep, and the database. \<open>hashKids\<close> is the loop over the
  first 16 children; a missing child is collapsed to an empty string.
\<close>

function hasher_hash :: "hasher \<Rightarrow> node \<Rightarrow> writer option \<Rightarrow> bool \<Rightarrow> (trieErr, node \<times> node \<times> writer option) fallible"
  and hashChildren :: "hasher \<Rightarrow> node \<Rightarrow> writer option \<Rightarrow> (trieErr, node \<times> node \<times> writer option) fallible"
  and hashKids :: "hasher \<Rightarrow> nat \<Rightarrow> node list \<Rightarrow> writer option \<Rightarrow> (trieErr, node list \<times> node list \<times> writer option) fallible" where
  "hasher_hash h n db force =
     (if n = NilNode then Panic
      else
        (case cachedHash h n db of
           Some (hashed, kept) \<Rightarrow> Ok (Inr (hashed, kept, db))
         | None \<Rightarrow> bindE (hashChildren h n db) (storeHashed h db force)))"
| "hashChildren h (ShortNode k val f) db =
     bind_res (hexToCompact k) (\<lambda>ck.
       case val of
         ValueNode v \<Rightarrow> Ok (Inr (ShortNode ck val f, ShortNode k val f, db))
       | _ \<Rightarrow> bindE (hasher_hash h val db False) (\<lambda>(cval, kval, db'). Ok (Inr (ShortNode ck cval f, ShortNode k kval f, db'))))"
| "hashChildren h (FullNode cs f) db =
     bindE (hashKids h 16 cs db) (\<lambda>(ccs, kcs, db'). Ok (Inr (FullNode ccs f, FullNode kcs f, db')))"
| "hashChildren h NilNode db = Ok (Inr (NilNode, NilNode, db))"
| "hashChildren h (HashNode x) db = Ok (Inr (HashNode x, HashNode x, db))"
| "hashChildren h (ValueNode v) db = Ok (Inr (ValueNode v, ValueNode v, db))"
| "hashKids h k [] db = Ok (Inr ([], [], db))"
| "hashKids h 0 (c # cs) db =
     Ok (Inr (map (\<lambda>c. if c = NilNode then ValueNode [] else c) (c # cs), c # cs, db))"
| "hashKids h (Suc k) (c # cs) db =
     (if c = NilNode
      then bindE (hashKids h k cs db) (\<lambda>(ccs, kcs, db'). Ok (Inr (ValueNode [] # ccs, NilNode # kcs, db')))
      else
        bindE (hasher_hash h c db False) (\<lambda>(cc, kc, db1).
          bindE (hashKids h k cs db1) (\<lambda>(ccs, kcs, db'). Ok (Inr (cc # ccs, kc # kcs, db')))))"
  by pat_completeness auto
termination
  by (relation "measure (\<lambda>x. case x of Inl (_, n, _, _) \<Rightarrow> 2 * size n + 1
    | Inr (Inl (_, n, _)) \<Rightarrow> 2 * size n | Inr (Inr (_, _, cs, _)) \<Rightarrow> 2 * size_list size cs)") auto

definition hashRoot :: "(bytes \<Rightarrow> bytes) \<Rightarrow> Trie \<Rightarrow> writer option \<Rightarrow> (trieErr, node \<times> node \<times> writer option) fallible" where
  "hashRoot K t db =
     (if t_root t = NilNode then Ok (Inr (HashNode emptyRoot, NilNode, db))
      else hasher_hash \<lparr>h_sha = K, h_cachegen = t_cachegen t, h_cachelimit = t_cachelimit t\<rparr> (t_root t) db True)"

definition asHash :: "node \<Rightarrow> bytes res" where
  "asHash n = (case n of HashNode h \<Rightarrow> Ok (BytesToHash h) | _ \<Rightarrow> Panic)"

text \<open>\<^verbatim>\<open>Hash\<close> drops the error, which cannot occur without a database.\<close>

definition Trie_Hash :: "(bytes \<Rightarrow> bytes) \<Rightarrow> Trie \<Rightarrow> (trieErr, bytes \<times> Trie) fallible" where
  "Trie_Hash K t =
     bindE (hashRoot K t None) (\<lambda>(hash, cached, _).
       bind_res (asHash hash) (\<lambda>h. Ok (Inr (h, t\<lparr>t_root := cached\<rparr>))))"

definition Trie_CommitTo :: "(bytes \<Rightarrow> bytes) \<Rightarrow> Trie \<Rightarrow> writer \<Rightarrow> (trieErr, bytes \<times> Trie \<times> writer option) fallible" where
  "Trie_CommitTo K t db =
     bindE (hashRoot K t (Some db)) (\<lambda>(hash, cached, db').
       bind_res (asHash hash) (\<lambda>h. Ok (Inr (h, t\<lparr>t_root := cached, t_cachegen := t_cachegen t + 1\<rparr>, db'))))"

text \<open>
  \<^verbatim>\<open>Commit\<close> writes to the database of the trie, which the trie then reads; \<open>fails\<close> are the keys that the
  database does not store.
\<close>

definition Trie_Commit :: "(bytes \<Rightarrow> bytes) \<Rightarrow> Trie \<Rightarrow> (bytes \<Rightarrow> bool) \<Rightarrow> (trieErr, bytes \<times> Trie) fallible" where
  "Trie_Commit K t fails =
     (case t_db t of
        None \<Rightarrow> Panic
      | Some db \<Rightarrow>
          bindE (Trie_CommitTo K t \<lparr>w_map = db, w_fails = fails\<rparr>) (\<lambda>(h, t', db').
            Ok (Inr (h, t'\<lparr>t_db := map_option w_map db'\<rparr>))))"

section \<open>proof.go\<close>

text \<open>\<^verbatim>\<open>get\<close> walks the nodes in memory: the rest of the key and the node where the walk ends.\<close>

function proof_get :: "node \<Rightarrow> bytes \<Rightarrow> (bytes \<times> node) res" where
  "proof_get (ShortNode k val f) key =
     (if length key < length k \<or> k \<noteq> take (length k) key then Ok ([], NilNode)
      else proof_get val (drop (length k) key))"
| "proof_get (FullNode cs f) key =
     bind_res (index key 0) (\<lambda>x. bind_res (index cs (unat x)) (\<lambda>c. proof_get c (drop 1 key)))"
| "proof_get (HashNode h) key = Ok (key, HashNode h)"
| "proof_get NilNode key = Ok (key, NilNode)"
| "proof_get (ValueNode v) key = Ok ([], ValueNode v)"
  by pat_completeness auto
termination
proof (relation "measure (\<lambda>(n, _). size n)")
  fix cs f and key :: bytes and x :: byte and c :: node
  assume "index cs (unat x) = Ok c"
  then have "c \<in> set cs" by (auto simp: index_def split: if_splits)
  then have "size c < Suc (size_list size cs)" using size_list_estimation' [of c cs "size c" size] by simp
  then show "((c, drop 1 key), FullNode cs f, key) \<in> measure (\<lambda>(n, _). size n)" by simp
qed auto

datatype proofErr =
    ProofMissing nat bytes
  | ProofBad nat nodeErr

text \<open>The value, if the trie has one for the key, and the number of nodes.\<close>

fun VerifyProofLoop :: "nat \<Rightarrow> bytes \<Rightarrow> bytes \<Rightarrow> kv \<Rightarrow> nat \<Rightarrow> (proofErr, bytes option \<times> nat) fallible" where
  "VerifyProofLoop 0 wantHash key proofDb i = NoFuel"
| "VerifyProofLoop (Suc f) wantHash key proofDb i =
     (case proofDb wantHash of
        None \<Rightarrow> Ok (Inl (ProofMissing i wantHash))
      | Some buf \<Rightarrow>
          bind_res (decodeNode (Some wantHash) buf 0) (\<lambda>r. case r of
            Inl err \<Rightarrow> Ok (Inl (ProofBad i err))
          | Inr n \<Rightarrow>
              bind_res (proof_get n key) (\<lambda>(keyrest, cld).
                case cld of
                  HashNode h \<Rightarrow> VerifyProofLoop f h keyrest proofDb (i + 1)
                | ValueNode v \<Rightarrow> Ok (Inr (Some v, i + 1))
                | _ \<Rightarrow> Ok (Inr (None, i)))))"

definition VerifyProof :: "nat \<Rightarrow> bytes \<Rightarrow> bytes \<Rightarrow> kv \<Rightarrow> (proofErr, bytes option \<times> nat) fallible" where
  "VerifyProof f rootHash key proofDb = VerifyProofLoop f rootHash (keybytesToHex key) proofDb 0"

text \<open>The nodes on the path to a key, loaded where necessary.\<close>

fun provePath :: "nat \<Rightarrow> Trie \<Rightarrow> node \<Rightarrow> bytes \<Rightarrow> (trieErr, node list) fallible" where
  "provePath 0 t tn key = NoFuel"
| "provePath (Suc f) t tn key =
     (if length key = 0 then Ok (Inr [])
      else
        (case tn of
           NilNode \<Rightarrow> Ok (Inr [])
         | ShortNode k val _ \<Rightarrow>
             if length key < length k \<or> k \<noteq> take (length k) key then Ok (Inr [tn])
             else bindE (provePath f t val (drop (length k) key)) (\<lambda>ns. Ok (Inr (tn # ns)))
         | FullNode cs _ \<Rightarrow>
             bind_res (index cs (unat (hd key))) (\<lambda>c.
               bindE (provePath f t c (drop 1 key)) (\<lambda>ns. Ok (Inr (tn # ns))))
         | HashNode h \<Rightarrow> bindE (resolveHash t h []) (\<lambda>n. provePath f t n key)
         | ValueNode v \<Rightarrow> Panic))"

text \<open>The elements of the proof: what \<^verbatim>\<open>Prove\<close> puts into the proof database.\<close>

fun proveNodes :: "(bytes \<Rightarrow> bytes) \<Rightarrow> nat \<Rightarrow> nat \<Rightarrow> node list \<Rightarrow> (trieErr, (bytes \<times> bytes) list) fallible" where
  "proveNodes K i fromLevel [] = Ok (Inr [])"
| "proveNodes K i fromLevel (n # ns) =
     (let h = \<lparr>h_sha = K, h_cachegen = 0, h_cachelimit = 0\<rparr> in
      bindE (hashChildren h n None) (\<lambda>(collapsed, _, _).
        bindE (hasher_store h collapsed None False) (\<lambda>(hn, _).
          let ok = (case hn of HashNode _ \<Rightarrow> True | _ \<Rightarrow> False) in
          if ok \<or> i = 0 then
            if fromLevel > 0 then proveNodes K (i + 1) (fromLevel - 1) ns
            else
              (let enc = (case EncodeToBytes (nodeVal collapsed) of Some enc \<Rightarrow> enc | None \<Rightarrow> []);
                   hash = (case hn of HashNode x \<Rightarrow> x | _ \<Rightarrow> K enc)
               in bindE (proveNodes K (i + 1) fromLevel ns) (\<lambda>es. Ok (Inr ((hash, enc) # es))))
          else proveNodes K (i + 1) fromLevel ns)))"

definition Prove :: "(bytes \<Rightarrow> bytes) \<Rightarrow> nat \<Rightarrow> Trie \<Rightarrow> bytes \<Rightarrow> nat \<Rightarrow> (trieErr, (bytes \<times> bytes) list) fallible" where
  "Prove K f t key fromLevel = bindE (provePath f t (t_root t) (keybytesToHex key)) (proveNodes K 0 fromLevel)"

section \<open>secure_trie.go\<close>

record SecureTrie =
  st_trie :: Trie
  secKeyCache :: kv

definition secureKeyPrefix :: bytes where
  "secureKeyPrefix = [0x73, 0x65, 0x63, 0x75, 0x72, 0x65, 0x2D, 0x6B, 0x65, 0x79, 0x2D]"

definition NewSecure :: "bytes \<Rightarrow> kv option \<Rightarrow> 16 word \<Rightarrow> (trieErr, SecureTrie) fallible" where
  "NewSecure root db cachelimit =
     (if Option.is_none db then Panic
      else bindE (NewTrie root db) (\<lambda>trie. Ok (Inr \<lparr>st_trie = SetCacheLimit trie cachelimit, secKeyCache = Map.empty\<rparr>)))"

definition Secure_TryGet :: "(bytes \<Rightarrow> bytes) \<Rightarrow> nat \<Rightarrow> SecureTrie \<Rightarrow> bytes \<Rightarrow> (trieErr, bytes option \<times> SecureTrie) fallible" where
  "Secure_TryGet K f t key =
     bindE (Trie_TryGet f (st_trie t) (K key)) (\<lambda>(v, trie). Ok (Inr (v, t\<lparr>st_trie := trie\<rparr>)))"

definition Secure_TryUpdate :: "(bytes \<Rightarrow> bytes) \<Rightarrow> nat \<Rightarrow> SecureTrie \<Rightarrow> bytes \<Rightarrow> bytes \<Rightarrow> (trieErr, SecureTrie) fallible" where
  "Secure_TryUpdate K f t key value' =
     bindE (Trie_TryUpdate f (st_trie t) (K key) value') (\<lambda>trie.
       Ok (Inr (t\<lparr>st_trie := trie, secKeyCache := (secKeyCache t)(K key \<mapsto> key)\<rparr>)))"

text \<open>The cached key is dropped even where the trie reports an error.\<close>

definition Secure_TryDelete :: "(bytes \<Rightarrow> bytes) \<Rightarrow> nat \<Rightarrow> SecureTrie \<Rightarrow> bytes \<Rightarrow> (trieErr option \<times> SecureTrie) res" where
  "Secure_TryDelete K f t key =
     (let t' = t\<lparr>secKeyCache := (secKeyCache t)(K key := None)\<rparr> in
      bind_res (Trie_TryDelete f (st_trie t) (K key)) (\<lambda>r. case r of
        Inl err \<Rightarrow> Ok (Some err, t')
      | Inr trie \<Rightarrow> Ok (None, t'\<lparr>st_trie := trie\<rparr>)))"

definition secKey :: "bytes \<Rightarrow> bytes" where
  "secKey key = secureKeyPrefix @ key"

definition GetKey :: "SecureTrie \<Rightarrow> bytes \<Rightarrow> bytes option res" where
  "GetKey t shaKey =
     (case secKeyCache t shaKey of
        Some key \<Rightarrow> Ok (Some key)
      | None \<Rightarrow> (case t_db (st_trie t) of None \<Rightarrow> Panic | Some db \<Rightarrow> Ok (db (secKey shaKey))))"

end
