(* ===== verification/TrieEncode.thy ===== *)
theory TrieEncode
  imports PureTrieOps TrieModel RlpRaw
begin

text \<open>
  How a trie is written to the database and read back: the encoding of a reference trie for a hash
  function, the relation between the nodes in memory and the trie they stand for, and that decoding
  a stored node gives nodes that stand for the trie it was made from.
\<close>

section \<open>Encodings\<close>

definition compact :: "bytes \<Rightarrow> bytes" where
  "compact k = (case hexToCompact k of Ok c \<Rightarrow> c | _ \<Rightarrow> [])"

text \<open>A child is written in place where its encoding is shorter than a hash.\<close>

definition ref :: "(bytes \<Rightarrow> bytes) \<Rightarrow> rlpval \<Rightarrow> rlpval" where
  "ref K v = (case v of RList _ \<Rightarrow> if length (rlpEnc v) < 32 then v else RBytes (K (rlpEnc v)) | _ \<Rightarrow> v)"

fun pval :: "(bytes \<Rightarrow> bytes) \<Rightarrow> ptree \<Rightarrow> rlpval" where
  "pval K PNil = RBytes []"
| "pval K (PVal v) = RBytes v"
| "pval K (PShort k c) = RList [RBytes (compact k), ref K (pval K c)]"
| "pval K (PFull cs) = RList (map (\<lambda>c. ref K (pval K c)) cs)"

abbreviation penc :: "(bytes \<Rightarrow> bytes) \<Rightarrow> ptree \<Rightarrow> bytes" where
  "penc K t \<equiv> rlpEnc (pval K t)"

fun inner :: "ptree \<Rightarrow> bool" where
  "inner (PShort k c) = True"
| "inner (PFull cs) = True"
| "inner t = False"

text \<open>Everything below a trie that is referred to by its hash is in the database.\<close>

definition found :: "(bytes \<Rightarrow> bytes) \<Rightarrow> kv \<Rightarrow> ptree \<Rightarrow> bool" where
  "found K db t \<longleftrightarrow> (inner t \<longrightarrow> 32 \<le> length (penc K t) \<longrightarrow> db (K (penc K t)) = Some (penc K t))"

fun stored :: "(bytes \<Rightarrow> bytes) \<Rightarrow> kv \<Rightarrow> ptree \<Rightarrow> bool" where
  "stored K db (PShort k c) \<longleftrightarrow> found K db c \<and> stored K db c"
| "stored K db (PFull cs) \<longleftrightarrow> (\<forall>c \<in> set cs. found K db c \<and> stored K db c)"
| "stored K db t \<longleftrightarrow> True"

lemma size_nth [termination_simp]: "i < length ns \<Longrightarrow> size (ns ! i) < Suc (size_list size ns)"
  using size_list_estimation' [of "ns ! i" ns "size (ns ! i)" size] by simp

text \<open>
  Which trie a node stands for; a hash stands for what the database holds under it. A cached hash is
  the hash of the trie, and where the node is clean the database has it; a clean node without a hash
  was read as a part of another node, and is short. Below the root (\<open>r\<close> is False)
  only encodings of at least 32 bytes are hashed.
\<close>

definition flagOk :: "bool \<Rightarrow> (bytes \<Rightarrow> bytes) \<Rightarrow> kv \<Rightarrow> nodeFlag \<Rightarrow> ptree \<Rightarrow> bool" where
  "flagOk r K db f t \<longleftrightarrow>
     (case nf_hash f of
        None \<Rightarrow> nf_dirty f \<or> \<not> r \<and> length (penc K t) < 32
      | Some h \<Rightarrow> h = K (penc K t) \<and> (r \<or> 32 \<le> length (penc K t)) \<and>
          (nf_dirty f \<or> db h = Some (penc K t) \<and> stored K db t))"

fun reps :: "bool \<Rightarrow> (bytes \<Rightarrow> bytes) \<Rightarrow> kv \<Rightarrow> node \<Rightarrow> ptree \<Rightarrow> bool" where
  "reps r K db NilNode t \<longleftrightarrow> t = PNil"
| "reps r K db (ValueNode v) t \<longleftrightarrow> t = PVal v"
| "reps r K db (ShortNode k n f) t \<longleftrightarrow> flagOk r K db f t \<and> (\<exists>c. t = PShort k c \<and> reps False K db n c)"
| "reps r K db (FullNode ns f) t \<longleftrightarrow>
     flagOk r K db f t \<and> (\<exists>cs. t = PFull cs \<and> length ns = length cs \<and> (\<forall>i < length ns. reps False K db (ns ! i) (cs ! i)))"
| "reps r K db (HashNode h) t \<longleftrightarrow>
     inner t \<and> h = K (penc K t) \<and> (r \<or> 32 \<le> length (penc K t)) \<and> db h = Some (penc K t) \<and> stored K db t"

fun loaded :: "node \<Rightarrow> bool" where
  "loaded (ShortNode k n f) = True"
| "loaded (FullNode ns f) = True"
| "loaded n = False"

section \<open>Sizes\<close>

fun sized :: "ptree \<Rightarrow> bool" where
  "sized PNil = True"
| "sized (PVal v) \<longleftrightarrow> length v < 2 ^ 32"
| "sized (PShort k c) \<longleftrightarrow> length k < 2 ^ 32 \<and> sized c"
| "sized (PFull cs) \<longleftrightarrow> length cs = 17 \<and> (\<forall>c \<in> set cs. sized c)"

text \<open>The hash function gives 32 bytes.\<close>

definition hash32 :: "(bytes \<Rightarrow> bytes) \<Rightarrow> bool" where
  "hash32 K \<longleftrightarrow> (\<forall>x. length (K x) = 32)"

lemma rlpHead_le: "n < 2 ^ 64 \<Longrightarrow> length (rlpHead a b n) \<le> 9"
  using nat_bytes_size [of n] by (auto simp: rlpHead_def Let_def)

lemma rlpStr_le: "length b < 2 ^ 64 \<Longrightarrow> length (rlpStr b) \<le> length b + 9"
  using rlpHead_le [where n = "length b" and a = "0x80" and b = "0xB7"] by (auto simp: rlpStr_def)

lemma rlpLst_le: "length p < 2 ^ 64 \<Longrightarrow> length (rlpLst p) \<le> length p + 9"
  using rlpHead_le [where n = "length p" and a = "0xC0" and b = "0xF7"] by (auto simp: rlpLst_def)

lemma decodeNibbles_length: "decodeNibbles ns = Ok bs \<Longrightarrow> length bs \<le> length ns"
  by (induction ns arbitrary: bs rule: decodeNibbles.induct) (auto elim!: bind_res_OkE)

lemma compact_length: "length (compact k) \<le> Suc (length k)"
  by (auto simp: compact_def hexToCompact_def Let_def elim!: bind_res_OkE dest!: decodeNibbles_length split: res.split list.splits if_splits)

lemma ref_length: "hash32 K \<Longrightarrow> length (rlpEnc (ref K (pval K c))) \<le> (case c of PVal v \<Rightarrow> length (rlpStr v) | _ \<Rightarrow> 41)"
proof -
  assume K: "hash32 K"
  have "length (rlpStr (K x)) \<le> 41" for x using rlpStr_le [of "K x"] K by (simp add: hash32_def)
  then show ?thesis by (cases c) (auto simp: ref_def rlpStr_def rlpHead_def)
qed

lemma concat_length_le: "\<forall>c \<in> set cs. length (f c) \<le> B \<Longrightarrow> length (concat (map f cs)) \<le> length cs * B"
  by (induction cs) (auto simp: add_le_mono)

lemma penc_length:
  assumes "hash32 K" "sized t"
  shows "length (penc K t) < 2 ^ 40"
proof -
  have r: "length (rlpEnc (ref K (pval K c))) \<le> 2 ^ 32 + 9" if "sized c" for c
  proof (cases c)
    case (PVal v)
    then have "length v < 2 ^ 32" using that by simp
    moreover from this have "length (rlpStr v) \<le> length v + 9" by (intro rlpStr_le) simp
    ultimately show ?thesis using PVal by (simp add: ref_def)
  qed (use ref_length [OF assms(1), of c] in simp_all)
  show ?thesis
  proof (cases t)
    case (PVal v)
    then show ?thesis using assms(2) rlpStr_le [of v] by simp
  next
    case (PShort k c)
    have "length (compact k) \<le> 2 ^ 32" using compact_length [of k] assms(2) by (simp add: PShort)
    then have "length (rlpStr (compact k)) \<le> 2 ^ 32 + 9" using rlpStr_le [of "compact k"] by simp
    then have l: "length (rlpStr (compact k) @ rlpEnc (ref K (pval K c))) \<le> 2 ^ 33 + 18" using r [of c] assms(2) by (simp add: PShort)
    have "length (rlpLst (rlpStr (compact k) @ rlpEnc (ref K (pval K c)))) \<le> length (rlpStr (compact k) @ rlpEnc (ref K (pval K c))) + 9"
      by (rule rlpLst_le) (use l in simp)
    then show ?thesis using l by (simp add: PShort)
  next
    case (PFull cs)
    have l: "length (concat (map (\<lambda>c. rlpEnc (ref K (pval K c))) cs)) \<le> 17 * (2 ^ 32 + 9)"
      using concat_length_le [of cs "\<lambda>c. rlpEnc (ref K (pval K c))" "2 ^ 32 + 9"] r assms(2) by (simp add: PFull)
    have "length (rlpLst (concat (map (\<lambda>c. rlpEnc (ref K (pval K c))) cs))) \<le> length (concat (map (\<lambda>c. rlpEnc (ref K (pval K c))) cs)) + 9"
      by (rule rlpLst_le) (use l in simp)
    then show ?thesis using l by (simp add: PFull comp_def)
  qed (simp add: rlpStr_def rlpHead_def)
qed

section \<open>Splitting encodings\<close>

lemma Split_str:
  assumes "length (rlpStr b @ rest) < 2 ^ 64"
  obtains k where "Split (rlpStr b @ rest) = Ok (Inr (k, b, rest))" "k \<noteq> List" "length b \<noteq> 1 \<Longrightarrow> k = String"
proof (cases "length b = 1 \<and> hd b < 0x80")
  case True
  then obtain x where b: "b = [x]" "x < 128" by (cases b) auto
  then have "Split (rlpStr b @ rest) = Ok (Inr (Byte, b, rest))"
    by (intro Split_item) (use assms in \<open>simp_all add: rlpStr_head\<close>)
  then show thesis using that [of Byte] b by simp
next
  case False
  then have "Split (rlpStr b @ rest) = Ok (Inr (String, b, rest))"
    by (intro Split_item) (use assms in \<open>auto simp: rlpStr_head\<close>)
  then show thesis using that [of String] by simp
qed

lemma Split_lst: "length (rlpLst p @ rest) < 2 ^ 64 \<Longrightarrow> Split (rlpLst p @ rest) = Ok (Inr (List, p, rest))"
  by (intro Split_item) (simp_all add: rlpLst_head)

lemma SplitString_str: "length (rlpStr b @ rest) < 2 ^ 64 \<Longrightarrow> SplitString (rlpStr b @ rest) = Ok (Inr (b, rest))"
  by (erule Split_str) (simp add: SplitString_def)

lemma SplitList_lst: "length (rlpLst p @ rest) < 2 ^ 64 \<Longrightarrow> SplitList (rlpLst p @ rest) = Ok (Inr (p, rest))"
  using Split_lst by (simp add: SplitList_def)

text \<open>Strings and lists, the two kinds of items.\<close>

fun item :: "rlpval \<Rightarrow> bool" where
  "item (RBytes b) = True"
| "item (RList vs) = True"
| "item v = False"

lemma readKind_enc:
  assumes "item v" "length (rlpEnc v @ rest) < 2 ^ 64"
  obtains k ts cs where "readKind (rlpEnc v @ rest) = Ok (Inr (k, ts, cs))" "unat (ts + cs) = length (rlpEnc v)"
proof -
  have "\<exists>k c. shortest k c \<and> rlpEnc v = kindHead k (length c) @ c"
  proof (cases v)
    case (RBytes b)
    show ?thesis
    proof (cases "length b = 1 \<and> hd b < 0x80")
      case True
      then show ?thesis using RBytes by (intro exI [of _ Byte] exI [of _ b]) (auto simp: rlpStr_head length_Suc_conv)
    next
      case False
      then show ?thesis using RBytes by (intro exI [of _ String] exI [of _ b]) (auto simp: rlpStr_head)
    qed
  next
    case (RList vs)
    then show ?thesis by (intro exI [of _ List] exI [of _ "concat (map rlpEnc vs)"]) (simp add: rlpLst_head)
  qed (use assms(1) in auto)
  then obtain k c where kc: "shortest k c" "rlpEnc v = kindHead k (length c) @ c" by blast
  have "unat (of_nat (length (kindHead k (length c))) + of_nat (length c) :: uint64) = length (rlpEnc v)"
    using assms(2) unat_of_nat64 [of "length (rlpEnc v)"] by (simp add: kc(2))
  then show thesis using that readKind_item [OF kc(1), of "rlpEnc v @ rest" rest] assms(2) by (simp add: kc(2))
qed

lemma CountValues_items:
  "\<forall>v \<in> set vs. item v \<and> rlpEnc v \<noteq> [] \<Longrightarrow> length (concat (map rlpEnc vs)) < 2 ^ 64 \<Longrightarrow> length vs < n \<Longrightarrow>
   CountValuesLoop n (concat (map rlpEnc vs)) i = Ok (Inr (i + length vs))"
proof (induction vs arbitrary: n i)
  case Nil
  then show ?case by (cases n) simp_all
next
  case (Cons v vs)
  then obtain m where n: "n = Suc m" by (cases n) auto
  obtain k ts cs where r: "readKind (rlpEnc v @ concat (map rlpEnc vs)) = Ok (Inr (k, ts, cs))" "unat (ts + cs) = length (rlpEnc v)"
    using readKind_enc [of v "concat (map rlpEnc vs)"] Cons.prems by auto
  have "rlpEnc v @ concat (map rlpEnc vs) \<noteq> []" using Cons.prems by simp
  then show ?case using Cons.IH [of m "i + 1"] Cons.prems r by (simp add: n)
qed

section \<open>Decoding\<close>

text \<open>The hash a node was read under, if it was not embedded, is its own and is in the database.\<close>

definition readFrom :: "bool \<Rightarrow> (bytes \<Rightarrow> bytes) \<Rightarrow> kv \<Rightarrow> bytes option \<Rightarrow> ptree \<Rightarrow> bool" where
  "readFrom r K db h t \<longleftrightarrow> stored K db t \<and>
     (case h of
        None \<Rightarrow> \<not> r \<and> length (penc K t) < 32
      | Some x \<Rightarrow> x = K (penc K t) \<and> (r \<or> 32 \<le> length (penc K t)) \<and> db x = Some (penc K t))"

lemma readFrom_flag: "readFrom r K db h t \<Longrightarrow> flagOk r K db \<lparr>nf_hash = h, nf_gen = g, nf_dirty = False\<rparr> t"
  by (auto simp: readFrom_def flagOk_def split: option.splits)

definition decodesTo :: "(bytes \<Rightarrow> bytes) \<Rightarrow> nodeDecoder \<Rightarrow> ptree \<Rightarrow> bool" where
  "decodesTo K dec t \<longleftrightarrow> (\<forall>h rest gen. length (penc K t @ rest) < 2 ^ 64 \<longrightarrow>
     (\<exists>n. dec h (penc K t @ rest) gen = Ok (Inr n) \<and> loaded n \<and> (\<forall>r db. readFrom r K db h t \<longrightarrow> reps r K db n t)))"

lemma pval_inner: "inner t \<Longrightarrow> \<exists>vs. pval K t = RList vs"
  by (cases t) auto

lemma rlpE_simps [simp]: "rlpE (Ok (Inr x)) = Ok (Inr x)" "rlpE (Ok (Inl e)) = Ok (Inl (NodeRlp e))" "rlpE Panic = Panic" "rlpE NoFuel = NoFuel"
  by (simp_all add: rlpE_def)

lemma decodeRef_ok:
  assumes K: "hash32 K" and c: "minimal c \<or> c = PNil"
    and dec: "inner c \<Longrightarrow> length (penc K c) < 32 \<Longrightarrow> decodesTo K dec c"
    and l: "length (rlpEnc (ref K (pval K c)) @ rest) < 2 ^ 64"
  shows "\<exists>n. decodeRef dec (rlpEnc (ref K (pval K c)) @ rest) gen = Ok (Inr (n, rest)) \<and>
    (\<forall>db. found K db c \<longrightarrow> stored K db c \<longrightarrow> reps False K db n c)"
proof (cases "c = PNil")
  case True
  then have e: "rlpEnc (ref K (pval K c)) = rlpStr []" by (simp add: ref_def)
  obtain k where "Split (rlpStr [] @ rest) = Ok (Inr (k, [], rest))" "k = String"
    by (rule Split_str [of "[]" rest]) (use l e in simp_all)
  then show ?thesis using True unfolding e by (simp add: decodeRef_def)
next
  case False
  then have i: "inner c" using c by (cases c) auto
  then obtain vs where vs: "pval K c = RList vs" using pval_inner by blast
  show ?thesis
  proof (cases "length (penc K c) < 32")
    case True
    then have e: "rlpEnc (ref K (pval K c)) = penc K c" by (simp add: ref_def vs)
    have s: "Split (penc K c @ rest) = Ok (Inr (List, concat (map rlpEnc vs), rest))"
      using Split_lst [of "concat (map rlpEnc vs)" rest] l e by (simp add: vs)
    obtain n where "dec None (penc K c @ rest) gen = Ok (Inr n)" "\<forall>db. readFrom False K db None c \<longrightarrow> reps False K db n c"
      using dec [OF i True] l e unfolding decodesTo_def by metis
    then show ?thesis using s True unfolding e by (simp add: decodeRef_def hashLen_def readFrom_def)
  next
    case False
    then have e: "rlpEnc (ref K (pval K c)) = rlpStr (K (penc K c))" by (simp add: ref_def vs)
    have h: "length (K (penc K c)) = 32" using K by (simp add: hash32_def)
    obtain k where "Split (rlpStr (K (penc K c)) @ rest) = Ok (Inr (k, K (penc K c), rest))" "k = String"
      by (rule Split_str [of "K (penc K c)" rest]) (use l e h in simp_all)
    then have "decodeRef dec (rlpStr (K (penc K c)) @ rest) gen = Ok (Inr (HashNode (K (penc K c)), rest))"
      using h by (auto simp: decodeRef_def)
    then show ?thesis unfolding e using i False by (auto simp: found_def)
  qed
qed

lemma decodeRefs_ok:
  assumes "hash32 K" "\<forall>c \<in> set cs. (minimal c \<or> c = PNil) \<and> (inner c \<longrightarrow> length (penc K c) < 32 \<longrightarrow> decodesTo K dec c)"
    "length (concat (map (\<lambda>c. rlpEnc (ref K (pval K c))) cs) @ rest) < 2 ^ 64"
  shows "\<exists>ns. decodeRefs dec (length cs) (concat (map (\<lambda>c. rlpEnc (ref K (pval K c))) cs) @ rest) gen = Ok (Inr (ns, rest)) \<and>
    length ns = length cs \<and> (\<forall>db. (\<forall>c \<in> set cs. found K db c \<and> stored K db c) \<longrightarrow> (\<forall>i < length ns. reps False K db (ns ! i) (cs ! i)))"
  using assms(2,3)
proof (induction cs)
  case (Cons c cs)
  let ?r = "concat (map (\<lambda>c. rlpEnc (ref K (pval K c))) cs) @ rest"
  obtain n where n: "decodeRef dec (rlpEnc (ref K (pval K c)) @ ?r) gen = Ok (Inr (n, ?r))"
    "\<forall>db. found K db c \<longrightarrow> stored K db c \<longrightarrow> reps False K db n c"
    using decodeRef_ok [OF assms(1), of c dec ?r gen] Cons.prems by auto
  obtain ns where ns: "decodeRefs dec (length cs) ?r gen = Ok (Inr (ns, rest))" "length ns = length cs"
    "\<forall>db. (\<forall>c \<in> set cs. found K db c \<and> stored K db c) \<longrightarrow> (\<forall>i < length ns. reps False K db (ns ! i) (cs ! i))"
    using Cons by auto
  have "\<forall>db. (\<forall>d \<in> set (c # cs). found K db d \<and> stored K db d) \<longrightarrow> (\<forall>i < length (n # ns). reps False K db ((n # ns) ! i) ((c # cs) ! i))"
    using n(2) ns(2,3) by (auto simp: nth_Cons split: nat.split)
  then show ?case using n(1) ns(1,2) by (intro exI [of _ "n # ns"]) simp
qed simp

lemma compact_ok: "nodeKey k \<Longrightarrow> compactToHex (compact k) = Ok k \<and> hexToCompact k = Ok (compact k)"
proof -
  assume "nodeKey k"
  then obtain c where "hexToCompact k = Ok c" "compactToHex c = Ok k" using nodeKey_compact by blast
  then show ?thesis by (simp add: compact_def)
qed

lemma nodeKeyI: "validKey k \<Longrightarrow> nodeKey k" "nibbles k \<Longrightarrow> nodeKey k"
  by (auto simp: nodeKey_def validKey_def)

lemma validKey_hasTerm: "validKey k \<Longrightarrow> hasTerm k"
  by (auto simp: validKey_def hasTerm_def)

lemma item_ref: "item (ref K (pval K c)) \<and> rlpEnc (ref K (pval K c)) \<noteq> []"
proof -
  have "rlpStr b \<noteq> []" for b by (auto simp: rlpStr_def rlpHead_def Let_def)
  moreover have "rlpLst p \<noteq> []" for p by (auto simp: rlpLst_def rlpHead_def Let_def)
  ultimately show ?thesis by (cases c) (auto simp: ref_def)
qed

lemma countOr0_items:
  assumes "\<forall>v \<in> set vs. item v \<and> rlpEnc v \<noteq> []" "length (concat (map rlpEnc vs)) < 2 ^ 64"
  shows "countOr0 (concat (map rlpEnc vs)) = Ok (length vs)"
proof -
  have "length vs \<le> length (concat (map rlpEnc vs))" using assms(1)
  proof (induction vs)
    case (Cons v vs)
    then show ?case by (cases "rlpEnc v") auto
  qed simp
  then show ?thesis using CountValues_items [OF assms, of "Suc (length (concat (map rlpEnc vs)))" 0]
    by (simp add: countOr0_def CountValues_def)
qed

lemma decodeNodeF_list:
  assumes "pval K t = RList vs" "\<forall>v \<in> set vs. item v \<and> rlpEnc v \<noteq> []" "length (penc K t @ rest) < 2 ^ 64"
  shows "decodeNodeF (Suc n) h (penc K t @ rest) gen =
    (if length vs = 2 then decodeShort (decodeNodeF n) h (concat (map rlpEnc vs)) gen
     else if length vs = 17 then decodeFull (decodeNodeF n) h (concat (map rlpEnc vs)) gen
     else Ok (Inl (NodeCount (length vs))))"
proof -
  have "length (concat (map rlpEnc vs)) < 2 ^ 64" using assms(1,3) rlpLst_length [of "concat (map rlpEnc vs)"] by simp
  moreover have "rlpLst (concat (map rlpEnc vs)) \<noteq> []" by (auto simp: rlpLst_def rlpHead_def Let_def)
  ultimately show ?thesis
    using SplitList_lst [of "concat (map rlpEnc vs)" rest] countOr0_items [OF assms(2)] assms(1,3) by simp
qed

lemma ref_embedded_length:
  assumes "inner c" "length (penc K c) < 32"
  shows "rlpEnc (ref K (pval K c)) = penc K c"
  using assms pval_inner [OF assms(1), of K] by (auto simp: ref_def)

lemma rlpLst_gt: "length p < length (rlpLst p)"
  by (auto simp: rlpLst_def rlpHead_def Let_def)

lemma concat_part: "c \<in> set cs \<Longrightarrow> length (f c) \<le> length (concat (map f cs))"
  by (induction cs) auto

lemma child_shorter:
  assumes "inner c" "length (penc K c) < 32" "t = PShort k c \<or> t = PFull cs \<and> c \<in> set cs"
  shows "length (penc K c) < length (penc K t)"
proof -
  have "length (penc K c) \<le> length (concat (map (\<lambda>c. rlpEnc (ref K (pval K c))) cs))" if "c \<in> set cs"
    using concat_part [OF that, of "\<lambda>c. rlpEnc (ref K (pval K c))"] ref_embedded_length [OF assms(1,2)] by simp
  moreover have "length (penc K c) < length (rlpLst (rlpStr (compact k) @ penc K c))"
    by (rule le_less_trans [OF _ rlpLst_gt]) simp
  ultimately show ?thesis using assms(3) rlpLst_gt ref_embedded_length [OF assms(1,2)] by (auto simp: comp_def intro: le_less_trans)
qed

lemma decode_node: "hash32 K \<Longrightarrow> sized t \<Longrightarrow> minimal t \<Longrightarrow> length (penc K t) < n \<Longrightarrow> decodesTo K (decodeNodeF n) t"
proof (induction t arbitrary: n rule: minimal.induct)
  case (1 k c)
  obtain m where n: "n = Suc m" using "1.prems"(4) by (cases n) auto
  let ?X = "rlpEnc (ref K (pval K c))"
  show ?case unfolding decodesTo_def
  proof (intro allI impI)
    fix h rest gen
    assume l: "length (penc K (PShort k c) @ rest) < 2 ^ 64"
    have i: "\<forall>v \<in> set [RBytes (compact k), ref K (pval K c)]. item v \<and> rlpEnc v \<noteq> []"
      using item_ref by (auto simp: rlpStr_def rlpHead_def Let_def)
    have e: "decodeNodeF n h (penc K (PShort k c) @ rest) gen = decodeShort (decodeNodeF m) h (rlpStr (compact k) @ ?X) gen"
      unfolding n decodeNodeF_list [OF pval.simps(3) i l] by simp
    have l2: "length (rlpStr (compact k) @ ?X) < 2 ^ 64" using l rlpLst_length [of "rlpStr (compact k) @ ?X"] by simp
    note s = SplitString_str [OF l2]
    from "1.prems"(3) consider (leaf) v where "validKey k" "c = PVal v" | (ext) cs where "nibbles k" "c = PFull cs" "minimal c"
      by (cases c) (auto simp: leaf_def)
    then show "\<exists>n'. decodeNodeF n h (penc K (PShort k c) @ rest) gen = Ok (Inr n') \<and> loaded n' \<and> (\<forall>r db. readFrom r K db h (PShort k c) \<longrightarrow> reps r K db n' (PShort k c))"
    proof cases
      case leaf
      have "SplitString (?X @ []) = Ok (Inr (v, []))" using SplitString_str [of v "[]"] l2 leaf by (simp add: ref_def)
      then show ?thesis unfolding e using s compact_ok [OF nodeKeyI(1)] validKey_hasTerm leaf by (simp add: decodeShort_def readFrom_flag)
    next
      case ext
      have "decodesTo K (decodeNodeF m) c" if "inner c" "length (penc K c) < 32"
        using "1.IH" ext "1.prems" child_shorter [OF that, of "PShort k c" k "[]"] n by simp
      then obtain nc where nc: "decodeRef (decodeNodeF m) (?X @ []) gen = Ok (Inr (nc, []))"
        "\<forall>db. found K db c \<longrightarrow> stored K db c \<longrightarrow> reps False K db nc c"
        using decodeRef_ok [OF "1.prems"(1), of c "decodeNodeF m" "[]" gen] ext(3) l2 by auto
      then show ?thesis unfolding e using s compact_ok [OF nodeKeyI(2)] nibbles_hasTerm ext(1) readFrom_def by (auto simp: decodeShort_def readFrom_flag)
    qed
  qed
next
  case (2 cs)
  obtain m where n: "n = Suc m" using "2.prems"(4) by (cases n) auto
  let ?f = "\<lambda>c. rlpEnc (ref K (pval K c))"
  have len: "length cs = 17" and c16: "cs ! 16 = PNil \<or> leaf (cs ! 16)" using "2.prems"(3) by simp_all
  then have split: "cs = take 16 cs @ [cs ! 16]" by (metis take_Suc_conv_app_nth take_all lessI eval_nat_numeral(3) numeral_eq_Suc order_refl)
  show ?case unfolding decodesTo_def
  proof (intro allI impI)
    fix h rest gen
    assume l: "length (penc K (PFull cs) @ rest) < 2 ^ 64"
    have e: "decodeNodeF n h (penc K (PFull cs) @ rest) gen = decodeFull (decodeNodeF m) h (concat (map ?f cs)) gen"
      unfolding n using decodeNodeF_list [OF pval.simps(4) _ l] item_ref len by (simp add: comp_def)
    have l2: "length (concat (map ?f cs)) < 2 ^ 64" using l rlpLst_length [of "concat (map ?f cs)"] by (simp add: comp_def)
    have c: "concat (map ?f cs) = concat (map ?f (take 16 cs)) @ ?f (cs ! 16)" by (subst split) simp
    have d: "\<forall>c \<in> set (take 16 cs). (minimal c \<or> c = PNil) \<and> (inner c \<longrightarrow> length (penc K c) < 32 \<longrightarrow> decodesTo K (decodeNodeF m) c)"
    proof
      fix c
      assume c: "c \<in> set (take 16 cs)"
      then have m: "minimal c \<or> c = PNil" using "2.prems"(3) by auto
      have "sized c" using "2.prems"(2) c by (auto dest: in_set_takeD)
      then show "(minimal c \<or> c = PNil) \<and> (inner c \<longrightarrow> length (penc K c) < 32 \<longrightarrow> decodesTo K (decodeNodeF m) c)"
        using m "2.IH" [OF c "2.prems"(1)] child_shorter [of c K "PFull cs" "[]" cs] "2.prems"(4) n in_set_takeD [OF c] by auto
    qed
    obtain v where v: "?f (cs ! 16) = rlpStr v" "if v = [] then cs ! 16 = PNil else cs ! 16 = PVal v"
      using c16 by (auto simp: leaf_def ref_def)
    obtain ns where ns: "decodeRefs (decodeNodeF m) 16 (concat (map ?f cs)) gen = Ok (Inr (ns, rlpStr v))" "length ns = 16"
      "\<forall>db. (\<forall>c \<in> set (take 16 cs). found K db c \<and> stored K db c) \<longrightarrow> (\<forall>i < 16. reps False K db (ns ! i) (take 16 cs ! i))"
      using decodeRefs_ok [OF "2.prems"(1) d, of "?f (cs ! 16)" gen] l2 len v(1) unfolding c by auto
    have "SplitString (rlpStr v @ []) = Ok (Inr (v, []))" by (rule SplitString_str) (use l2 in \<open>simp add: c v(1)\<close>)
    then have f: "decodeFull (decodeNodeF m) h (concat (map ?f cs)) gen =
      Ok (Inr (FullNode (ns @ [if length v > 0 then ValueNode v else NilNode]) \<lparr>nf_hash = h, nf_gen = gen, nf_dirty = False\<rparr>))"
      using ns(1) by (simp add: decodeFull_def)
    have "reps False K db ((ns @ [if length v > 0 then ValueNode v else NilNode]) ! i) (cs ! i)"
      if "stored K db (PFull cs)" "i < 17" for db i
    proof (cases "i < 16")
      case True
      then show ?thesis using ns(2,3) that in_set_takeD [of _ 16 cs] len by (auto simp: nth_append)
    next
      case False
      then have "i = 16" using that(2) by simp
      then show ?thesis using v(2) ns(2) by (auto simp: nth_append split: if_splits)
    qed
    then show "\<exists>n'. decodeNodeF n h (penc K (PFull cs) @ rest) gen = Ok (Inr n') \<and> loaded n' \<and> (\<forall>r db. readFrom r K db h (PFull cs) \<longrightarrow> reps r K db n' (PFull cs))"
      unfolding e f using ns(2) len readFrom_def readFrom_flag by auto
  qed
qed simp_all

end
