(* ===== verification/TrieRefine.thy ===== *)
theory TrieRefine
  imports TrieEncode
begin

text \<open>
  Lookup, insertion and deletion of trie/trie.go, which load nodes from the database on the way, do to
  the trie that a node stands for what the reference operations do.
\<close>

lemma ex_bool [simp]: "\<exists>b. b" "\<exists>b. \<not> b"
  by blast+

section \<open>Loading nodes\<close>

definition dbOf :: "Trie \<Rightarrow> kv" where
  "dbOf T = (case t_db T of None \<Rightarrow> Map.empty | Some db \<Rightarrow> db)"

lemma resolveHash_ok:
  assumes "hash32 K" "sized t" "minimal t" "reps rt K (dbOf T) (HashNode h) t"
  obtains n where "resolveHash T h p = Ok (Inr n)" "loaded n" "reps rt K (dbOf T) n t"
proof -
  obtain db where db: "t_db T = Some db" using assms(4) by (cases "t_db T") (auto simp: dbOf_def)
  have "length (penc K t) < 2 ^ 64" using penc_length [OF assms(1,2)] by simp
  then obtain n where n: "decodeNode (Some h) (penc K t @ []) (t_cachegen T) = Ok (Inr n)" "loaded n"
    "\<forall>r db. readFrom r K db (Some h) t \<longrightarrow> reps r K db n t"
    using decode_node [OF assms(1-3), of "Suc (length (penc K t))"] unfolding decodesTo_def decodeNode_def
    by (metis append_Nil2 lessI)
  have "readFrom rt K (dbOf T) (Some h) t" using assms(4) by (auto simp: readFrom_def)
  then have "decodeNode (Some h) (penc K t) (t_cachegen T) = Ok (Inr n)" "loaded n" "reps rt K (dbOf T) n t" using n by simp_all
  moreover have "db h = Some (penc K t)" using assms(4) db by (auto simp: dbOf_def)
  ultimately show thesis using that by (simp add: resolveHash_def db mustDecodeNode_def)
qed

text \<open>What a subtrie and the rest of a key look like when a walk reaches them.\<close>

definition fitsKey :: "ptree \<Rightarrow> bytes \<Rightarrow> bool" where
  "fitsKey t k \<longleftrightarrow> validKey k \<and> (minimal t \<or> t = PNil) \<or> k = [] \<and> (leaf t \<or> t = PNil)"

lemma fitsKey_PShort:
  assumes "fitsKey (PShort k c) key"
  shows "minimal (PShort k c)" "validKey key" "k \<noteq> []" "take (length k) key = k \<Longrightarrow> fitsKey c (drop (length k) key)"
proof -
  show m: "minimal (PShort k c)" and v: "validKey key" using assms by (auto simp: fitsKey_def leaf_def)
  then show "k \<noteq> []" by auto
  assume "take (length k) key = k"
  then have key: "key = k @ drop (length k) key" by (metis append_take_drop_id)
  from v m show "fitsKey c (drop (length k) key)"
  proof (cases rule: split_keys)
    case (diff p x r y s)
    then show ?thesis using key by simp
  qed (auto simp: fitsKey_def)
qed

lemma fitsKey_PFull:
  assumes "fitsKey (PFull cs) key"
  obtains x r where "key = x # r" "unat x < 17" "length cs = 17" "minimal (PFull cs)" "fitsKey (cs ! unat x) r" "validKey key"
proof -
  have m: "minimal (PFull cs)" and v: "validKey key" using assms by (auto simp: fitsKey_def leaf_def)
  then obtain x r where k: "key = x # r" by (cases key) auto
  then have x: "unat x < 17" "x = 16 \<and> r = [] \<or> x < 16 \<and> validKey r" using v validKey_hd [of x r] by (auto simp: validKey_Cons)
  have "fitsKey (cs ! unat x) r"
    using minimal_child [OF m x(1)] x(2) nibble_index [of x] m by (auto simp: fitsKey_def)
  then show thesis using that k x(1) m v by simp
qed

lemma fitsKey_hash: "reps rt K db (HashNode h) t \<Longrightarrow> fitsKey t k \<Longrightarrow> minimal t \<and> validKey k"
  by (auto simp: fitsKey_def leaf_def)

lemma reps_Nil: "reps rt K db n PNil \<longleftrightarrow> n = NilNode"
  by (cases n) auto

lemma reps_Val: "reps rt K db n (PVal v) \<longleftrightarrow> n = ValueNode v"
  by (cases n) auto

lemma reps_PShort: "reps rt K db n (PShort k c) \<Longrightarrow> (\<exists>m f. n = ShortNode k m f \<and> reps False K db m c) \<or> (\<exists>h. n = HashNode h)"
  by (cases n) auto

lemma reps_PFull:
  "reps rt K db n (PFull cs) \<Longrightarrow> (\<exists>ns f. n = FullNode ns f \<and> length ns = length cs \<and> (\<forall>i < length cs. reps False K db (ns ! i) (cs ! i))) \<or> (\<exists>h. n = HashNode h)"
  by (cases n) auto

lemma flagOk_new [simp]: "flagOk rt K db (newFlag T) t"
  by (simp add: flagOk_def newFlag_def)

lemma flagOk_gen [simp]: "flagOk rt K db (f\<lparr>nf_gen := g\<rparr>) t = flagOk rt K db f t"
  by (simp add: flagOk_def split: option.split)

lemma reps_update:
  assumes "length ns = length cs" "\<forall>i < length cs. reps False K db (ns ! i) (cs ! i)" "reps False K db m c"
  shows "reps rt K db (FullNode (ns[x := m]) (newFlag T)) (PFull (cs[x := c]))"
proof -
  have "reps False K db (ns[x := m] ! i) (cs[x := c] ! i)" if "i < length cs" for i using assms that by (cases "i = x") simp_all
  then show ?thesis using assms(1) by simp
qed

text \<open>The fuel a walk needs: two calls for each nibble that is left, one of them to load the node.\<close>

definition steps :: "node \<Rightarrow> bytes \<Rightarrow> nat" where
  "steps n key = 2 * length key + (case n of HashNode _ \<Rightarrow> 2 | _ \<Rightarrow> 1)"

lemma steps_le: "2 * length key + 1 \<le> steps n key" "steps n key \<le> 2 * length key + 2" "loaded n \<Longrightarrow> steps n key = 2 * length key + 1"
  by (cases n; simp add: steps_def)+

section \<open>Lookup\<close>

lemma tryGet_ok:
  assumes "hash32 K"
  shows "sized t \<Longrightarrow> reps rt K (dbOf T) n t \<Longrightarrow> fitsKey t (drop pos key) \<Longrightarrow> pos \<le> length key \<Longrightarrow> steps n (drop pos key) \<le> f \<Longrightarrow>
    \<exists>n' b. tryGet f T n key pos = Ok (Inr (pget t (drop pos key), n', b)) \<and> reps rt K (dbOf T) n' t \<and> (b \<or> n' = n)"
proof (induction f arbitrary: n t pos rt)
  case 0
  then show ?case using steps_le(1) [of "drop pos key" n] by simp
next
  case (Suc f)
  show ?case
  proof (cases n)
    case (ShortNode k m fl)
    then obtain c where t: "t = PShort k c" "reps False K (dbOf T) m c" using Suc.prems(2) by auto
    note F = fitsKey_PShort [OF Suc.prems(3) [unfolded t(1)]]
    show ?thesis
    proof (cases "take (length k) (drop pos key) = k")
      case False
      then show ?thesis using ShortNode t Suc.prems(2) by auto
    next
      case True
      have lk: "length k \<le> length (drop pos key)" using True by (metis length_take min.cobounded1)
      have d: "drop (pos + length k) key = drop (length k) (drop pos key)" by (simp add: add.commute)
      have p: "pos + length k \<le> length key" using lk Suc.prems(4) unfolding length_drop by linarith
      have "0 < length k" using F(3) by simp
      then have "steps m (drop (pos + length k) key) \<le> f"
        using Suc.prems(5) lk steps_le(2) [of m "drop (pos + length k) key"] steps_le(1) [of "drop pos key" n] unfolding length_drop by linarith
      then obtain n' b where "tryGet f T m key (pos + length k) = Ok (Inr (pget c (drop (pos + length k) key), n', b))"
        "reps False K (dbOf T) n' c" "b \<or> n' = m"
        using Suc.IH [OF _ t(2), of "pos + length k"] Suc.prems(1) F(4) [OF True] p t(1) d by auto
      then show ?thesis using True lk ShortNode t Suc.prems(2) d by auto
    qed
  next
    case (FullNode ns fl)
    then obtain cs where t: "t = PFull cs" "length ns = length cs" "\<forall>i < length cs. reps False K (dbOf T) (ns ! i) (cs ! i)"
      using Suc.prems(2) by auto
    from fitsKey_PFull [OF Suc.prems(3) [unfolded t(1)]] obtain x r where
      x: "drop pos key = x # r" "unat x < 17" "length cs = 17" "fitsKey (cs ! unat x) r" by blast
    then have p: "pos < length key" "key ! pos = x" by (metis drop_all list.distinct(1) not_le, metis nth_via_drop)
    have d: "drop (pos + 1) key = r" using x(1) by (metis drop_Suc_Cons drop_drop Suc_eq_plus1 add.commute drop0)
    have "steps (ns ! unat x) r \<le> f"
      using Suc.prems(5) x(1) steps_le(2) [of "ns ! unat x" r] steps_le(1) [of "drop pos key" n] by simp
    moreover have "sized (cs ! unat x)" using Suc.prems(1) t(1) x(2,3) by simp
    ultimately obtain n' b where "tryGet f T (ns ! unat x) key (pos + 1) = Ok (Inr (pget (cs ! unat x) r, n', b))"
      "reps False K (dbOf T) n' (cs ! unat x)" "b \<or> n' = ns ! unat x"
      using Suc.IH [of "cs ! unat x" False "ns ! unat x" "pos + 1"] t x p d by auto
    then show ?thesis using FullNode t x p Suc.prems(2) by (auto simp: nth_list_update)
  next
    case (HashNode h)
    have m: "minimal t" using fitsKey_hash Suc.prems(2,3) HashNode by blast
    from resolveHash_ok [OF assms Suc.prems(1) m] Suc.prems(2) HashNode obtain n1 where
      1: "resolveHash T h (take pos key) = Ok (Inr n1)" "loaded n1" "reps rt K (dbOf T) n1 t" by metis
    have "steps n1 (drop pos key) \<le> f" using Suc.prems(5) steps_le(3) [OF 1(2)] HashNode by (simp add: steps_def)
    from Suc.IH [OF Suc.prems(1) 1(3) Suc.prems(3,4) this] show ?thesis using 1 HashNode by auto
  qed (use Suc.prems in \<open>auto simp: fitsKey_def leaf_def\<close>)
qed

section \<open>Insertion\<close>

lemma prefixLen_all: "prefixLen key k = length k \<Longrightarrow> take (length k) key = k"
  by (cases key k rule: prefix_cases) auto

definition inserted :: "bool \<Rightarrow> (bytes \<Rightarrow> bytes) \<Rightarrow> Trie \<Rightarrow> ptree \<Rightarrow> bytes \<Rightarrow> bytes \<Rightarrow> (trieErr, bool \<times> node) fallible \<Rightarrow> bool" where
  "inserted rt K T t key v r \<longleftrightarrow>
     (\<exists>b n'. r = Ok (Inr (b, n')) \<and> reps rt K (dbOf T) n' (pins t key v) \<and> (b \<or> pins t key v = t))"

lemma insertedE:
  assumes "inserted rt K T t key v r"
  obtains b n' where "r = Ok (Inr (b, n'))" "reps rt K (dbOf T) n' (pins t key v)" "b \<or> pins t key v = t"
  using assms unfolding inserted_def by blast

lemma insert_nil: "0 < f \<Longrightarrow> trie_insert f T NilNode p k c = Ok (Inr (True, if k = [] then c else ShortNode k c (newFlag T)))"
  by (cases f) auto

lemma reps_mk: "reps False K db c t \<Longrightarrow> reps rt K db c t \<Longrightarrow> reps rt K db (if k = [] then c else ShortNode k c (newFlag T)) (mk k t)"
  by (simp add: mk_def)

lemma reps_branch:
  assumes "reps False K db a s" "reps False K db b t"
  shows "reps rt K db (FullNode ((replicate 17 NilNode)[y := a, x := b]) (newFlag T)) (PFull ((replicate 17 PNil)[y := s, x := t]))"
proof -
  have "\<forall>i < 17. reps False K db (replicate 17 NilNode ! i) (replicate 17 PNil ! i)" by simp
  then have "reps False K db (FullNode ((replicate 17 NilNode)[y := a]) (newFlag T)) (PFull ((replicate 17 PNil)[y := s]))"
    by (intro reps_update [OF _ _ assms(1)]) simp_all
  then show ?thesis by (intro reps_update [OF _ _ assms(2)]) simp_all
qed

lemma trie_insert_ok:
  assumes "hash32 K"
  shows "sized t \<Longrightarrow> reps rt K (dbOf T) n t \<Longrightarrow> fitsKey t key \<Longrightarrow> steps n key \<le> f \<Longrightarrow>
    inserted rt K T t key v (trie_insert f T n p key (ValueNode v))"
proof (induction f arbitrary: n t p key rt)
  case 0
  then show ?case using steps_le(1) [of key n] by simp
next
  case (Suc f)
  show ?case
  proof (cases "key = []")
    case True
    then have t: "leaf t \<or> t = PNil" using Suc.prems(3) by (simp add: fitsKey_def)
    then have "pins t [] v = PVal v" using pins_leaf [of t v] by (auto simp: leaf_def)
    moreover have "n = NilNode \<or> (\<exists>w. n = ValueNode w \<and> t = PVal w)" using t Suc.prems(2) by (auto simp: leaf_def reps_Nil reps_Val)
    ultimately show ?thesis using True by (auto simp: inserted_def)
  next
    case ne: False
    then have v: "validKey key" using Suc.prems(3) by (simp add: fitsKey_def)
    have lk: "0 < length key" using ne by simp
    show ?thesis
    proof (cases n)
      case NilNode
      then show ?thesis using Suc.prems(2) ne by (auto simp: inserted_def mk_def)
    next
      case (ShortNode k m fl)
      then obtain c where t: "t = PShort k c" "reps False K (dbOf T) m c" using Suc.prems(2) by auto
      note F = fitsKey_PShort [OF Suc.prems(3) [unfolded t(1)]]
      show ?thesis
      proof (cases "prefixLen key k = length k")
        case True
        have tk: "take (length k) key = k" by (rule prefixLen_all [OF True])
        have "length k \<le> length key" using tk by (metis length_take min.cobounded1)
        moreover have "0 < length k" using F(3) by simp
        ultimately have "steps m (drop (length k) key) \<le> f"
          using Suc.prems(4) steps_le(2) [of m "drop (length k) key"] steps_le(1) [of key n] unfolding length_drop by linarith
        from Suc.IH [OF _ t(2) F(4) [OF tk] this, of "p @ take (length k) key"] Suc.prems(1) t(1)
        show ?thesis using True ne ShortNode t Suc.prems(2) by (auto elim!: insertedE simp: inserted_def)
      next
        case False
        from v F(1) show ?thesis
        proof (cases rule: split_keys)
          case (diff q x r y s)
          have f: "0 < f" using Suc.prems(4) steps_le(1) [of key n] lk by linarith
          have e: "pins t key v = mk q (branch y (mk s c) x (mk r (PVal v)))"
            unfolding t(1) using pins_cases(2) [OF diff(3), of q r s c v] diff(1,2,4) by simp
          let ?b = "FullNode ((replicate 17 NilNode)[unat y := if s = [] then m else ShortNode s m (newFlag T),
              unat x := if r = [] then ValueNode v else ShortNode r (ValueNode v) (newFlag T)]) (newFlag T)"
          have R: "reps b K (dbOf T) ?b (branch y (mk s c) x (mk r (PVal v)))" for b
            unfolding branch_def by (intro reps_branch reps_mk) (simp_all add: t(2))
          have ml: "prefixLen (q @ x # r) (q @ y # s) = length q" using diff(1,2,4) by simp
          have "trie_insert (Suc f) T n p key (ValueNode v) = Ok (Inr (True, if q = [] then ?b else ShortNode q ?b (newFlag T)))"
            unfolding ShortNode diff(1,2) by (simp add: ml insert_nil [OF f] diff(6,7) index_def)
          then show ?thesis using reps_mk [OF R R, of rt q T] unfolding inserted_def e by blast
        qed (use False in auto)
      qed
    next
      case (FullNode ns fl)
      then obtain cs where t: "t = PFull cs" "length ns = length cs" "\<forall>i < length cs. reps False K (dbOf T) (ns ! i) (cs ! i)"
        using Suc.prems(2) by auto
      from fitsKey_PFull [OF Suc.prems(3) [unfolded t(1)]] obtain x r where
        x: "key = x # r" "unat x < 17" "length cs = 17" "fitsKey (cs ! unat x) r" by blast
      have s: "steps (ns ! unat x) r \<le> f" using Suc.prems(4) x(1) steps_le(2) [of "ns ! unat x" r] steps_le(1) [of key n] by simp
      have "reps False K (dbOf T) (ns ! unat x) (cs ! unat x)" "sized (cs ! unat x)" using t x Suc.prems(1) by simp_all
      from Suc.IH [OF this(2,1) x(4) s, of "p @ [x]"] obtain b n' where
        1: "trie_insert f T (ns ! unat x) (p @ [x]) r (ValueNode v) = Ok (Inr (b, n'))"
          "reps False K (dbOf T) n' (pins (cs ! unat x) r v)" "b \<or> pins (cs ! unat x) r v = cs ! unat x" by (rule insertedE)
      have "reps rt K (dbOf T) (FullNode (ns[unat x := n']) (newFlag T)) (PFull (cs[unat x := pins (cs ! unat x) r v]))"
        by (rule reps_update [OF t(2,3) 1(2)])
      then show ?thesis using 1 FullNode t x Suc.prems(2) by (cases b) (auto simp: inserted_def simp del: reps.simps)
    next
      case (HashNode h)
      have m: "minimal t" using fitsKey_hash Suc.prems(2,3) HashNode by blast
      from resolveHash_ok [OF assms Suc.prems(1) m] Suc.prems(2) HashNode obtain n1 where
        1: "resolveHash T h p = Ok (Inr n1)" "loaded n1" "reps rt K (dbOf T) n1 t" by metis
      have "steps n1 key \<le> f" using Suc.prems(4) steps_le(3) [OF 1(2)] HashNode by (simp add: steps_def)
      from Suc.IH [OF Suc.prems(1) 1(3) Suc.prems(3) this, of p] show ?thesis
        using 1 HashNode ne by (auto elim!: insertedE simp: inserted_def)
    next
      case (ValueNode w)
      then show ?thesis using Suc.prems(2,3) ne by (auto simp: fitsKey_def leaf_def)
    qed
  qed
qed

section \<open>Deletion\<close>

definition presentNodes :: "node list \<Rightarrow> nat list" where
  "presentNodes ns = filter (\<lambda>i. ns ! i \<noteq> NilNode) [0..<length ns]"

lemma singlePos_gen:
  "singlePos pos (int i) ns =
     (case map (\<lambda>j. j + i) (presentNodes ns) of
        [] \<Rightarrow> pos
      | [j] \<Rightarrow> if pos = -1 then int j else -2
      | _ \<Rightarrow> -2)"
proof (induction ns arbitrary: pos i)
  case (Cons n ns)
  have u: "[0..<Suc (length ns)] = 0 # map Suc [0..<length ns]" by (simp add: upt_conv_Cons map_Suc_upt del: upt_Suc)
  have p: "presentNodes (n # ns) = (if n \<noteq> NilNode then [0] else []) @ map Suc (presentNodes ns)"
    unfolding presentNodes_def by (simp add: u filter_map comp_def del: upt_Suc)
  have s: "int i + 1 = int (Suc i)" by simp
  show ?case
  proof (cases "n = NilNode")
    case True
    then show ?thesis unfolding singlePos.simps s Cons p by (simp add: comp_def)
  next
    case False
    have "pos = -1 \<Longrightarrow> singlePos (int i) (int (Suc i)) ns = (case presentNodes ns of [] \<Rightarrow> int i | _ \<Rightarrow> -2)"
      unfolding Cons by (simp split: list.split)
    then show ?thesis unfolding singlePos.simps s p using False by (simp split: list.split)
  qed
qed (simp add: presentNodes_def)

lemma singlePos_eq: "singlePos (-1) 0 ns = (case presentNodes ns of [] \<Rightarrow> -1 | [j] \<Rightarrow> int j | _ \<Rightarrow> -2)"
  using singlePos_gen [of "-1" 0 ns] by (simp split: list.split)

lemma presentNodes_reps:
  assumes "length ns = length cs" "\<forall>i < length cs. reps rt K db (ns ! i) (cs ! i)"
  shows "presentNodes ns = present cs"
proof -
  have "ns ! i \<noteq> NilNode \<longleftrightarrow> cs ! i \<noteq> PNil" if "i < length cs" for i
    using assms(2) that reps_Nil [of rt K db "ns ! i"] by (metis reps.simps(1))
  then show ?thesis unfolding presentNodes_def present_def using assms(1) by (intro filter_cong) auto
qed

definition removed :: "bool \<Rightarrow> (bytes \<Rightarrow> bytes) \<Rightarrow> Trie \<Rightarrow> ptree \<Rightarrow> bytes \<Rightarrow> (trieErr, bool \<times> node) fallible \<Rightarrow> bool" where
  "removed rt K T t key r \<longleftrightarrow>
     (\<exists>b n'. r = Ok (Inr (b, n')) \<and> reps rt K (dbOf T) n' (pdel t key) \<and> (b \<and> (loaded n' \<or> n' = NilNode) \<or> \<not> b \<and> pdel t key = t))"

lemma removedE:
  assumes "removed rt K T t key r"
  obtains b n' where "r = Ok (Inr (b, n'))" "reps rt K (dbOf T) n' (pdel t key)" "b \<Longrightarrow> loaded n' \<or> n' = NilNode" "\<not> b \<Longrightarrow> pdel t key = t"
  using assms unfolding removed_def by blast

definition shortOf :: "Trie \<Rightarrow> bytes \<Rightarrow> node \<Rightarrow> node \<Rightarrow> node" where
  "shortOf T k cn n = (case cn of ShortNode ck cval _ \<Rightarrow> ShortNode (k @ ck) cval (newFlag T) | _ \<Rightarrow> ShortNode k n (newFlag T))"

lemma reps_shortOf:
  assumes "reps False K db cn t" "loaded cn \<or> \<not> inner t" "reps False K db n t"
  shows "reps rt K db (shortOf T k cn n) (joinShort k t)"
  using assms by (cases cn) (auto simp: shortOf_def joinShort_def split: ptree.splits)

lemma removeFull:
  assumes K: "hash32 K" and l: "length ns = 17" "length cs = 17" and r: "\<forall>i < 17. reps False K (dbOf T) (ns ! i) (cs ! i)"
    and p: "present cs \<noteq> []" and m: "\<And>i. i < 16 \<Longrightarrow> cs ! i = PNil \<or> minimal (cs ! i)" "cs ! 16 = PNil \<or> leaf (cs ! 16)"
    and s: "\<forall>c \<in> set cs. sized c"
  shows "\<exists>n'. (let pos = singlePos (-1) 0 ns in
      if pos \<ge> 0 then
        (let short = ShortNode [word_of_int pos] (ns ! nat pos) (newFlag T) in
         if pos \<noteq> 16 then
           bindE (resolve T (ns ! nat pos) p') (\<lambda>cnode.
             Ok (Inr (True, case cnode of ShortNode ck cval _ \<Rightarrow> ShortNode (word_of_int pos # ck) cval (newFlag T) | _ \<Rightarrow> short)))
         else Ok (Inr (True, short)))
      else Ok (Inr (True, FullNode ns (newFlag T)))) = Ok (Inr (True, n')) \<and> loaded n' \<and> reps rt K (dbOf T) n' (collapse cs)"
proof -
  have pn: "presentNodes ns = present cs" using presentNodes_reps [of ns cs False K "dbOf T"] l r by simp
  from p show ?thesis
  proof (cases rule: collapse_cases)
    case (one i)
    have pos: "singlePos (-1) 0 ns = int i" using singlePos_eq [of ns] pn one(1) by simp
    have ri: "reps False K (dbOf T) (ns ! i) (cs ! i)" using r one(2) l by simp
    show ?thesis
    proof (cases "i = 16")
      case True
      then show ?thesis using pos ri one(5) by (simp add: Let_def)
    next
      case False
      then have i: "i < 16" using one(2) l by simp
      then have mi: "minimal (cs ! i)" using m(1) one(3) by blast
      have "sized (cs ! i)" using s one(2) by simp
      obtain cn where cn: "resolve T (ns ! i) p' = Ok (Inr cn)" "loaded cn" "reps False K (dbOf T) cn (cs ! i)"
      proof (cases "ns ! i")
        case (HashNode h)
        then show thesis using resolveHash_ok [OF K \<open>sized (cs ! i)\<close> mi] ri that by (metis resolve_def node.simps(28))
      qed (use ri mi that in \<open>auto simp: resolve_def\<close>)
      have "reps rt K (dbOf T) (shortOf T [of_nat i] cn (ns ! i)) (joinShort [of_nat i] (cs ! i))"
        by (rule reps_shortOf [OF cn(3) _ ri]) (simp add: cn(2))
      moreover have "loaded (shortOf T [of_nat i] cn (ns ! i))" by (simp add: shortOf_def split: node.split)
      ultimately show ?thesis using pos cn(1) one(5) False by (auto simp: Let_def shortOf_def split: node.split)
    qed
  next
    case many
    then obtain i j js where "present cs = i # j # js" using length_present [of cs] by (cases "present cs"; cases "tl (present cs)") auto
    then show ?thesis using singlePos_eq [of ns] pn many(2) l r by simp
  qed
qed

lemma bounded_sized: "bounded t \<Longrightarrow> sized t"
proof -
  have "deep n t \<Longrightarrow> n < 2 ^ 32 \<Longrightarrow> sized t" for n
    by (induction n t rule: deep.induct) auto
  then show "bounded t \<Longrightarrow> sized t" by (simp add: bounded_def)
qed

lemma trie_delete_ok:
  assumes "hash32 K"
  shows "bounded t \<Longrightarrow> reps rt K (dbOf T) n t \<Longrightarrow> fitsKey t key \<Longrightarrow> steps n key \<le> f \<Longrightarrow> removed rt K T t key (trie_delete f T n p key)"
proof (induction f arbitrary: n t p key rt)
  case 0
  then show ?case using steps_le(1) [of key n] by simp
next
  case (Suc f)
  show ?case
  proof (cases n)
    case (ShortNode k m fl)
    then obtain c where t: "t = PShort k c" "reps False K (dbOf T) m c" using Suc.prems(2) by auto
    note F = fitsKey_PShort [OF Suc.prems(3) [unfolded t(1)]]
    from F(2,1) show ?thesis
    proof (cases rule: split_keys)
      case same
      then show ?thesis using t ShortNode by (simp add: removed_def)
    next
      case (below r cs)
      have r: "r \<noteq> []" using below(2) by auto
      have "0 < length k" using F(3) by simp
      moreover have "length key = length k + length r" using below(1) by simp
      ultimately have "steps m r \<le> f"
        using Suc.prems(4) steps_le(2) [of m r] steps_le(1) [of key n] by linarith
      moreover have fk: "fitsKey c r" using below(2,5) by (simp add: fitsKey_def)
      ultimately have "removed False K T c r (trie_delete f T m (p @ k) r)" using Suc.IH [OF bounded_PShort t(2)] Suc.prems(1) t(1) by simp
      then obtain b n' where 1: "trie_delete f T m (p @ k) r = Ok (Inr (b, n'))" "reps False K (dbOf T) n' (pdel c r)"
        "b \<Longrightarrow> loaded n' \<or> n' = NilNode" "\<not> b \<Longrightarrow> pdel c r = c" by (rule removedE) blast
      have e: "pdel t key = joinShort k (pdel c r)" using t(1) below(1,6) r by (simp add: Let_def)
      have m: "minimal (pdel c r)" using deletes_full [OF pdel_deletes] below by blast
      have d: "trie_delete (Suc f) T n p key = Ok (Inr (if \<not> b then (False, n) else (True, shortOf T k n' n')))"
        using 1(1) below(1,6) r by (simp add: ShortNode shortOf_def Let_def)
      show ?thesis
      proof (cases b)
        case True
        then have "loaded n'" using 1(2,3) m by auto
        then have "reps rt K (dbOf T) (shortOf T k n' n') (pdel t key)" unfolding e by (intro reps_shortOf 1(2)) simp
        moreover have "loaded (shortOf T k n' n')" by (simp add: shortOf_def split: node.split)
        ultimately show ?thesis using d True by (auto simp: removed_def simp del: trie_delete.simps pdel.simps)
      next
        case False
        then have "pdel t key = t" using e 1(4) below(4) t(1) by (simp add: joinShort_def)
        then show ?thesis using d False Suc.prems(2) by (auto simp: removed_def simp del: trie_delete.simps pdel.simps)
      qed
    next
      case (diff q x r y s)
      then have "prefixLen key k < length k" by simp
      then show ?thesis using ShortNode t Suc.prems(2) by (simp add: removed_def)
    qed
  next
    case (FullNode ns fl)
    then obtain cs where t: "t = PFull cs" "length ns = length cs" "\<forall>i < length cs. reps False K (dbOf T) (ns ! i) (cs ! i)"
      using Suc.prems(2) by auto
    from fitsKey_PFull [OF Suc.prems(3) [unfolded t(1)]] obtain x r where
      x: "key = x # r" "unat x < 17" "length cs = 17" "minimal (PFull cs)" "fitsKey (cs ! unat x) r" "validKey key" by blast
    have s: "steps (ns ! unat x) r \<le> f" using Suc.prems(4) x(1) steps_le(2) [of "ns ! unat x" r] steps_le(1) [of key n] by simp
    have sz: "\<forall>c \<in> set cs. bounded c" using Suc.prems(1) t(1) bounded_PFull by blast
    then have "reps False K (dbOf T) (ns ! unat x) (cs ! unat x)" "bounded (cs ! unat x)" using t x by simp_all
    from Suc.IH [OF this(2,1) x(5) s, of "p @ [x]"] obtain b n' where
      1: "trie_delete f T (ns ! unat x) (p @ [x]) r = Ok (Inr (b, n'))" "reps False K (dbOf T) n' (pdel (cs ! unat x) r)"
        "\<not> b \<Longrightarrow> pdel (cs ! unat x) r = cs ! unat x" by (rule removedE) blast
    define d where "d = pdel (cs ! unat x) r"
    have e: "pdel t key = collapse (cs[unat x := d])" using t(1) x by (simp add: d_def)
    show ?thesis
    proof (cases b)
      case False
      then have "pdel t key = t" using e 1(3) t(1) collapse_minimal [OF x(4)] by (simp add: d_def)
      moreover have "trie_delete (Suc f) T n p key = Ok (Inr (False, n))" using 1(1) False FullNode x t(2) by simp
      ultimately show ?thesis using Suc.prems(2) by (auto simp: removed_def simp del: trie_delete.simps pdel.simps)
    next
      case True
      have R: "\<forall>i < 17. reps False K (dbOf T) (ns[unat x := n'] ! i) (cs[unat x := d] ! i)"
        using reps_update [OF t(2,3) 1(2), of True "unat x" T] t(2) x(3) by (simp add: d_def)
      have mc: "cs[unat x := d] ! i = PNil \<or> minimal (cs[unat x := d] ! i)" if "i < 16" for i
        using deleted_child(1) [OF x(4,6,1) that] by (simp add: d_def)
      have m16: "cs[unat x := d] ! 16 = PNil \<or> leaf (cs[unat x := d] ! 16)"
        using deleted_child(2) [OF x(4,6,1)] by (simp add: d_def)
      have sd: "\<forall>c \<in> set (cs[unat x := d]). sized c"
        using sz bounded_pdel [of "cs ! unat x" r] x(2,3) set_update_subset_insert [of cs "unat x" d] bounded_sized by (auto simp: d_def)
      obtain n2 where n2: "trie_delete (Suc f) T n p key = Ok (Inr (True, n2))" "loaded n2" "reps rt K (dbOf T) n2 (collapse (cs[unat x := d]))"
        using removeFull [OF assms _ _ R present_update [OF x(4,2)] mc m16 sd, of p] 1(1) True FullNode x(1-3) t(2) by (auto simp: Let_def)
      then show ?thesis unfolding removed_def e by blast
    qed
  next
    case (HashNode h)
    have m: "minimal t" using fitsKey_hash Suc.prems(2,3) HashNode by blast
    from resolveHash_ok [OF assms bounded_sized [OF Suc.prems(1)] m] Suc.prems(2) HashNode obtain n1 where
      1: "resolveHash T h p = Ok (Inr n1)" "loaded n1" "reps rt K (dbOf T) n1 t" by metis
    have "steps n1 key \<le> f" using Suc.prems(4) steps_le(3) [OF 1(2)] HashNode by (simp add: steps_def)
    from Suc.IH [OF Suc.prems(1) 1(3) Suc.prems(3) this, of p] show ?thesis
      using 1 HashNode by (auto elim!: removedE simp: removed_def)
  qed (use Suc.prems in \<open>simp_all add: removed_def\<close>)
qed

end
