(* ===== verification/TrieHash.thy ===== *)
theory TrieHash
  imports TrieRefine
begin

text \<open>
  Hashing and storing (trie/hasher.go): the hash of a node is the hash of the encoding of the trie it
  stands for, whatever hashes are cached in it, and after storing every node that is referred to by
  its hash is in the database.
\<close>

section \<open>What storing keeps\<close>

text \<open>The encodings of a trie and of the tries below it.\<close>

fun encs :: "(bytes \<Rightarrow> bytes) \<Rightarrow> ptree \<Rightarrow> bytes set" where
  "encs K (PShort k c) = insert (penc K (PShort k c)) (encs K c)"
| "encs K (PFull cs) = insert (penc K (PFull cs)) (\<Union>c \<in> set cs. encs K c)"
| "encs K t = {}"

lemma encs_self: "inner t \<Longrightarrow> penc K t \<in> encs K t"
  by (cases t) simp_all

definition keeps :: "(bytes \<Rightarrow> bytes) \<Rightarrow> bytes set \<Rightarrow> kv \<Rightarrow> kv \<Rightarrow> bool" where
  "keeps K E db db' \<longleftrightarrow> (\<forall>e \<in> E. db (K e) = Some e \<longrightarrow> db' (K e) = Some e)"

lemma keeps_refl [simp]: "keeps K E db db"
  by (simp add: keeps_def)

lemma keeps_trans: "keeps K E a b \<Longrightarrow> keeps K E b c \<Longrightarrow> keeps K E a c"
  by (simp add: keeps_def)

lemma keeps_put: "inj_on K E \<Longrightarrow> e \<in> E \<Longrightarrow> keeps K E db (db(K e \<mapsto> e))"
  by (auto simp: keeps_def dest: inj_onD)

lemma found_keeps: "keeps K E db db' \<Longrightarrow> encs K t \<subseteq> E \<Longrightarrow> found K db t \<Longrightarrow> found K db' t"
  using encs_self [of t K] by (auto simp: found_def keeps_def)

lemma stored_keeps: "keeps K E db db' \<Longrightarrow> encs K t \<subseteq> E \<Longrightarrow> stored K db t \<Longrightarrow> stored K db' t"
proof (induction K t rule: encs.induct)
  case (1 K k c)
  then show ?case using found_keeps [of K E db db' c] by simp
next
  case (2 K cs)
  show ?case unfolding stored.simps
  proof
    fix c
    assume c: "c \<in> set cs"
    then have "encs K c \<subseteq> E" using "2.prems"(2) by auto
    then show "found K db' c \<and> stored K db' c" using "2.IH" [OF c] "2.prems"(1,3) c found_keeps [of K E db db' c] by simp
  qed
qed simp_all

lemma stored_all: "\<forall>e \<in> encs K t. db (K e) = Some e \<Longrightarrow> stored K db t \<and> found K db t"
proof (induction K t rule: encs.induct)
  case (2 K cs)
  have "stored K db c \<and> found K db c" if "c \<in> set cs" for c using "2.IH" [OF that] "2.prems" that by auto
  moreover have "found K db (PFull cs)" using "2.prems" by (simp add: found_def)
  ultimately show ?case by simp
qed (simp_all add: found_def)

lemma flagOk_keeps: "keeps K E db db' \<Longrightarrow> encs K t \<subseteq> E \<Longrightarrow> inner t \<Longrightarrow> flagOk r K db f t \<Longrightarrow> flagOk r K db' f t"
  using stored_keeps [of K E db db' t] encs_self [of t K] by (auto simp: flagOk_def keeps_def split: option.splits)

lemma reps_keeps: "keeps K E db db' \<Longrightarrow> encs K t \<subseteq> E \<Longrightarrow> reps r K db n t \<Longrightarrow> reps r K db' n t"
proof (induction r K db n t rule: reps.induct)
  case (3 r K db k n f t)
  then show ?case by (auto intro: flagOk_keeps)
next
  case (4 r K db ns f t)
  then obtain cs where cs: "t = PFull cs" "length ns = length cs" "\<forall>i < length ns. reps False K db (ns ! i) (cs ! i)" "flagOk r K db f t" by auto
  have "encs K (cs ! i) \<subseteq> E" if "i < length cs" for i using "4.prems"(2) cs(1) that nth_mem by fastforce
  then have "\<forall>i < length ns. reps False K db' (ns ! i) (cs ! i)" using "4.IH" "4.prems"(1) cs(1-3) by simp
  moreover have "flagOk r K db' f t" by (rule flagOk_keeps [OF "4.prems"(1,2) _ cs(4)]) (simp add: cs(1))
  ultimately show ?case using cs(1,2) by simp
next
  case (5 r K db h t)
  then show ?case using stored_keeps [of K E db db' t] encs_self [of t K] by (auto simp: keeps_def)
qed auto

section \<open>Writing one node\<close>

text \<open>The database a hasher sees: what it writes to, or else what the trie reads from.\<close>

definition cur :: "kv \<Rightarrow> writer option \<Rightarrow> kv" where
  "cur db wo = (case wo of None \<Rightarrow> db | Some w \<Rightarrow> w_map w)"

text \<open>Nothing fails to be stored, and no two of the encodings have the same hash.\<close>

definition accepts :: "(bytes \<Rightarrow> bytes) \<Rightarrow> bytes set \<Rightarrow> writer option \<Rightarrow> bool" where
  "accepts K E wo \<longleftrightarrow> (case wo of None \<Rightarrow> True | Some w \<Rightarrow> inj_on K E \<and> (\<forall>e \<in> E. \<not> w_fails w (K e)))"

definition moved :: "(bytes \<Rightarrow> bytes) \<Rightarrow> bytes set \<Rightarrow> kv \<Rightarrow> writer option \<Rightarrow> writer option \<Rightarrow> bool" where
  "moved K E db wo wo' \<longleftrightarrow>
     keeps K E (cur db wo) (cur db wo') \<and> Option.is_none wo' = Option.is_none wo \<and> accepts K E wo'"

lemma moved_refl: "accepts K E wo \<Longrightarrow> moved K E db wo wo"
  by (simp add: moved_def)

lemma moved_trans: "moved K E db a b \<Longrightarrow> moved K E db b c \<Longrightarrow> moved K E db a c"
  unfolding moved_def using keeps_trans by blast

text \<open>The node that replaces a hashed one in its parent.\<close>

definition shown :: "bool \<Rightarrow> (bytes \<Rightarrow> bytes) \<Rightarrow> node \<Rightarrow> ptree \<Rightarrow> bool" where
  "shown r K hn t \<longleftrightarrow> (if r then hn = HashNode (K (penc K t)) else hn \<noteq> NilNode \<and> nodeVal hn = ref K (pval K t))"

definition committed :: "bool \<Rightarrow> (bytes \<Rightarrow> bytes) \<Rightarrow> kv \<Rightarrow> ptree \<Rightarrow> bool" where
  "committed r K db t \<longleftrightarrow> stored K db t \<and> (r \<or> 32 \<le> length (penc K t) \<longrightarrow> db (K (penc K t)) = Some (penc K t))"

definition hashedTo :: "bool \<Rightarrow> (bytes \<Rightarrow> bytes) \<Rightarrow> bytes set \<Rightarrow> kv \<Rightarrow> writer option \<Rightarrow> ptree \<Rightarrow>
    (trieErr, node \<times> node \<times> writer option) fallible \<Rightarrow> bool" where
  "hashedTo r K E db wo t res \<longleftrightarrow>
     (\<exists>hn kn wo'. res = Ok (Inr (hn, kn, wo')) \<and> shown r K hn t \<and> moved K E db wo wo' \<and> reps r K (cur db wo') kn t \<and>
        (Option.is_none wo \<or> committed r K (cur db wo') t))"

fun flags :: "node \<Rightarrow> nodeFlag" where
  "flags (ShortNode k n f) = f"
| "flags (FullNode ns f) = f"
| "flags n = undefined"

text \<open>A loaded node without its flags.\<close>

fun body :: "(bytes \<Rightarrow> bytes) \<Rightarrow> kv \<Rightarrow> node \<Rightarrow> ptree \<Rightarrow> bool" where
  "body K db (ShortNode k n f) t \<longleftrightarrow> (\<exists>c. t = PShort k c \<and> reps False K db n c)"
| "body K db (FullNode ns f) t \<longleftrightarrow> (\<exists>cs. t = PFull cs \<and> list_all2 (reps False K db) ns cs)"
| "body K db n t \<longleftrightarrow> False"

lemma body_loaded: "body K db n t \<Longrightarrow> loaded n \<and> inner t"
  by (cases n) auto

lemma reps_body: "loaded n \<Longrightarrow> reps r K db n t \<longleftrightarrow> flagOk r K db (flags n) t \<and> body K db n t"
  by (cases n) (auto simp: list_all2_conv_all_nth)

lemma body_keeps: "keeps K E db db' \<Longrightarrow> encs K t \<subseteq> E \<Longrightarrow> body K db n t \<Longrightarrow> body K db' n t"
proof -
  assume k: "keeps K E db db'" "encs K t \<subseteq> E" and b: "body K db n t"
  have "reps r K db' m c" if "reps r K db m c" "encs K c \<subseteq> E" for r m c using reps_keeps [OF k(1) that(2,1)] .
  then show ?thesis using b k(2) by (cases n) (fastforce elim!: list.rel_mono_strong)+
qed

lemma pval_encodable: "encodable (pval K t)"
proof -
  have "encodable (pval K t) \<and> encodable (ref K (pval K t))"
    by (induction K t rule: pval.induct) (auto simp: ref_def split: rlpval.split)
  then show ?thesis by simp
qed

lemma store_ok:
  assumes K: "h_sha h = K" and i: "inner t" and s: "length (penc K t) < 2 ^ 64" and v: "nodeVal col = pval K t" "loaded col"
    and c: "fst (node_cache col) = None \<or> fst (node_cache col) = Some (K (penc K t))"
    and a: "accepts K E wo" "encs K t \<subseteq> E"
  shows "\<exists>hn wo'. hasher_store h col wo r = Ok (Inr (hn, wo')) \<and> moved K E db wo wo' \<and> shown r K hn t \<and>
    (case hn of HashNode x \<Rightarrow> Some x | _ \<Rightarrow> None) = (if r \<or> 32 \<le> length (penc K t) then Some (K (penc K t)) else None) \<and>
    (Option.is_none wo \<or> \<not> (r \<or> 32 \<le> length (penc K t)) \<or> cur db wo' (K (penc K t)) = Some (penc K t))"
proof -
  obtain vs where vs: "pval K t = RList vs" using pval_inner [OF i] by blast
  have e: "EncodeToBytes (nodeVal col) = Some (penc K t)" using EncodeToBytes_eq [OF s] pval_encodable v(1) by simp
  have n: "\<not> (case col of HashNode _ \<Rightarrow> True | NilNode \<Rightarrow> True | _ \<Rightarrow> False)" "\<And>x. (case col of HashNode x \<Rightarrow> Some x | _ \<Rightarrow> None) = (None :: bytes option)"
    "col \<noteq> NilNode" using v(2) by (cases col; simp)+
  have E: "penc K t \<in> E" using encs_self [OF i] a(2) by blast
  show ?thesis
  proof (cases "length (penc K t) < 32 \<and> \<not> r")
    case True
    then show ?thesis using e n v(1) vs by (auto simp: hasher_store_def shown_def ref_def moved_refl [OF a(1)])
  next
    case False
    have x: "(case fst (node_cache col) of Some hash \<Rightarrow> hash | None \<Rightarrow> h_sha h (penc K t)) = K (penc K t)" using c K by auto
    have sh: "shown r K (HashNode (K (penc K t))) t" using False vs by (auto simp: shown_def ref_def)
    show ?thesis
    proof (cases wo)
      case None
      then show ?thesis using e n(1) False x sh by (auto simp: hasher_store_def moved_refl accepts_def Let_def)
    next
      case (Some w)
      have "keeps K E (w_map w) ((w_map w)(K (penc K t) \<mapsto> penc K t))" by (rule keeps_put [OF _ E]) (use a(1) Some in \<open>simp add: accepts_def\<close>)
      then have "moved K E db wo (Some (w\<lparr>w_map := (w_map w)(K (penc K t) \<mapsto> penc K t)\<rparr>))"
        using Some a(1) by (simp add: moved_def cur_def accepts_def)
      then show ?thesis using e n(1) False x sh Some a(1) E by (auto simp: hasher_store_def db_Put_def accepts_def cur_def Let_def)
    qed
  qed
qed

section \<open>Hashing a node\<close>

lemma node_cache_flags: "loaded n \<Longrightarrow> node_cache n = (nf_hash (flags n), nf_dirty (flags n))"
  by (cases n) auto

lemma cached_ok:
  assumes "cachedHash h n wo = Some (hn, kn)" "reps r K (cur db wo) n t" "accepts K E wo"
  shows "hashedTo r K E db wo t (Ok (Inr (hn, kn, wo)))"
proof -
  have l: "loaded n" using assms(1) by (cases n) (auto simp: cachedHash_def)
  obtain x where x: "nf_hash (flags n) = Some x" using assms(1) node_cache_flags [OF l] by (cases "nf_hash (flags n)") (auto simp: cachedHash_def)
  have u: "canUnload n g m \<Longrightarrow> \<not> nf_dirty (flags n)" for g m using l by (cases n) auto
  have i: "inner t" and f: "flagOk r K (cur db wo) (flags n) t" using assms(2) reps_body [OF l] body_loaded by blast+
  then obtain vs where vs: "pval K t = RList vs" using pval_inner by blast
  have s: "shown r K hn t" using assms(1) f x vs by (auto simp: cachedHash_def node_cache_flags [OF l] flagOk_def shown_def ref_def split: if_splits)
  have c: "\<not> Option.is_none wo \<Longrightarrow> \<not> nf_dirty (flags n)" using assms(1) u x by (auto simp: cachedHash_def node_cache_flags [OF l] split: if_splits)
  have k: "kn = n \<or> \<not> nf_dirty (flags n) \<and> kn = HashNode x" using assms(1) u x by (auto simp: cachedHash_def node_cache_flags [OF l] split: if_splits)
  have "reps r K (cur db wo) kn t" using k assms(2) f x i by (auto simp: flagOk_def)
  moreover have "Option.is_none wo \<or> committed r K (cur db wo) t" using c f x by (auto simp: flagOk_def committed_def)
  ultimately show ?thesis using s moved_refl [OF assms(3)] by (auto simp: hashedTo_def)
qed

lemma setHash_parts: "loaded n \<Longrightarrow> flags (setHash x b n) = (flags n)\<lparr>nf_hash := x, nf_dirty := (if b then False else nf_dirty (flags n))\<rparr> \<and>
    body K db (setHash x b n) t = body K db n t \<and> loaded (setHash x b n)"
  by (cases n) auto

lemma storeHashed_ok:
  assumes K: "h_sha h = K" and s: "length (penc K t) < 2 ^ 64" and v: "nodeVal col = pval K t" "loaded col" "flags col = f" "flags kn = f"
    and f: "flagOk r K (cur db wo) f t" and b: "body K (cur db wo1) kn t" and m: "moved K E db wo wo1"
    and st: "Option.is_none wo \<or> stored K (cur db wo1) t" and a: "encs K t \<subseteq> E"
    and nc: "nf_hash f = None \<or> nf_dirty f"
  shows "hashedTo r K E db wo t (storeHashed h wo r (col, kn, wo1))"
proof -
  have l: "loaded kn" "inner t" using body_loaded [OF b] by auto
  have "fst (node_cache col) = None \<or> fst (node_cache col) = Some (K (penc K t))"
    using node_cache_flags [OF v(2)] f v(3) by (auto simp: flagOk_def split: option.splits)
  from store_ok [OF K l(2) s v(1,2) this _ a, of wo1 r db] m obtain hn wo' where
    hs: "hasher_store h col wo1 r = Ok (Inr (hn, wo'))" "moved K E db wo1 wo'" "shown r K hn t"
      "(case hn of HashNode x \<Rightarrow> Some x | _ \<Rightarrow> None) = (if r \<or> 32 \<le> length (penc K t) then Some (K (penc K t)) else None)"
      "Option.is_none wo1 \<or> \<not> (r \<or> 32 \<le> length (penc K t)) \<or> cur db wo' (K (penc K t)) = Some (penc K t)"
    unfolding moved_def by blast
  define x where "x = (case hn of HashNode x \<Rightarrow> Some x | _ \<Rightarrow> None)"
  let ?f = "f\<lparr>nf_hash := x, nf_dirty := (if \<not> Option.is_none wo then False else nf_dirty f)\<rparr>"
  have k: "keeps K E (cur db wo1) (cur db wo')" "Option.is_none wo1 = Option.is_none wo" using hs(2) m by (auto simp: moved_def)
  have b': "body K (cur db wo') kn t" by (rule body_keeps [OF k(1) a b])
  have c: "Option.is_none wo \<or> committed r K (cur db wo') t"
    using st hs(5) k(2) stored_keeps [OF k(1) a] by (auto simp: committed_def)
  have "flagOk r K (cur db wo') ?f t"
    using hs(4) c f nc by (auto simp: x_def flagOk_def committed_def split: option.splits if_splits)
  moreover have p: "flags (setHash x (\<not> Option.is_none wo) kn) = ?f" "body K (cur db wo') (setHash x (\<not> Option.is_none wo) kn) t"
    "loaded (setHash x (\<not> Option.is_none wo) kn)"
    using setHash_parts [OF l(1), of x "\<not> Option.is_none wo" K "cur db wo'" t] b' unfolding v(4) by blast+
  ultimately have "reps r K (cur db wo') (setHash x (\<not> Option.is_none wo) kn) t" unfolding reps_body [OF p(3)] by (simp only: simp_thms)
  then show ?thesis using hs(1,3) moved_trans [OF m hs(2)] c unfolding storeHashed_def hashedTo_def x_def by auto
qed

lemma hashKids_ok:
  assumes IH: "\<And>c n wo. c \<in> set cs \<Longrightarrow> minimal c \<Longrightarrow> reps False K (cur db wo) n c \<Longrightarrow> accepts K E wo \<Longrightarrow> hashedTo False K E db wo c (hasher_hash h n wo False)"
    and cs: "length cs = Suc k" "\<forall>i < k. cs ! i = PNil \<or> minimal (cs ! i)" "cs ! k = PNil \<or> leaf (cs ! k)" "\<forall>c \<in> set cs. encs K c \<subseteq> E"
    and r: "list_all2 (reps False K (cur db wo)) ns cs" "accepts K E wo"
  shows "\<exists>ccs kcs wo'. hashKids h k ns wo = Ok (Inr (ccs, kcs, wo')) \<and> map nodeVal ccs = map (\<lambda>c. ref K (pval K c)) cs \<and>
    moved K E db wo wo' \<and> list_all2 (reps False K (cur db wo')) kcs cs \<and>
    (Option.is_none wo \<or> (\<forall>c \<in> set cs. found K (cur db wo') c \<and> stored K (cur db wo') c))"
  using assms
proof (induction k arbitrary: cs ns wo)
  case 0
  then obtain c n where e: "cs = [c]" "ns = [n]" "reps False K (cur db wo) n c" by (auto simp: length_Suc_conv list_all2_Cons2)
  from "0.prems"(4) e(1) consider "c = PNil" | v where "c = PVal v" by (auto simp: leaf_def)
  then show ?case using e moved_refl [OF "0.prems"(7)] by cases (auto simp: reps_Nil reps_Val ref_def found_def)
next
  case (Suc k)
  obtain c cs' where cs: "cs = c # cs'" "length cs' = Suc k" using Suc.prems(2) by (auto simp: length_Suc_conv)
  then obtain n ns' where ns: "ns = n # ns'" "reps False K (cur db wo) n c" "list_all2 (reps False K (cur db wo)) ns' cs'"
    using Suc.prems(6) by (auto simp: list_all2_Cons2)
  have E: "encs K c \<subseteq> E" "\<forall>d \<in> set cs'. encs K d \<subseteq> E" using Suc.prems(5) cs(1) by auto
  have m: "\<forall>i < k. cs' ! i = PNil \<or> minimal (cs' ! i)" "cs' ! k = PNil \<or> leaf (cs' ! k)" using Suc.prems(3,4) cs(1) by fastforce+
  have ih: "\<And>c n wo. c \<in> set cs' \<Longrightarrow> minimal c \<Longrightarrow> reps False K (cur db wo) n c \<Longrightarrow> accepts K E wo \<Longrightarrow> hashedTo False K E db wo c (hasher_hash h n wo False)"
    using Suc.prems(1) cs(1) by simp
  show ?case
  proof (cases "c = PNil")
    case True
    then have n: "n = NilNode" using ns(2) by (simp add: reps_Nil)
    from Suc.IH [OF ih cs(2) m E(2) ns(3) Suc.prems(7)] obtain ccs kcs wo' where
      2: "hashKids h k ns' wo = Ok (Inr (ccs, kcs, wo'))" "map nodeVal ccs = map (\<lambda>c. ref K (pval K c)) cs'" "moved K E db wo wo'"
        "list_all2 (reps False K (cur db wo')) kcs cs'" "Option.is_none wo \<or> (\<forall>c \<in> set cs'. found K (cur db wo') c \<and> stored K (cur db wo') c)"
      by blast
    then have "hashKids h (Suc k) ns wo = Ok (Inr (ValueNode [] # ccs, NilNode # kcs, wo'))" using n ns(1) by simp
    then show ?thesis using 2(2-5) cs(1) True by (auto simp: ref_def found_def)
  next
    case False
    then have mc: "minimal c" using Suc.prems(3) cs(1) by fastforce
    have n: "n \<noteq> NilNode" using ns(2) False by auto
    from Suc.prems(1) [OF _ mc ns(2) Suc.prems(7)] cs(1) obtain hn kn wo1 where
      1: "hasher_hash h n wo False = Ok (Inr (hn, kn, wo1))" "shown False K hn c" "moved K E db wo wo1" "reps False K (cur db wo1) kn c"
        "Option.is_none wo \<or> committed False K (cur db wo1) c" unfolding hashedTo_def by auto
    have k1: "keeps K E (cur db wo) (cur db wo1)" "accepts K E wo1" "Option.is_none wo1 = Option.is_none wo" using 1(3) by (auto simp: moved_def)
    have "list_all2 (reps False K (cur db wo1)) ns' cs'" using ns(3) E(2) reps_keeps [OF k1(1)] by (auto elim!: list.rel_mono_strong)
    from Suc.IH [OF ih cs(2) m E(2) this k1(2)] obtain ccs kcs wo' where
      2: "hashKids h k ns' wo1 = Ok (Inr (ccs, kcs, wo'))" "map nodeVal ccs = map (\<lambda>c. ref K (pval K c)) cs'" "moved K E db wo1 wo'"
        "list_all2 (reps False K (cur db wo')) kcs cs'" "Option.is_none wo1 \<or> (\<forall>c \<in> set cs'. found K (cur db wo') c \<and> stored K (cur db wo') c)"
      by blast
    have k2: "keeps K E (cur db wo1) (cur db wo')" using 2(3) by (simp add: moved_def)
    have "hashKids h (Suc k) ns wo = Ok (Inr (hn # ccs, kn # kcs, wo'))" using 1(1) 2(1) n ns(1) by simp
    moreover have "nodeVal hn = ref K (pval K c)" using 1(2) by (simp add: shown_def)
    moreover have "reps False K (cur db wo') kn c" by (rule reps_keeps [OF k2 E(1) 1(4)])
    moreover have "Option.is_none wo \<or> found K (cur db wo') c \<and> stored K (cur db wo') c"
      using 1(5) found_keeps [OF k2 E(1)] stored_keeps [OF k2 E(1)] by (auto simp: committed_def found_def)
    ultimately show ?thesis using 2 moved_trans [OF 1(3) 2(3)] cs(1) k1(3) by auto
  qed
qed

text \<open>What the children of a node are replaced by, and the node to keep.\<close>

definition childrenTo :: "(bytes \<Rightarrow> bytes) \<Rightarrow> bytes set \<Rightarrow> kv \<Rightarrow> writer option \<Rightarrow> node \<Rightarrow> ptree \<Rightarrow>
    (trieErr, node \<times> node \<times> writer option) fallible \<Rightarrow> bool" where
  "childrenTo K E db wo n t res \<longleftrightarrow>
     (\<exists>col kn wo'. res = Ok (Inr (col, kn, wo')) \<and> nodeVal col = pval K t \<and> loaded col \<and> flags col = flags n \<and> flags kn = flags n \<and>
        body K (cur db wo') kn t \<and> moved K E db wo wo' \<and> (Option.is_none wo \<or> stored K (cur db wo') t))"

lemma children_ok:
  assumes IH: "\<And>c n wo. c \<in> (case t of PShort _ c \<Rightarrow> {c} | PFull cs \<Rightarrow> set cs | _ \<Rightarrow> {}) \<Longrightarrow> minimal c \<Longrightarrow> reps False K (cur db wo) n c \<Longrightarrow>
      accepts K E wo \<Longrightarrow> hashedTo False K E db wo c (hasher_hash h n wo False)"
    and m: "minimal t" and b: "body K (cur db wo) n t" and a: "accepts K E wo" and E: "encs K t \<subseteq> E"
  shows "childrenTo K E db wo n t (hashChildren h n wo)"
proof (cases n)
  case (ShortNode k v f)
  then obtain c where t: "t = PShort k c" "reps False K (cur db wo) v c" using b by auto
  from m t(1) consider (leaf) w where "validKey k" "c = PVal w" | (ext) cs where "nibbles k" "c = PFull cs" "minimal c"
    by (cases c) (auto simp: leaf_def)
  then show ?thesis
  proof cases
    case leaf
    have "hexToCompact k = Ok (compact k)" using compact_ok [OF nodeKeyI(1)] leaf(1) by blast
    then show ?thesis using leaf(2) t ShortNode moved_refl [OF a]
      by (auto simp: childrenTo_def reps_Val ref_def found_def)
  next
    case ext
    from IH [OF _ ext(3) t(2) a] t(1) obtain hn kn wo' where
      1: "hasher_hash h v wo False = Ok (Inr (hn, kn, wo'))" "shown False K hn c" "moved K E db wo wo'" "reps False K (cur db wo') kn c"
        "Option.is_none wo \<or> committed False K (cur db wo') c" unfolding hashedTo_def by auto
    have "hexToCompact k = Ok (compact k)" using compact_ok [OF nodeKeyI(2)] ext(1) by blast
    moreover have "\<forall>w. v \<noteq> ValueNode w" using t(2) ext(2) by auto
    ultimately have "hashChildren h n wo = Ok (Inr (ShortNode (compact k) hn f, ShortNode k kn f, wo'))"
      using 1(1) ShortNode by (cases v) auto
    then show ?thesis using 1 t(1) ShortNode by (auto simp: childrenTo_def shown_def committed_def found_def)
  qed
next
  case (FullNode ns f)
  then obtain cs where t: "t = PFull cs" "list_all2 (reps False K (cur db wo)) ns cs" using b by auto
  have m16: "length cs = Suc 16" "cs ! 16 = PNil \<or> leaf (cs ! 16)" using m t(1) by simp_all
  have mi: "cs ! i = PNil \<or> minimal (cs ! i)" if "i < 16" for i using minimal_child [of cs i] m t(1) that by auto
  have Ec: "\<forall>c \<in> set cs. encs K c \<subseteq> E" using E t(1) by auto
  have ih: "\<And>c n wo. c \<in> set cs \<Longrightarrow> minimal c \<Longrightarrow> reps False K (cur db wo) n c \<Longrightarrow> accepts K E wo \<Longrightarrow> hashedTo False K E db wo c (hasher_hash h n wo False)"
    using IH t(1) by simp
  from hashKids_ok [OF ih m16(1) _ m16(2) Ec t(2) a] mi obtain ccs kcs wo' where
    1: "hashKids h 16 ns wo = Ok (Inr (ccs, kcs, wo'))" "map nodeVal ccs = map (\<lambda>c. ref K (pval K c)) cs" "moved K E db wo wo'"
      "list_all2 (reps False K (cur db wo')) kcs cs" "Option.is_none wo \<or> (\<forall>c \<in> set cs. found K (cur db wo') c \<and> stored K (cur db wo') c)"
    by blast
  then show ?thesis using t(1) FullNode by (auto simp: childrenTo_def)
qed (use b in auto)

lemma hash_step:
  assumes K: "h_sha h = K" "hash32 K" and s: "sized t" "minimal t" and E: "encs K t \<subseteq> E"
    and r: "reps r K (cur db wo) n t" and a: "accepts K E wo"
    and ch: "loaded n \<Longrightarrow> childrenTo K E db wo n t (hashChildren h n wo)"
  shows "hashedTo r K E db wo t (hasher_hash h n wo r)"
proof -
  have i: "inner t" using s(2) by (cases t) auto
  have l: "length (penc K t) < 2 ^ 64" using penc_length [OF K(2) s(1)] by simp
  have nn: "n \<noteq> NilNode" using r i by (cases t) auto
  show ?thesis
  proof (cases "cachedHash h n wo")
    case (Some p)
    obtain hn kn where p: "p = (hn, kn)" by (cases p)
    then have "hasher_hash h n wo r = Ok (Inr (hn, kn, wo))" using Some nn by simp
    then show ?thesis using cached_ok [OF Some [unfolded p] r a] by simp
  next
    case None
    then have e: "hasher_hash h n wo r = bindE (hashChildren h n wo) (storeHashed h wo r)" using nn by simp
    show ?thesis
    proof (cases "loaded n")
      case True
      from ch [OF True] obtain col kn wo1 where
        1: "hashChildren h n wo = Ok (Inr (col, kn, wo1))" "nodeVal col = pval K t" "loaded col" "flags col = flags n" "flags kn = flags n"
          "body K (cur db wo1) kn t" "moved K E db wo wo1" "Option.is_none wo \<or> stored K (cur db wo1) t" unfolding childrenTo_def by blast
      have f: "flagOk r K (cur db wo) (flags n) t" using r reps_body [OF True] by blast
      have nc: "nf_hash (flags n) = None \<or> nf_dirty (flags n)" using None node_cache_flags [OF True]
        by (auto simp: cachedHash_def split: option.splits if_splits)
      show ?thesis using storeHashed_ok [OF K(1) l 1(2-5) f 1(6-8) E nc] e 1(1) by simp
    next
      case False
      then obtain x where x: "n = HashNode x" using r i nn by (cases n) auto
      obtain vs where "pval K t = RList vs" using pval_inner [OF i] by blast
      then have "shown r K n t" using r x by (auto simp: shown_def ref_def)
      then show ?thesis using e x r moved_refl [OF a]
        by (auto simp: hashedTo_def storeHashed_def hasher_store_def committed_def)
    qed
  qed
qed

lemma hash_ok:
  assumes K: "h_sha h = K" "hash32 K"
  shows "sized t \<Longrightarrow> minimal t \<Longrightarrow> encs K t \<subseteq> E \<Longrightarrow> reps r K (cur db wo) n t \<Longrightarrow> accepts K E wo \<Longrightarrow>
    hashedTo r K E db wo t (hasher_hash h n wo r)"
proof (induction t arbitrary: r wo n)
  case (PShort k c)
  have "childrenTo K E db wo n (PShort k c) (hashChildren h n wo)" if l: "loaded n"
  proof (rule children_ok [OF _ PShort.prems(2) _ PShort.prems(5,3)])
    show "body K (cur db wo) n (PShort k c)" using PShort.prems(4) reps_body [OF l] by blast
  qed (use PShort in auto)
  then show ?case by (intro hash_step [OF K PShort.prems(1,2) PShort.prems(3-5)]) simp
next
  case (PFull cs)
  have "childrenTo K E db wo n (PFull cs) (hashChildren h n wo)" if l: "loaded n"
  proof (rule children_ok [OF _ PFull.prems(2) _ PFull.prems(5,3)])
    show "body K (cur db wo) n (PFull cs)" using PFull.prems(4) reps_body [OF l] by blast
    fix c m wo
    assume c: "c \<in> (case PFull cs of PShort _ c \<Rightarrow> {c} | PFull cs \<Rightarrow> set cs | _ \<Rightarrow> {})" "minimal c" "reps False K (cur db wo) m c" "accepts K E wo"
    then have "sized c" "encs K c \<subseteq> E" using PFull.prems(1,3) by auto
    then show "hashedTo False K E db wo c (hasher_hash h m wo False)" using PFull.IH c by simp
  qed
  then show ?case by (intro hash_step [OF K PFull.prems(1,2) PFull.prems(3-5)]) simp
qed simp_all

end
