(* ===== verification/TrieStore.thy ===== *)
theory TrieStore
  imports TrieHash
begin

text \<open>
  The trie as a store of keys and values. The contract of a store is a locale; the trie of
  trie/trie.go and the trie with hashed keys of trie/secure_trie.go both keep it. The root hash
  depends on the contents only, and what is committed can be loaded again.
\<close>

section \<open>The contract of a store\<close>

datatype kvOp =
    OpGet bytes
  | OpPut bytes bytes
  | OpDel bytes

type_synonym ('e, 's) getOp = "'s \<Rightarrow> bytes \<Rightarrow> ('e, bytes option \<times> 's) fallible"
type_synonym ('e, 's) putOp = "'s \<Rightarrow> bytes \<Rightarrow> bytes \<Rightarrow> ('e, 's) fallible"
type_synonym ('e, 's) delOp = "'s \<Rightarrow> bytes \<Rightarrow> ('e, 's) fallible"

text \<open>A sequence of operations: the values that were read, and the store at the end.\<close>

fun runOps :: "('e, 's) getOp \<Rightarrow> ('e, 's) putOp \<Rightarrow> ('e, 's) delOp \<Rightarrow> kvOp list \<Rightarrow> 's \<Rightarrow> ('e, bytes option list \<times> 's) fallible" where
  "runOps g p d [] s = Ok (Inr ([], s))"
| "runOps g p d (OpGet k # ops) s =
     bindE (g s k) (\<lambda>(v, s'). bindE (runOps g p d ops s') (\<lambda>(vs, s''). Ok (Inr (v # vs, s''))))"
| "runOps g p d (OpPut k v # ops) s = bindE (p s k v) (runOps g p d ops)"
| "runOps g p d (OpDel k # ops) s = bindE (d s k) (runOps g p d ops)"

definition putMap :: "kv \<Rightarrow> bytes \<Rightarrow> bytes \<Rightarrow> kv" where
  "putMap m k v = m(k := (if v = [] then None else Some v))"

fun mapOps :: "kvOp list \<Rightarrow> kv \<Rightarrow> bytes option list \<times> kv" where
  "mapOps [] m = ([], m)"
| "mapOps (OpGet k # ops) m = (let (vs, m') = mapOps ops m in (m k # vs, m'))"
| "mapOps (OpPut k v # ops) m = mapOps ops (putMap m k v)"
| "mapOps (OpDel k # ops) m = mapOps ops (m(k := None))"

fun opOk :: "(bytes \<Rightarrow> bool) \<Rightarrow> (bytes \<Rightarrow> bool) \<Rightarrow> kvOp \<Rightarrow> bool" where
  "opOk kok vok (OpGet k) \<longleftrightarrow> kok k"
| "opOk kok vok (OpPut k v) \<longleftrightarrow> kok k \<and> vok v"
| "opOk kok vok (OpDel k) \<longleftrightarrow> kok k"

locale kv_store =
  fixes rep :: "'s \<Rightarrow> kv \<Rightarrow> bool" and g :: "('e, 's) getOp" and p :: "('e, 's) putOp" and d :: "('e, 's) delOp"
    and kok :: "bytes \<Rightarrow> bool" and vok :: "bytes \<Rightarrow> bool"
  assumes get_law: "rep s m \<Longrightarrow> kok k \<Longrightarrow> \<exists>s'. g s k = Ok (Inr (m k, s')) \<and> rep s' m"
    and put_law: "rep s m \<Longrightarrow> kok k \<Longrightarrow> vok v \<Longrightarrow> \<exists>s'. p s k v = Ok (Inr s') \<and> rep s' (putMap m k v)"
    and del_law: "rep s m \<Longrightarrow> kok k \<Longrightarrow> \<exists>s'. d s k = Ok (Inr s') \<and> rep s' (m(k := None))"
begin

lemma runs:
  "rep s m \<Longrightarrow> \<forall>x \<in> set ops. opOk kok vok x \<Longrightarrow>
   \<exists>s'. runOps g p d ops s = Ok (Inr (fst (mapOps ops m), s')) \<and> rep s' (snd (mapOps ops m))"
proof (induction ops arbitrary: s m)
  case (Cons x ops)
  show ?case
  proof (cases x)
    case (OpGet k)
    then obtain s1 where "g s k = Ok (Inr (m k, s1))" "rep s1 m" using get_law Cons.prems by fastforce
    then show ?thesis using Cons.IH [of s1 m] Cons.prems(2) OpGet by (auto split: prod.split)
  next
    case (OpPut k v)
    then obtain s1 where "p s k v = Ok (Inr s1)" "rep s1 (putMap m k v)" using put_law Cons.prems by fastforce
    then show ?thesis using Cons.IH [of s1] Cons.prems(2) OpPut by auto
  next
    case (OpDel k)
    then obtain s1 where "d s k = Ok (Inr s1)" "rep s1 (m(k := None))" using del_law Cons.prems by fastforce
    then show ?thesis using Cons.IH [of s1] Cons.prems(2) OpDel by auto
  qed
qed simp

end

section \<open>The trie\<close>

text \<open>The trie a \<^verbatim>\<open>Trie\<close> stands for: as small as possible, with keys that were byte strings.\<close>

definition byteKeys :: "ptree \<Rightarrow> bool" where
  "byteKeys t \<longleftrightarrow> (\<forall>k. validKey k \<longrightarrow> pget t k \<noteq> None \<longrightarrow> (\<exists>b. k = keybytesToHex b))"

definition trieIs :: "(bytes \<Rightarrow> bytes) \<Rightarrow> Trie \<Rightarrow> ptree \<Rightarrow> bool" where
  "trieIs K T t \<longleftrightarrow> hash32 K \<and> minimalRoot t \<and> bounded t \<and> byteKeys t \<and> reps True K (dbOf T) (t_root T) t"

definition contents :: "ptree \<Rightarrow> kv" where
  "contents t k = pget t (keybytesToHex k)"

definition trieFor :: "(bytes \<Rightarrow> bytes) \<Rightarrow> Trie \<Rightarrow> kv \<Rightarrow> bool" where
  "trieFor K T m \<longleftrightarrow> (\<exists>t. trieIs K T t \<and> m = contents t)"

text \<open>Keys and values for which a number of nested calls and the lengths in an encoding are enough.\<close>

definition keyOk :: "nat \<Rightarrow> bytes \<Rightarrow> bool" where
  "keyOk f k \<longleftrightarrow> 4 * length k + 4 \<le> f \<and> length k < 2 ^ 31"

definition valueOk :: "bytes \<Rightarrow> bool" where
  "valueOk v \<longleftrightarrow> length v < 2 ^ 32"

lemma hexKey_length: "length (keybytesToHex k) = 2 * length k + 1"
  by (simp add: keybytesToHex_split splitByte_length)

lemma keyOk_steps: "keyOk f k \<Longrightarrow> steps n (keybytesToHex k) \<le> f \<and> length (keybytesToHex k) < 2 ^ 32"
  using steps_le(2) [of n "keybytesToHex k"] by (simp add: keyOk_def hexKey_length)

lemma root_fits: "minimalRoot t \<Longrightarrow> fitsKey t (keybytesToHex k)"
  by (auto simp: fitsKey_def minimalRoot_def)

lemma contents_pins:
  assumes "minimalRoot t" "v \<noteq> []"
  shows "contents (pins t (keybytesToHex k) v) = (contents t)(k \<mapsto> v)" "byteKeys t \<Longrightarrow> byteKeys (pins t (keybytesToHex k) v)"
  using assms pget_pins [of t "keybytesToHex k"] by (auto simp: contents_def byteKeys_def minimalRoot_def keybytesToHex_inj fun_eq_iff split: if_splits)

lemma contents_pdel:
  assumes "minimalRoot t"
  shows "contents (pdel t (keybytesToHex k)) = (contents t)(k := None)" "byteKeys t \<Longrightarrow> byteKeys (pdel t (keybytesToHex k))"
    "minimalRoot (pdel t (keybytesToHex k))"
  using assms pdel_deletes [of t "keybytesToHex k"]
  by (auto simp: contents_def byteKeys_def minimalRoot_def keybytesToHex_inj fun_eq_iff deletes_def split: if_splits)

lemma dbOf_root [simp]: "dbOf (T\<lparr>t_root := n\<rparr>) = dbOf T"
  by (simp add: dbOf_def)

lemma TryGet_law:
  assumes "trieIs K T t" "keyOk f k"
  shows "\<exists>T'. Trie_TryGet f T k = Ok (Inr (contents t k, T')) \<and> trieIs K T' t"
proof -
  have T: "hash32 K" "minimalRoot t" "bounded t" "reps True K (dbOf T) (t_root T) t" using assms(1) by (auto simp: trieIs_def)
  obtain n b where "tryGet f T (t_root T) (keybytesToHex k) 0 = Ok (Inr (pget t (keybytesToHex k), n, b))" "reps True K (dbOf T) n t"
    using tryGet_ok [OF T(1) bounded_sized [OF T(3)] T(4), of 0 "keybytesToHex k" f] root_fits [OF T(2)] keyOk_steps [OF assms(2)] by auto
  then show ?thesis using assms(1) by (auto simp: Trie_TryGet_def contents_def trieIs_def)
qed

lemma insert_law:
  assumes "trieIs K T t" "keyOk f k" "valueOk v" "v \<noteq> []"
  shows "\<exists>T'. Trie_TryUpdate f T k v = Ok (Inr T') \<and> trieIs K T' (pins t (keybytesToHex k) v)"
proof -
  have T: "hash32 K" "minimalRoot t" "bounded t" "byteKeys t" "reps True K (dbOf T) (t_root T) t" using assms(1) by (auto simp: trieIs_def)
  have s: "steps (t_root T) (keybytesToHex k) \<le> f" "length (keybytesToHex k) < 2 ^ 32" using keyOk_steps [OF assms(2)] by auto
  from trie_insert_ok [OF T(1) bounded_sized [OF T(3)] T(5) root_fits [OF T(2)] s(1)] obtain b n where
    "trie_insert f T (t_root T) [] (keybytesToHex k) (ValueNode v) = Ok (Inr (b, n))" "reps True K (dbOf T) n (pins t (keybytesToHex k) v)"
    by (rule insertedE)
  moreover have "bounded (pins t (keybytesToHex k) v)"
    using bounded_pins [OF _ _ _ T(3) s(2)] T(2) assms(3) by (auto simp: minimalRoot_def valueOk_def)
  moreover have "minimal (pins t (keybytesToHex k) v)" by (rule pins_minimal) (use T(2) assms(4) in \<open>auto simp: minimalRoot_def\<close>)
  ultimately show ?thesis using T contents_pins(2) [OF T(2) assms(4) T(4)] assms(4) by (auto simp: Trie_TryUpdate_def trieIs_def minimalRoot_def)
qed

lemma delete_law:
  assumes "trieIs K T t" "keyOk f k"
  shows "\<exists>b n. trie_delete f T (t_root T) [] (keybytesToHex k) = Ok (Inr (b, n)) \<and> trieIs K (T\<lparr>t_root := n\<rparr>) (pdel t (keybytesToHex k))"
proof -
  have T: "hash32 K" "minimalRoot t" "bounded t" "byteKeys t" "reps True K (dbOf T) (t_root T) t" using assms(1) by (auto simp: trieIs_def)
  have s: "steps (t_root T) (keybytesToHex k) \<le> f" using keyOk_steps [OF assms(2)] by blast
  from trie_delete_ok [OF T(1,3,5) root_fits [OF T(2)] s] obtain b n where
    "trie_delete f T (t_root T) [] (keybytesToHex k) = Ok (Inr (b, n))" "reps True K (dbOf T) n (pdel t (keybytesToHex k))" by (rule removedE)
  then show ?thesis using T contents_pdel(2,3) [OF T(2)] bounded_pdel [OF T(3)] by (auto simp: trieIs_def)
qed

interpretation trie: kv_store "trieFor K" "Trie_TryGet f" "Trie_TryUpdate f" "Trie_TryDelete f" "keyOk f" valueOk
  for K f
proof
  fix T m k v
  assume "trieFor K T m" and k: "keyOk f k"
  then obtain t where t: "trieIs K T t" "m = contents t" by (auto simp: trieFor_def)
  then have mt: "minimalRoot t" by (simp add: trieIs_def)
  show "\<exists>T'. Trie_TryGet f T k = Ok (Inr (m k, T')) \<and> trieFor K T' m" using TryGet_law [OF t(1) k] t(2) by (auto simp: trieFor_def)
  from delete_law [OF t(1) k] obtain b n where
    del: "trie_delete f T (t_root T) [] (keybytesToHex k) = Ok (Inr (b, n))" "trieIs K (T\<lparr>t_root := n\<rparr>) (pdel t (keybytesToHex k))" by blast
  then have d: "trieFor K (T\<lparr>t_root := n\<rparr>) (m(k := None))" using contents_pdel(1) [OF mt] t(2) by (auto simp: trieFor_def)
  then show "\<exists>T'. Trie_TryDelete f T k = Ok (Inr T') \<and> trieFor K T' (m(k := None))" using del(1) by (simp add: Trie_TryDelete_def)
  assume v: "valueOk v"
  show "\<exists>T'. Trie_TryUpdate f T k v = Ok (Inr T') \<and> trieFor K T' (putMap m k v)"
  proof (cases "v = []")
    case True
    then show ?thesis using d del(1) by (simp add: Trie_TryUpdate_def putMap_def)
  next
    case False
    then obtain T' where "Trie_TryUpdate f T k v = Ok (Inr T')" "trieIs K T' (pins t (keybytesToHex k) v)" using insert_law [OF t(1) k v] by blast
    moreover have "putMap m k v = contents (pins t (keybytesToHex k) v)" using contents_pins(1) [OF mt False] t(2) False by (simp add: putMap_def)
    ultimately show ?thesis unfolding trieFor_def by blast
  qed
qed

section \<open>The trie with hashed keys\<close>

text \<open>Keys of a set on which the hash function has no collision.\<close>

definition secureFor :: "(bytes \<Rightarrow> bytes) \<Rightarrow> bytes set \<Rightarrow> SecureTrie \<Rightarrow> kv \<Rightarrow> bool" where
  "secureFor K S T m \<longleftrightarrow> inj_on K S \<and> hash32 K \<and> (\<exists>m'. trieFor K (st_trie T) m' \<and> (\<forall>k. m k = (if k \<in> S then m' (K k) else None)))"

definition secureDel :: "(bytes \<Rightarrow> bytes) \<Rightarrow> nat \<Rightarrow> (trieErr, SecureTrie) delOp" where
  "secureDel K f s k = bind_res (Secure_TryDelete K f s k) (\<lambda>(e, s'). Ok (case e of None \<Rightarrow> Inr s' | Some e' \<Rightarrow> Inl e'))"

definition secureKeyOk :: "bytes set \<Rightarrow> nat \<Rightarrow> bytes \<Rightarrow> bool" where
  "secureKeyOk S f k \<longleftrightarrow> k \<in> S \<and> 132 \<le> f"

lemma secure_update:
  assumes "inj_on K S" "k \<in> S" "\<forall>k. m k = (if k \<in> S then m' (K k) else None)"
  shows "(m(k := x)) j = (if j \<in> S then (m'(K k := x)) (K j) else None)"
  using assms by (auto dest: inj_onD)

interpretation secure: kv_store "secureFor K S" "Secure_TryGet K f" "Secure_TryUpdate K f" "secureDel K f" "secureKeyOk S f" valueOk
  for K S f
proof
  fix T m k v
  assume "secureFor K S T m" and "secureKeyOk S f k"
  then obtain m' where m: "inj_on K S" "hash32 K" "trieFor K (st_trie T) m'" "\<forall>k. m k = (if k \<in> S then m' (K k) else None)"
    and k: "k \<in> S" "keyOk f (K k)" by (auto simp: secureFor_def secureKeyOk_def keyOk_def hash32_def)
  note upd = secure_update [OF m(1) k(1) m(4)]
  have S: "secureFor K S T' (m(k := x))" if "trieFor K (st_trie T') (m'(K k := x))" for T' x
    using that upd m(1,2) unfolding secureFor_def by blast
  from trie.get_law [OF m(3) k(2)] obtain T1 where "Trie_TryGet f (st_trie T) (K k) = Ok (Inr (m' (K k), T1))" "trieFor K T1 m'" by blast
  then show "\<exists>T'. Secure_TryGet K f T k = Ok (Inr (m k, T')) \<and> secureFor K S T' m"
    using m k(1) by (auto simp: Secure_TryGet_def secureFor_def)
  from trie.del_law [OF m(3) k(2)] obtain T2 where "Trie_TryDelete f (st_trie T) (K k) = Ok (Inr T2)" "trieFor K T2 (m'(K k := None))" by blast
  then show "\<exists>T'. secureDel K f T k = Ok (Inr T') \<and> secureFor K S T' (m(k := None))"
    using S [of "T\<lparr>secKeyCache := (secKeyCache T)(K k := None), st_trie := T2\<rparr>" None] by (simp add: secureDel_def Secure_TryDelete_def Let_def)
  assume "valueOk v"
  from trie.put_law [OF m(3) k(2) this] obtain T3 where
    "Trie_TryUpdate f (st_trie T) (K k) v = Ok (Inr T3)" "trieFor K T3 (putMap m' (K k) v)" by blast
  then show "\<exists>T'. Secure_TryUpdate K f T k v = Ok (Inr T') \<and> secureFor K S T' (putMap m k v)"
    using S [of "T\<lparr>st_trie := T3, secKeyCache := (secKeyCache T)(K k \<mapsto> k)\<rparr>"] by (simp add: Secure_TryUpdate_def putMap_def)
qed

section \<open>The root hash\<close>

lemma contents_unique:
  assumes "minimalRoot t" "minimalRoot t'" "byteKeys t" "byteKeys t'" "contents t = contents t'"
  shows "t = t'"
proof -
  have e: "pget t k = pget t' k" if k: "validKey k" for k
  proof (cases "\<exists>b. k = keybytesToHex b")
    case True
    then show ?thesis using assms(5) by (metis contents_def)
  next
    case False
    then show ?thesis using assms(3,4) k unfolding byteKeys_def by metis
  qed
  have "s = PNil" if "minimalRoot s" "\<forall>k. validKey k \<longrightarrow> pget s k = None" for s
    using that minimal_key [of s] by (auto simp: minimalRoot_def keysOf_def)
  then show ?thesis using assms(1,2) e minimal_unique [of t t'] by (metis minimalRoot_def pget.simps(1))
qed

definition rootOf :: "(bytes \<Rightarrow> bytes) \<Rightarrow> ptree \<Rightarrow> bytes" where
  "rootOf K t = (if t = PNil then emptyRoot else K (penc K t))"

lemma root_node:
  assumes "trieIs K T t"
  shows "t_root T = NilNode \<longleftrightarrow> t = PNil"
  using assms by (cases "t_root T") (auto simp: trieIs_def)

lemma hashRoot_ok:
  assumes T: "trieIs K T t" and a: "accepts K (encs K t) wo" and w: "cur (dbOf T) wo = dbOf T"
  shows "\<exists>n wo'. hashRoot K T wo = Ok (Inr (HashNode (rootOf K t), n, wo')) \<and> moved K (encs K t) (dbOf T) wo wo' \<and>
    reps True K (cur (dbOf T) wo') n t \<and> (Option.is_none wo \<or> t = PNil \<or> committed True K (cur (dbOf T) wo') t)"
proof (cases "t = PNil")
  case True
  then show ?thesis using root_node [OF T] moved_refl [OF a] by (auto simp: hashRoot_def rootOf_def)
next
  case False
  let ?h = "\<lparr>h_sha = K, h_cachegen = t_cachegen T, h_cachelimit = t_cachelimit T\<rparr>"
  have t: "hash32 K" "minimal t" "sized t" "reps True K (dbOf T) (t_root T) t"
    using T False bounded_sized by (auto simp: trieIs_def minimalRoot_def)
  have "hashedTo True K (encs K t) (dbOf T) wo t (hasher_hash ?h (t_root T) wo True)"
    by (rule hash_ok) (use t a w in simp_all)
  then show ?thesis using False root_node [OF T] by (auto simp: hashRoot_def rootOf_def hashedTo_def shown_def)
qed

lemma rootOf_length: "hash32 K \<Longrightarrow> BytesToHash (rootOf K t) = rootOf K t"
  by (rule BytesToN_id) (simp add: rootOf_def hash32_def emptyRoot_def)

lemma Hash_law:
  assumes "trieIs K T t"
  shows "\<exists>T'. Trie_Hash K T = Ok (Inr (rootOf K t, T')) \<and> trieIs K T' t"
proof -
  have "hash32 K" using assms by (simp add: trieIs_def)
  moreover obtain n where "hashRoot K T None = Ok (Inr (HashNode (rootOf K t), n, None))" "reps True K (dbOf T) n t"
    using hashRoot_ok [OF assms, of None] by (auto simp: accepts_def cur_def moved_def split: option.splits)
  ultimately show ?thesis using assms rootOf_length by (auto simp: Trie_Hash_def asHash_def trieIs_def)
qed

section \<open>Committing and loading\<close>

lemma CommitTo_law:
  assumes T: "trieIs K T t" and w: "w_map w = dbOf T" "accepts K (encs K t) (Some w)"
  shows "\<exists>T' w'. Trie_CommitTo K T w = Ok (Inr (rootOf K t, T', Some w')) \<and> trieIs K (T'\<lparr>t_db := Some (w_map w')\<rparr>) t \<and>
    (t = PNil \<or> committed True K (w_map w') t)"
proof -
  have K: "hash32 K" using T by (simp add: trieIs_def)
  obtain n wo' where h: "hashRoot K T (Some w) = Ok (Inr (HashNode (rootOf K t), n, wo'))" "moved K (encs K t) (dbOf T) (Some w) wo'"
    "reps True K (cur (dbOf T) wo') n t" "t = PNil \<or> committed True K (cur (dbOf T) wo') t"
    using hashRoot_ok [OF T w(2)] w(1) by (auto simp: cur_def)
  then obtain w' where w': "wo' = Some w'" by (cases wo') (auto simp: moved_def)
  then show ?thesis using h T rootOf_length [OF K] by (auto simp: Trie_CommitTo_def asHash_def trieIs_def cur_def dbOf_def)
qed

lemma NewTrie_law:
  assumes "hash32 K" "minimal t" "bounded t" "byteKeys t" "committed True K db t" "rootOf K t \<noteq> zeroHash" "rootOf K t \<noteq> emptyRoot"
  shows "\<exists>T. NewTrie (rootOf K t) (Some db) = Ok (Inr T) \<and> trieIs K T t"
proof -
  let ?T = "\<lparr>t_root = NilNode, t_db = Some db, originalRoot = rootOf K t, t_cachegen = 0, t_cachelimit = 0\<rparr>"
  have t: "inner t" "t \<noteq> PNil" using assms(2) by (cases t; simp)+
  then have "reps True K (dbOf ?T) (HashNode (rootOf K t)) t" using assms(5) by (simp add: committed_def rootOf_def dbOf_def)
  from resolveHash_ok [OF assms(1) bounded_sized [OF assms(3)] assms(2) this] obtain n where
    "resolveHash ?T (rootOf K t) [] = Ok (Inr n)" "reps True K (dbOf ?T) n t" by metis
  then show ?thesis using assms by (auto simp: NewTrie_def trieIs_def minimalRoot_def dbOf_def)
qed

lemma Commit_law:
  assumes T: "trieIs K T t" and w: "t_db T = Some db" "inj_on K (encs K t)" "\<forall>e \<in> encs K t. \<not> fails (K e)"
  shows "\<exists>T' db'. Trie_Commit K T fails = Ok (Inr (rootOf K t, T')) \<and> t_db T' = Some db' \<and> trieIs K T' t \<and> (t = PNil \<or> committed True K db' t)"
proof -
  have "accepts K (encs K t) (Some \<lparr>w_map = db, w_fails = fails\<rparr>)" using w(2,3) by (simp add: accepts_def)
  from CommitTo_law [OF T _ this] w(1) show ?thesis by (auto simp: Trie_Commit_def dbOf_def)
qed

section \<open>One root, one map\<close>

lemma deep_get: "deep n t \<Longrightarrow> fitsKey t k \<Longrightarrow> pget t k \<noteq> None \<Longrightarrow> length k \<le> n"
proof (induction n t arbitrary: k rule: deep.induct)
  case (2 n v)
  then show ?case by (auto simp: fitsKey_def leaf_def)
next
  case (3 n k' c)
  then have "take (length k') k = k'" by (auto split: if_splits)
  moreover from this have "length (drop (length k') k) \<le> n - length k'"
    using 3(2,4) by (intro "3.IH" fitsKey_PShort(4) [OF 3(3)]) (simp_all split: if_splits)
  ultimately show ?case using 3(2) by auto
next
  case (4 n cs)
  from fitsKey_PFull [OF 4(3)] obtain x r where k: "k = x # r" "unat x < 17" "fitsKey (cs ! unat x) r" by blast
  then have "cs ! unat x \<in> set cs" "deep (n - 1) (cs ! unat x)" "pget (cs ! unat x) r \<noteq> None" using 4(2,4) by (auto split: if_splits)
  then have "length r \<le> n - 1" using "4.IH" k(3) by blast
  then show ?case using k(1) 4(2) by auto
qed auto

lemma contents_long: "minimalRoot t \<Longrightarrow> bounded t \<Longrightarrow> 2 ^ 31 \<le> length k \<Longrightarrow> contents t k = None"
  using deep_get [OF _ root_fits, of "2 ^ 32 - 1" t k] hexKey_length [of k] by (cases "contents t k") (auto simp: contents_def bounded_def)

lemma same_root:
  assumes T: "trieIs K T t" "trieIs K T' t'" and E: "inj_on K (encs K t \<union> encs K t')" "emptyRoot \<notin> K ` (encs K t \<union> encs K t')"
    and r: "rootOf K t = rootOf K t'"
  shows "contents t = contents t'"
proof -
  let ?E = "encs K t \<union> encs K t'"
  have root: "s = PNil \<or> rootOf K s \<in> K ` encs K s" if "minimalRoot s" for s
    using that encs_self [of s K] by (cases s) (auto simp: rootOf_def minimalRoot_def)
  have m: "minimalRoot t" "minimalRoot t'" "bounded t" "bounded t'" using T by (simp_all add: trieIs_def)
  consider "t = PNil" "t' = PNil" | "minimal t" "minimal t'"
    using root [OF m(1)] root [OF m(2)] r E(2) m(1,2) unfolding rootOf_def minimalRoot_def by auto
  then show ?thesis
  proof cases
    case 2
    define db where "db x = (if x \<in> K ` ?E then Some (inv_into ?E K x) else None)" for x
    define S where "S = \<lparr>t_root = HashNode (rootOf K t), t_db = Some db, originalRoot = [], t_cachegen = 0, t_cachelimit = 0\<rparr>"
    have db: "db (K e) = Some e" if "e \<in> ?E" for e using that E(1) by (simp add: db_def)
    have "reps True K (dbOf S) (t_root S) s" if "s \<in> {t, t'}" for s
    proof -
      have s: "minimal s" "encs K s \<subseteq> ?E" "rootOf K t = rootOf K s" using that 2 r by auto
      then have i: "inner s" "s \<noteq> PNil" by (cases s; simp)+
      have "stored K db s" using stored_all [of K s db] db s(2) by blast
      then show ?thesis using i s(2,3) db encs_self [OF i(1), of K] by (simp add: S_def dbOf_def rootOf_def subset_iff)
    qed
    then have S: "trieIs K S t" "trieIs K S t'" using T by (auto simp: trieIs_def)
    show ?thesis
    proof
      fix k
      show "contents t k = contents t' k"
      proof (cases "length k < 2 ^ 31")
        case True
        then have "keyOk (4 * length k + 4) k" by (simp add: keyOk_def)
        from TryGet_law [OF S(1) this] TryGet_law [OF S(2) this] show ?thesis by auto
      next
        case False
        then show ?thesis using contents_long m by simp
      qed
    qed
  qed simp
qed

end
