(* ===== verification/TrieProps.thy ===== *)
theory TrieProps
  imports TrieStore
begin

text \<open>What the trie promises its clients: a map, one root hash per map, and commits that last.\<close>

section \<open>An empty trie and a hash function for examples\<close>

definition padHash :: "bytes \<Rightarrow> bytes" where
  "padHash e = take 32 (e @ replicate 32 0)"

definition emptyT :: Trie where
  "emptyT = \<lparr>t_root = NilNode, t_db = Some Map.empty, originalRoot = zeroHash, t_cachegen = 0, t_cachelimit = 0\<rparr>"

definition leafT :: "nodeFlag \<Rightarrow> Trie" where
  "leafT f = emptyT\<lparr>t_root := ShortNode [0, 1, 16] (ValueNode [7]) f\<rparr>"

lemma padHash32: "hash32 padHash"
  by (simp add: hash32_def padHash_def min_def)

lemma emptyT_is: "hash32 K \<Longrightarrow> trieIs K emptyT PNil"
  by (simp add: trieIs_def emptyT_def minimalRoot_def bounded_def byteKeys_def)

lemma emptyT_for: "hash32 K \<Longrightarrow> trieFor K emptyT Map.empty"
  using emptyT_is [of K] by (force simp: trieFor_def contents_def)

lemma leaf_penc: "penc padHash (PShort [0, 1, 16] (PVal [7])) = [0xC4, 0x82, 0x20, 0x01, 0x07]"
  by code_simp

lemma leafT_is: "flagOk True padHash Map.empty f (PShort [0, 1, 16] (PVal [7])) \<Longrightarrow> trieIs padHash (leafT f) (PShort [0, 1, 16] (PVal [7]))"
proof -
  have v: "validKey [0, 1, 16]" unfolding validKey_def by (intro exI [of _ "[0, 1]"]) simp
  have "keybytesToHex [1] = [0, 1, 16]" by code_simp
  then have "byteKeys (PShort [0, 1, 16] (PVal [7]))"
    using v validKey_take [of "[0, 1, 16]"] by (auto simp: byteKeys_def split: if_splits) metis
  moreover assume "flagOk True padHash Map.empty f (PShort [0, 1, 16] (PVal [7]))"
  ultimately show ?thesis using v padHash32
    by (simp add: trieIs_def leafT_def emptyT_def minimalRoot_def bounded_def leaf_def dbOf_def)
qed

section \<open>A map\<close>

text \<open>
  C22. The trie is a map. For every sequence of lookups, updates and deletions on a trie, whether its
  nodes are in memory or have to be loaded from the database, every operation succeeds, every lookup
  returns what the map holds (an update with the empty value deletes), and the trie at the end stands
  for the map at the end. The nesting of calls is bounded by the length of the key.
\<close>

theorem Trie_refines_map:
  assumes "trieFor K T m" "\<forall>x \<in> set ops. opOk (keyOk f) valueOk x"
  shows "\<exists>T'. runOps (Trie_TryGet f) (Trie_TryUpdate f) (Trie_TryDelete f) ops T = Ok (Inr (fst (mapOps ops m), T')) \<and>
    trieFor K T' (snd (mapOps ops m))"
  using assms by (rule trie.runs)

theorem Trie_refines_map_witness:
  "\<exists>T'. runOps (Trie_TryGet 20) (Trie_TryUpdate 20) (Trie_TryDelete 20)
      [OpPut [1] [10], OpPut [1, 2] [20], OpPut [3] [30], OpDel [1], OpGet [1, 2], OpGet [1]] emptyT = Ok (Inr ([Some [20], None], T')) \<and>
    trieFor padHash T' [[1, 2] \<mapsto> [20], [3] \<mapsto> [30]]"
proof -
  let ?ops = "[OpPut [1] [10], OpPut [1, 2] [20], OpPut [3] [30], OpDel [1], OpGet [1, 2], OpGet [1]]"
  have "fst (mapOps ?ops Map.empty) = [Some [20], None]" "snd (mapOps ?ops Map.empty) = [[1, 2] \<mapsto> [20], [3] \<mapsto> [30]]"
    by (auto simp: putMap_def)
  moreover have "\<forall>x \<in> set ?ops. opOk (keyOk 20) valueOk x" by (simp add: keyOk_def valueOk_def)
  ultimately show ?thesis using Trie_refines_map [OF emptyT_for [OF padHash32], of ?ops 20] by metis
qed

text \<open>
  C23. The trie with hashed keys is a map on every set of keys whose hashes differ: sequences of lookups,
  updates and deletions with such keys succeed and return what the map holds.
\<close>

theorem SecureTrie_refines_map:
  assumes "secureFor K S T m" "\<forall>x \<in> set ops. opOk (secureKeyOk S f) valueOk x"
  shows "\<exists>T'. runOps (Secure_TryGet K f) (Secure_TryUpdate K f) (secureDel K f) ops T = Ok (Inr (fst (mapOps ops m), T')) \<and>
    secureFor K S T' (snd (mapOps ops m))"
  using assms by (rule secure.runs)

theorem SecureTrie_refines_map_witness:
  "\<exists>T'. runOps (Secure_TryGet padHash 132) (Secure_TryUpdate padHash 132) (secureDel padHash 132)
      [OpPut [1] [10], OpPut [2] [20], OpDel [1], OpGet [1], OpGet [2]] \<lparr>st_trie = emptyT, secKeyCache = Map.empty\<rparr> =
      Ok (Inr ([None, Some [20]], T')) \<and>
    secureFor padHash {[1], [2]} T' [[2] \<mapsto> [20]]"
proof -
  let ?ops = "[OpPut [1] [10], OpPut [2] [20], OpDel [1], OpGet [1], OpGet [2]]"
  have "fst (mapOps ?ops Map.empty) = [None, Some [20]]" "snd (mapOps ?ops Map.empty) = [[2] \<mapsto> [20]]" by (auto simp: putMap_def)
  moreover have "\<forall>x \<in> set ?ops. opOk (secureKeyOk {[1], [2]} 132) valueOk x" by (simp add: secureKeyOk_def valueOk_def)
  moreover have "secureFor padHash {[1], [2]} \<lparr>st_trie = emptyT, secKeyCache = Map.empty\<rparr> Map.empty"
    using emptyT_for [OF padHash32] padHash32 by (auto simp: secureFor_def padHash_def numeral_eq_Suc)
  ultimately show ?thesis using SecureTrie_refines_map [of padHash "{[1], [2]}" _ Map.empty ?ops 132] by metis
qed

section \<open>One root hash\<close>

text \<open>
  C24. The root hash depends on the contents only: two tries that hold the same map have the same root
  hash, whatever operations made them, in which order, and whatever is cached or loaded. Hashing
  changes the cached hashes only.
\<close>

theorem Trie_Hash_canonical:
  assumes "trieFor K T m" "trieFor K T' m"
  shows "\<exists>h S S'. Trie_Hash K T = Ok (Inr (h, S)) \<and> Trie_Hash K T' = Ok (Inr (h, S')) \<and> trieFor K S m \<and> trieFor K S' m"
proof -
  obtain t t' where t: "trieIs K T t" "m = contents t" "trieIs K T' t'" "m = contents t'" using assms by (auto simp: trieFor_def)
  then have "t = t'" by (intro contents_unique) (auto simp: trieIs_def)
  then show ?thesis using Hash_law [OF t(1)] Hash_law [OF t(3)] t(2) by (auto simp: trieFor_def)
qed

theorem Trie_Hash_canonical_witness:
  "\<exists>T T' h S S'. runOps (Trie_TryGet 20) (Trie_TryUpdate 20) (Trie_TryDelete 20) [OpPut [1] [10], OpPut [2] [20], OpPut [1, 2] [30]] emptyT = Ok (Inr ([], T)) \<and>
     runOps (Trie_TryGet 20) (Trie_TryUpdate 20) (Trie_TryDelete 20) [OpPut [1, 2] [30], OpPut [9] [9], OpPut [2] [20], OpPut [1] [10], OpDel [9]] emptyT = Ok (Inr ([], T')) \<and>
     Trie_Hash padHash T = Ok (Inr (h, S)) \<and> Trie_Hash padHash T' = Ok (Inr (h, S'))"
proof -
  let ?a = "[OpPut [1] [10], OpPut [2] [20], OpPut [1, 2] [30]]" and ?b = "[OpPut [1, 2] [30], OpPut [9] [9], OpPut [2] [20], OpPut [1] [10], OpDel [9]]"
  have "\<forall>x \<in> set ?a. opOk (keyOk 20) valueOk x" "\<forall>x \<in> set ?b. opOk (keyOk 20) valueOk x" by (simp_all add: keyOk_def valueOk_def)
  from trie.runs [OF emptyT_for [OF padHash32] this(1)] trie.runs [OF emptyT_for [OF padHash32] this(2)] obtain T T' where
    r: "runOps (Trie_TryGet 20) (Trie_TryUpdate 20) (Trie_TryDelete 20) ?a emptyT = Ok (Inr (fst (mapOps ?a Map.empty), T))" "trieFor padHash T (snd (mapOps ?a Map.empty))"
      "runOps (Trie_TryGet 20) (Trie_TryUpdate 20) (Trie_TryDelete 20) ?b emptyT = Ok (Inr (fst (mapOps ?b Map.empty), T'))" "trieFor padHash T' (snd (mapOps ?b Map.empty))"
    by blast
  have "snd (mapOps ?a Map.empty) = snd (mapOps ?b Map.empty)" by (auto simp: putMap_def)
  from Trie_Hash_canonical [OF r(2) r(4) [folded this]] r(1,3) show ?thesis by auto
qed

definition leafTree :: ptree where
  "leafTree = PShort [0, 1, 16] (PVal [7])"

definition fresh :: nodeFlag where
  "fresh = \<lparr>nf_hash = None, nf_gen = 0, nf_dirty = True\<rparr>"

lemma leafTree_simps:
  "encs padHash leafTree = {[0xC4, 0x82, 0x20, 0x01, 0x07]}" "rootOf padHash leafTree = [0xC4, 0x82, 0x20, 0x01, 0x07] @ replicate 27 0"
  using leaf_penc by (simp_all add: leafTree_def rootOf_def padHash_def)

lemma leafT_fresh: "trieIs padHash (leafT fresh) leafTree" "trieIs padHash (leafT (fresh\<lparr>nf_hash := Some (padHash [0xC4, 0x82, 0x20, 0x01, 0x07])\<rparr>)) leafTree"
  unfolding leafTree_def by (rule leafT_is; simp add: flagOk_def fresh_def leaf_penc del: pval.simps rlpEnc.simps)+

text \<open>
  C25. The root hash binds the contents: if two tries have the same root hash, and the hash function has
  no collision among the encodings of the nodes of the two tries and the empty trie, then every lookup
  gives the same result in both.
\<close>

theorem Trie_Hash_binding:
  assumes "trieIs K T t" "trieIs K T' t'" "Trie_Hash K T = Ok (Inr (h, S))" "Trie_Hash K T' = Ok (Inr (h, S'))"
    and "inj_on K (encs K t \<union> encs K t')" "emptyRoot \<notin> K ` (encs K t \<union> encs K t')" "keyOk f k"
  shows "\<exists>v R R'. Trie_TryGet f T k = Ok (Inr (v, R)) \<and> Trie_TryGet f T' k = Ok (Inr (v, R'))"
proof -
  have "rootOf K t = rootOf K t'" using Hash_law [OF assms(1)] Hash_law [OF assms(2)] assms(3,4) by auto
  then have "contents t = contents t'" by (rule same_root [OF assms(1,2,5,6)])
  then show ?thesis using TryGet_law [OF assms(1,7)] TryGet_law [OF assms(2,7)] by auto
qed

theorem Trie_Hash_binding_witness:
  "\<exists>v R R'. Trie_TryGet 20 (leafT fresh) [1] = Ok (Inr (v, R)) \<and>
     Trie_TryGet 20 (leafT (fresh\<lparr>nf_hash := Some (padHash [0xC4, 0x82, 0x20, 0x01, 0x07])\<rparr>)) [1] = Ok (Inr (v, R'))"
proof -
  obtain S S' where "Trie_Hash padHash (leafT fresh) = Ok (Inr (rootOf padHash leafTree, S))"
    "Trie_Hash padHash (leafT (fresh\<lparr>nf_hash := Some (padHash [0xC4, 0x82, 0x20, 0x01, 0x07])\<rparr>)) = Ok (Inr (rootOf padHash leafTree, S'))"
    using Hash_law [OF leafT_fresh(1)] Hash_law [OF leafT_fresh(2)] by blast
  then show ?thesis
    by (rule Trie_Hash_binding [OF leafT_fresh]) (simp_all add: leafTree_simps keyOk_def padHash_def emptyRoot_def)
qed

section \<open>Commits\<close>

text \<open>
  C26. What is committed can be loaded: after a commit, a trie opened from the database at the returned
  root answers every lookup as the trie that was committed, and so does the trie itself, which may
  have unloaded its nodes. The root that is returned is the root hash of the trie that is opened. The hash
  function has no collision among the encodings of the nodes, and none of them hashes to the two
  values that stand for the empty trie.
\<close>

theorem Commit_New_roundtrip:
  assumes "trieIs K T t" "t_db T = Some db" "inj_on K (encs K t)" "\<forall>e \<in> encs K t. \<not> fails (K e) \<and> K e \<noteq> zeroHash \<and> K e \<noteq> emptyRoot"
  shows "\<exists>h T1 db' T2 S. Trie_Commit K T fails = Ok (Inr (h, T1)) \<and> t_db T1 = Some db' \<and> NewTrie h (Some db') = Ok (Inr T2) \<and>
    Trie_Hash K T2 = Ok (Inr (h, S)) \<and>
    (\<forall>f k. keyOk f k \<longrightarrow> (\<exists>v R R1 R2. Trie_TryGet f T k = Ok (Inr (v, R)) \<and> Trie_TryGet f T1 k = Ok (Inr (v, R1)) \<and> Trie_TryGet f T2 k = Ok (Inr (v, R2))))"
proof -
  obtain T1 db' where c: "Trie_Commit K T fails = Ok (Inr (rootOf K t, T1))" "t_db T1 = Some db'" "trieIs K T1 t" "t = PNil \<or> committed True K db' t"
    using Commit_law [OF assms(1-3)] assms(4) by blast
  have T: "hash32 K" "minimalRoot t" "bounded t" "byteKeys t" using assms(1) by (auto simp: trieIs_def)
  obtain T2 where T2: "NewTrie (rootOf K t) (Some db') = Ok (Inr T2)" "trieIs K T2 t"
  proof (cases "t = PNil")
    case True
    then show thesis using that T by (simp add: NewTrie_def rootOf_def trieIs_def)
  next
    case False
    then have m: "minimal t" using T(2) by (simp add: minimalRoot_def)
    then have "rootOf K t \<in> K ` encs K t" using encs_self [of t K] by (cases t) (auto simp: rootOf_def)
    then have "rootOf K t \<noteq> zeroHash" "rootOf K t \<noteq> emptyRoot" using assms(4) by auto
    then show thesis using NewTrie_law [OF T(1) m T(3,4)] c(4) False that by blast
  qed
  from Hash_law [OF T2(2)] obtain S where "Trie_Hash K T2 = Ok (Inr (rootOf K t, S))" by blast
  moreover have "\<exists>v R R1 R2. Trie_TryGet f T k = Ok (Inr (v, R)) \<and> Trie_TryGet f T1 k = Ok (Inr (v, R1)) \<and> Trie_TryGet f T2 k = Ok (Inr (v, R2))"
    if "keyOk f k" for f k
    using TryGet_law [OF assms(1) that] TryGet_law [OF c(3) that] TryGet_law [OF T2(2) that] by blast
  ultimately show ?thesis using c(1,2) T2(1) by (intro exI conjI) auto
qed

theorem Commit_New_roundtrip_witness:
  "\<exists>h T1 db' T2 S. Trie_Commit padHash (leafT fresh) (\<lambda>_. False) = Ok (Inr (h, T1)) \<and> t_db T1 = Some db' \<and> NewTrie h (Some db') = Ok (Inr T2) \<and>
    Trie_Hash padHash T2 = Ok (Inr (h, S)) \<and>
    (\<forall>f k. keyOk f k \<longrightarrow> (\<exists>v R R1 R2. Trie_TryGet f (leafT fresh) k = Ok (Inr (v, R)) \<and> Trie_TryGet f T1 k = Ok (Inr (v, R1)) \<and> Trie_TryGet f T2 k = Ok (Inr (v, R2))))"
  by (rule Commit_New_roundtrip [OF leafT_fresh(1)]) (simp_all add: leafTree_simps leafT_def emptyT_def padHash_def emptyRoot_def numeral_eq_Suc)

end
