(* ===== verification/TrieProof.thy ===== *)
theory TrieProof
  imports TrieProps
begin

text \<open>
  Proofs (trie/proof.go): a proof that is checked against a root hash can only show what the trie with
  that root holds, and the proof that \<^verbatim>\<open>Prove\<close> makes is accepted.
\<close>

section \<open>The path to a key\<close>

function pathTrees :: "ptree \<Rightarrow> bytes \<Rightarrow> ptree list" where
  "pathTrees PNil key = []"
| "pathTrees (PVal v) key = []"
| "pathTrees (PShort k c) key =
     (if key = [] then [] else PShort k c # (if take (length k) key = k then pathTrees c (drop (length k) key) else []))"
| "pathTrees (PFull cs) key =
     (case key of [] \<Rightarrow> [] | x # key' \<Rightarrow> PFull cs # (if unat x < length cs then pathTrees (cs ! unat x) key' else []))"
  by pat_completeness auto
termination
  by (relation "measure (\<lambda>(t, _). size t)") (auto simp: size_nth)

text \<open>A database that holds every encoding of a set.\<close>

definition idealDb :: "(bytes \<Rightarrow> bytes) \<Rightarrow> bytes set \<Rightarrow> kv" where
  "idealDb K E x = (if x \<in> K ` E then Some (inv_into E K x) else None)"

lemma idealDb: "inj_on K E \<Longrightarrow> e \<in> E \<Longrightarrow> idealDb K E (K e) = Some e"
  by (simp add: idealDb_def)

section \<open>Checking a proof\<close>

text \<open>Where a walk inside one proof element ends.\<close>

definition walked :: "bool \<Rightarrow> (bytes \<Rightarrow> bytes) \<Rightarrow> ptree \<Rightarrow> bytes \<Rightarrow> bytes \<times> node \<Rightarrow> bool" where
  "walked b K t key p \<longleftrightarrow>
     (case p of (rest, cld) \<Rightarrow>
        (case cld of
           NilNode \<Rightarrow> pget t key = None
         | ValueNode v \<Rightarrow> pget t key = Some v
         | HashNode h \<Rightarrow> (\<exists>s. h = K (penc K s) \<and> minimal s \<and> sized s \<and> 32 \<le> length (penc K s) \<and> encs K s \<subseteq> encs K t \<and> fitsKey s rest \<and>
             pget s rest = pget t key \<and> length rest < length key + (if b then 0 else 1) \<and> s \<in> set (pathTrees t key) \<and>
             set (pathTrees s rest) \<subseteq> set (pathTrees t key))
         | _ \<Rightarrow> False))"

lemma walked_below:
  assumes "walked b K c key' p" "encs K c \<subseteq> encs K t" "pget c key' = pget t key" "length key' < length key" "set (pathTrees c key') \<subseteq> set (pathTrees t key)"
  shows "walked True K t key p"
proof (cases p)
  case (Pair rest cld)
  show ?thesis
  proof (cases cld)
    case (HashNode h)
    then obtain s where "h = K (penc K s)" "minimal s" "sized s" "32 \<le> length (penc K s)" "encs K s \<subseteq> encs K c" "fitsKey s rest"
      "pget s rest = pget c key'" "length rest < length key' + (if b then 0 else 1)" "s \<in> set (pathTrees c key')"
      "set (pathTrees s rest) \<subseteq> set (pathTrees c key')" using assms(1) Pair by (auto simp: walked_def)
    then show ?thesis using assms(2-5) Pair HashNode by (auto simp: walked_def split: if_splits intro!: exI [of _ s])
  qed (use assms Pair in \<open>auto simp: walked_def\<close>)
qed

lemma proof_get_ok:
  "sized t \<Longrightarrow> reps r K db n t \<Longrightarrow> fitsKey t key \<Longrightarrow> r \<longrightarrow> loaded n \<Longrightarrow> \<exists>p. proof_get n key = Ok p \<and> walked (loaded n) K t key p"
proof (induction n key arbitrary: t r rule: proof_get.induct)
  case (1 k val f key)
  then obtain c where t: "t = PShort k c" "reps False K db val c" by auto
  note F = fitsKey_PShort [OF "1.prems"(3) [unfolded t(1)]]
  have key: "key \<noteq> []" using F(2) by auto
  show ?case
  proof (cases "take (length k) key = k")
    case False
    then show ?thesis using t(1) by (auto simp: walked_def)
  next
    case True
    have l: "\<not> (length key < length k \<or> k \<noteq> take (length k) key)" using True by (metis length_take min.cobounded1 not_le)
    from "1.IH" [OF l _ t(2) F(4) [OF True]] "1.prems"(1) t(1) obtain p where
      p: "proof_get val (drop (length k) key) = Ok p" "walked (loaded val) K c (drop (length k) key) p" by auto
    have "walked True K t key p" by (rule walked_below [OF p(2)]) (use t(1) True key F(3) in auto)
    then show ?thesis using p(1) l by simp
  qed
next
  case (2 cs f key)
  then obtain ts where t: "t = PFull ts" "length cs = length ts" "\<forall>i < length ts. reps False K db (cs ! i) (ts ! i)" by auto
  from fitsKey_PFull [OF "2.prems"(3) [unfolded t(1)]] obtain x q where
    x: "key = x # q" "unat x < 17" "length ts = 17" "fitsKey (ts ! unat x) q" by blast
  have s: "sized (ts ! unat x)" using "2.prems"(1) t(1) x by simp
  have c: "index key 0 = Ok x" "index cs (unat x) = Ok (cs ! unat x)" using x t(2) by simp_all
  from "2.IH" [OF c s, of False] t x obtain p where p: "proof_get (cs ! unat x) (drop 1 key) = Ok p" "walked (loaded (cs ! unat x)) K (ts ! unat x) q p" by auto
  have "walked True K t key p" by (rule walked_below [OF p(2)]) (use t(1) x in auto)
  then show ?case using p(1) c by simp
next
  case (3 h key)
  then have m: "minimal t" "validKey key" using fitsKey_hash by blast+
  then have "t \<in> set (pathTrees t key)" by (cases t; cases key) auto
  then show ?case using 3 m by (auto simp: walked_def)
qed (auto simp: walked_def)

text \<open>
  With elements that are stored under their hashes, a check finds the value of the key, or an element
  of the path is missing.
\<close>

lemma VerifyProofLoop_ok:
  assumes K: "hash32 K" and E: "inj_on K E" and db: "\<forall>x e. proofDb x = Some e \<longrightarrow> K e = x \<and> e \<in> E"
  shows "minimal t \<Longrightarrow> sized t \<Longrightarrow> encs K t \<subseteq> E \<Longrightarrow> fitsKey t key \<Longrightarrow> length key < f \<Longrightarrow>
    (\<exists>j. VerifyProofLoop f (K (penc K t)) key proofDb i = Ok (Inr (pget t key, j))) \<or>
    (\<exists>j s. VerifyProofLoop f (K (penc K t)) key proofDb i = Ok (Inl (ProofMissing j (K (penc K s)))) \<and> proofDb (K (penc K s)) = None \<and>
       (s = t \<or> s \<in> set (pathTrees t key) \<and> 32 \<le> length (penc K s)))"
proof (induction f arbitrary: t key i)
  case (Suc f)
  show ?case
  proof (cases "proofDb (K (penc K t))")
    case None
    then show ?thesis by auto
  next
    case (Some e)
    have i: "inner t" using Suc.prems(1) by (cases t) auto
    have "penc K t \<in> E" using encs_self [OF i] Suc.prems(3) by blast
    then have e: "e = penc K t" using db Some E by (auto dest: inj_onD)
    have "length (penc K t) < 2 ^ 64" using penc_length [OF K Suc.prems(2)] by simp
    then obtain n where n: "decodeNode (Some (K (penc K t))) (penc K t @ []) 0 = Ok (Inr n)" "loaded n"
      "\<forall>r db. readFrom r K db (Some (K (penc K t))) t \<longrightarrow> reps r K db n t"
      using decode_node [OF K Suc.prems(2,1), of "Suc (length (penc K t))"] unfolding decodesTo_def decodeNode_def
      by (metis append_Nil2 lessI)
    have "\<forall>e \<in> encs K t. idealDb K E (K e) = Some e" using idealDb [OF E] Suc.prems(3) by blast
    then have "readFrom True K (idealDb K E) (Some (K (penc K t))) t"
      using stored_all [of K t "idealDb K E"] encs_self [OF i, of K] by (simp add: readFrom_def)
    then have "reps True K (idealDb K E) n t" using n(3) by blast
    from proof_get_ok [OF Suc.prems(2) this Suc.prems(4)] n(2) obtain rest cld where
      p: "proof_get n key = Ok (rest, cld)" "walked True K t key (rest, cld)" by auto
    have step: "VerifyProofLoop (Suc f) (K (penc K t)) key proofDb i =
        (case cld of HashNode h \<Rightarrow> VerifyProofLoop f h rest proofDb (i + 1) | ValueNode v \<Rightarrow> Ok (Inr (Some v, i + 1)) | _ \<Rightarrow> Ok (Inr (None, i)))"
      using Some e n(1) p(1) by (simp split: node.split)
    show ?thesis
    proof (cases cld)
      case (HashNode h)
      then obtain s where s: "h = K (penc K s)" "minimal s" "sized s" "32 \<le> length (penc K s)" "encs K s \<subseteq> encs K t" "fitsKey s rest"
        "pget s rest = pget t key" "length rest < length key" "s \<in> set (pathTrees t key)" "set (pathTrees s rest) \<subseteq> set (pathTrees t key)"
        using p(2) by (auto simp: walked_def)
      have "encs K s \<subseteq> E" "length rest < f" using s(5,8) Suc.prems(3,5) by auto
      from Suc.IH [OF s(2,3) this(1) s(6) this(2), of "i + 1"] show ?thesis
        unfolding step using HashNode s(1,4,7,9,10) by auto
    qed (use p(2) step in \<open>auto simp: walked_def\<close>)
  qed
qed simp

section \<open>Making a proof\<close>

lemma provePath_ok:
  assumes "hash32 K"
  shows "sized t \<Longrightarrow> reps r K (dbOf T) n t \<Longrightarrow> fitsKey t key \<Longrightarrow> steps n key \<le> f \<Longrightarrow>
    \<exists>ns. provePath f T n key = Ok (Inr ns) \<and> list_all2 (\<lambda>m s. loaded m \<and> (\<exists>r. reps r K (dbOf T) m s)) ns (pathTrees t key)"
proof (induction f arbitrary: r n t key)
  case 0
  then show ?case using steps_le(1) [of key n] by simp
next
  case (Suc f)
  show ?case
  proof (cases "key = []")
    case True
    then have "pathTrees t key = []" by (cases t) auto
    then show ?thesis using True by simp
  next
    case ne: False
    show ?thesis
    proof (cases n)
      case (ShortNode k m fl)
      then obtain c where t: "t = PShort k c" "reps False K (dbOf T) m c" using Suc.prems(2) by auto
      note F = fitsKey_PShort [OF Suc.prems(3) [unfolded t(1)]]
      show ?thesis
      proof (cases "take (length k) key = k")
        case False
        then show ?thesis using ShortNode t(1) ne Suc.prems(2) by auto
      next
        case True
        have lk: "length k \<le> length key" using True by (metis length_take min.cobounded1)
        have "0 < length k" using F(3) by simp
        then have "steps m (drop (length k) key) \<le> f"
          using Suc.prems(4) lk steps_le(2) [of m "drop (length k) key"] steps_le(1) [of key n] unfolding length_drop by linarith
        from Suc.IH [OF _ t(2) F(4) [OF True] this] Suc.prems(1) t(1) obtain ns where
          "provePath f T m (drop (length k) key) = Ok (Inr ns)" "list_all2 (\<lambda>m s. loaded m \<and> (\<exists>r. reps r K (dbOf T) m s)) ns (pathTrees c (drop (length k) key))" by auto
        moreover have "\<exists>r. reps r K (dbOf T) n t" using Suc.prems(2) by blast
        ultimately show ?thesis using ShortNode t(1) ne True lk by auto
      qed
    next
      case (FullNode ns fl)
      then obtain cs where t: "t = PFull cs" "length ns = length cs" "\<forall>i < length cs. reps False K (dbOf T) (ns ! i) (cs ! i)"
        using Suc.prems(2) by auto
      from fitsKey_PFull [OF Suc.prems(3) [unfolded t(1)]] obtain x q where
        x: "key = x # q" "unat x < 17" "length cs = 17" "fitsKey (cs ! unat x) q" by blast
      have "steps (ns ! unat x) q \<le> f" using Suc.prems(4) x(1) steps_le(2) [of "ns ! unat x" q] steps_le(1) [of key n] by simp
      from Suc.IH [OF _ _ x(4) this, of False] Suc.prems(1) t x obtain ms where
        "provePath f T (ns ! unat x) q = Ok (Inr ms)" "list_all2 (\<lambda>m s. loaded m \<and> (\<exists>r. reps r K (dbOf T) m s)) ms (pathTrees (cs ! unat x) q)" by auto
      moreover have "\<exists>r. reps r K (dbOf T) n t" using Suc.prems(2) by blast
      ultimately show ?thesis using FullNode t x by auto
    next
      case (HashNode h)
      have m: "minimal t" using fitsKey_hash Suc.prems(2,3) HashNode by blast
      from resolveHash_ok [OF assms Suc.prems(1) m] Suc.prems(2) HashNode obtain n1 where
        1: "resolveHash T h [] = Ok (Inr n1)" "loaded n1" "reps r K (dbOf T) n1 t" by metis
      have "steps n1 key \<le> f" using Suc.prems(4) steps_le(3) [OF 1(2)] HashNode by (simp add: steps_def)
      from Suc.IH [OF Suc.prems(1) 1(3) Suc.prems(3) this] show ?thesis using 1 HashNode ne by auto
    qed (use Suc.prems ne in \<open>auto simp: fitsKey_def leaf_def\<close>)
  qed
qed

lemma pathTrees_fit:
  "fitsKey t key \<Longrightarrow> sized t \<Longrightarrow> s \<in> set (pathTrees t key) \<Longrightarrow> minimal s \<and> sized s \<and> encs K s \<subseteq> encs K t"
proof (induction t key rule: pathTrees.induct)
  case (3 k c key)
  note F = fitsKey_PShort [OF 3(2)]
  show ?case
  proof (cases "s = PShort k c")
    case True
    then show ?thesis using F(1) 3(3) by simp
  next
    case False
    then have "take (length k) key = k" "s \<in> set (pathTrees c (drop (length k) key))" "key \<noteq> []" using 3(4) by (auto split: if_splits)
    then show ?thesis using "3.IH" F(4) 3(3) by auto
  qed
next
  case (4 cs key)
  from fitsKey_PFull [OF 4(2)] obtain x q where x: "key = x # q" "unat x < 17" "length cs = 17" "minimal (PFull cs)" "fitsKey (cs ! unat x) q" by blast
  have c: "cs ! unat x \<in> set cs" "sized (cs ! unat x)" using x 4(3) by simp_all
  show ?case
  proof (cases "s = PFull cs")
    case True
    then show ?thesis using x(4) 4(3) by simp
  next
    case False
    then have "s \<in> set (pathTrees (cs ! unat x) q)" using 4(4) x by auto
    then have "minimal s \<and> sized s \<and> encs K s \<subseteq> encs K (cs ! unat x)" using "4.IH" x c(2) by auto
    then show ?thesis using c(1) by auto
  qed
qed simp_all

text \<open>The elements of a proof: the root, and every node of the path that is not embedded.\<close>

fun proofElems :: "(bytes \<Rightarrow> bytes) \<Rightarrow> nat \<Rightarrow> ptree list \<Rightarrow> (bytes \<times> bytes) list" where
  "proofElems K i [] = []"
| "proofElems K i (s # ss) =
     (if 32 \<le> length (penc K s) \<or> i = 0 then (K (penc K s), penc K s) # proofElems K (i + 1) ss else proofElems K (i + 1) ss)"

lemma proveNodes_ok:
  assumes "hash32 K"
  shows "list_all2 (\<lambda>m s. loaded m \<and> (\<exists>r. reps r K db m s)) ns ss \<Longrightarrow> \<forall>s \<in> set ss. minimal s \<and> sized s \<Longrightarrow>
    proveNodes K i 0 ns = Ok (Inr (proofElems K i ss))"
proof (induction ns arbitrary: i ss)
  case (Cons n ns)
  then obtain s ss' r where s: "ss = s # ss'" "loaded n" "reps r K db n s" "list_all2 (\<lambda>m s. loaded m \<and> (\<exists>r. reps r K db m s)) ns ss'"
    by (auto simp: list_all2_Cons1)
  have m: "minimal s" "sized s" using Cons.prems(2) s(1) by auto
  let ?h = "\<lparr>h_sha = K, h_cachegen = 0, h_cachelimit = 0\<rparr>"
  have a: "accepts K (encs K s) None" by (simp add: accepts_def)
  have "childrenTo K (encs K s) db None n s (hashChildren ?h n None)"
  proof (rule children_ok [OF _ m(1) _ a])
    show "body K (cur db None) n s" using s(3) reps_body [OF s(2)] by (simp add: cur_def)
    fix c m wo
    assume c: "c \<in> (case s of PShort _ c \<Rightarrow> {c} | PFull cs \<Rightarrow> set cs | _ \<Rightarrow> {})" "minimal c" "reps False K (cur db wo) m c" "accepts K (encs K s) wo"
    then have "sized c" "encs K c \<subseteq> encs K s" using \<open>sized s\<close> by (cases s; auto)+
    then show "hashedTo False K (encs K s) db wo c (hasher_hash ?h m wo False)" using hash_ok [of ?h K c] assms c by simp
  qed simp
  then obtain col kn wo' where col: "hashChildren ?h n None = Ok (Inr (col, kn, wo'))" "nodeVal col = pval K s" "loaded col" "flags col = flags n"
    "moved K (encs K s) db None wo'" unfolding childrenTo_def by blast
  have i: "inner s" using m(1) by (cases s) auto
  have l: "length (penc K s) < 2 ^ 64" using penc_length [OF assms m(2)] by simp
  have "fst (node_cache col) = None \<or> fst (node_cache col) = Some (K (penc K s))"
    using node_cache_flags [OF col(3)] col(4) s(3) reps_body [OF s(2)] by (auto simp: flagOk_def split: option.splits)
  from store_ok [OF _ i l col(2,3) this a order_refl, of ?h False db] obtain hn wo2 where
    st: "hasher_store ?h col None False = Ok (Inr (hn, wo2))"
      "(case hn of HashNode x \<Rightarrow> Some x | _ \<Rightarrow> None) = (if 32 \<le> length (penc K s) then Some (K (penc K s)) else None)" by auto
  have e: "EncodeToBytes (nodeVal col) = Some (penc K s)" using EncodeToBytes_eq [OF l] pval_encodable col(2) by simp
  have IH: "proveNodes K (i + 1) 0 ns = Ok (Inr (proofElems K (i + 1) ss'))" using Cons.IH [OF s(4)] Cons.prems(2) s(1) by simp
  show ?case
  proof (cases "32 \<le> length (penc K s)")
    case True
    then have "hn = HashNode (K (penc K s))" using st(2) by (cases hn) auto
    then show ?thesis using col(1) st(1) e IH s(1) True by simp
  next
    case False
    then have "\<not> (case hn of HashNode _ \<Rightarrow> True | _ \<Rightarrow> False)" "(case hn of HashNode x \<Rightarrow> x | _ \<Rightarrow> K (penc K s)) = K (penc K s)"
      using st(2) by (cases hn; simp)+
    then show ?thesis using col(1) st(1) e IH s(1) False by (auto simp: Let_def)
  qed
qed simp

lemma proofElems_set:
  "(x, e) \<in> set (proofElems K i ss) \<Longrightarrow> \<exists>s \<in> set ss. x = K (penc K s) \<and> e = penc K s"
  "s \<in> set ss \<Longrightarrow> 32 \<le> length (penc K s) \<Longrightarrow> (K (penc K s), penc K s) \<in> set (proofElems K i ss)"
  by (induction ss arbitrary: i) (auto split: if_splits)

lemma pathTrees_root: "minimal t \<Longrightarrow> validKey key \<Longrightarrow> \<exists>ss. pathTrees t key = t # ss"
  by (cases t; cases key) auto

section \<open>Properties\<close>

lemma root_facts:
  assumes "trieIs K T t" "t \<noteq> PNil" "Trie_Hash K T = Ok (Inr (h, S))"
  shows "hash32 K" "minimal t" "sized t" "h = K (penc K t)" "reps True K (dbOf T) (t_root T) t"
  using assms Hash_law [OF assms(1)] bounded_sized by (auto simp: trieIs_def minimalRoot_def rootOf_def)

text \<open>
  C28. A proof cannot lie: whatever elements it has, as long as each is stored under its own hash and the
  hash function has no collision among them and the nodes of the trie, checking it against the root
  hash of a trie gives the value that the trie holds for the key, or none if the trie holds none, or
  reports a missing element. The check ends after as many elements as the key has nibbles.
\<close>

theorem VerifyProof_sound:
  assumes "trieIs K T t" "t \<noteq> PNil" "Trie_Hash K T = Ok (Inr (h, S))" "\<forall>x e. proofDb x = Some e \<longrightarrow> K e = x"
    and "inj_on K (encs K t \<union> ran proofDb)" "keyOk f k"
  shows "(\<exists>i x. VerifyProof f h k proofDb = Ok (Inl (ProofMissing i x))) \<or>
    (\<exists>v i R. VerifyProof f h k proofDb = Ok (Inr (v, i)) \<and> Trie_TryGet f T k = Ok (Inr (v, R)))"
proof -
  note t = root_facts [OF assms(1-3)]
  have "\<forall>x e. proofDb x = Some e \<longrightarrow> K e = x \<and> e \<in> encs K t \<union> ran proofDb" using assms(4) by (auto simp: ran_def)
  moreover have "length (keybytesToHex k) < f" using assms(6) by (simp add: keyOk_def hexKey_length)
  moreover have "fitsKey t (keybytesToHex k)" using t(2) by (intro root_fits) (simp add: minimalRoot_def)
  ultimately show ?thesis
    using VerifyProofLoop_ok [OF t(1) assms(5) _ t(2,3), of proofDb "keybytesToHex k" f 0] TryGet_law [OF assms(1,6)] t(4)
    by (auto simp: VerifyProof_def contents_def)
qed

theorem VerifyProof_sound_witness:
  "(\<exists>i x. VerifyProof 20 (rootOf padHash leafTree) [1] [padHash [0xC4, 0x82, 0x20, 0x01, 0x07] \<mapsto> [0xC4, 0x82, 0x20, 0x01, 0x07]] = Ok (Inl (ProofMissing i x))) \<or>
    (\<exists>v i R. VerifyProof 20 (rootOf padHash leafTree) [1] [padHash [0xC4, 0x82, 0x20, 0x01, 0x07] \<mapsto> [0xC4, 0x82, 0x20, 0x01, 0x07]] = Ok (Inr (v, i)) \<and>
       Trie_TryGet 20 (leafT fresh) [1] = Ok (Inr (v, R)))"
proof -
  obtain S where S: "Trie_Hash padHash (leafT fresh) = Ok (Inr (rootOf padHash leafTree, S))" using Hash_law [OF leafT_fresh(1)] by blast
  show ?thesis
    by (rule VerifyProof_sound [OF leafT_fresh(1) _ S]) (auto simp: leafTree_simps leafTree_def [symmetric] keyOk_def, simp add: leafTree_def)
qed




end
