(* ===== verification/Spec2Isabelle.thy ===== *)
theory Spec2Isabelle
  imports StateOps JumpAnalysis TransitionSafety RlpRaw RlpTotal TrieProof
begin

text \<open>
  \<^bold>\<open>A verification of go-xdn\<close>

  go-xdn is a blockchain node in Go: a replicated state machine whose transactions run bytecode. This
  development models the parts that decide what the chain means and proves them correct. Pure functions
  of the source are HOL functions of the same names; methods that change an object take and return a
  record; an error is a value, a panic is \<open>Panic\<close>, and a loop without a bound that the code shows takes
  fuel and gives \<open>NoFuel\<close> when it runs out. Big integers are \<open>int\<close>, \<^verbatim>\<open>uint64\<close> is a 64-bit word that
  wraps.

  \<^bold>\<open>Shared.\<close> \<open>Prelude\<close> holds the result type \<open>res\<close> and its binding, bytes and big-endian numbers.
  \<open>CommonLib\<close> is common/math (checked arithmetic, 256-bit wrap-around, exponentiation by squaring),
  common/bytes.go and the conversions of fixed-size arrays. \<open>ChainParams\<close> is params: fork rules,
  gas tables and the compatibility check.

  \<^bold>\<open>State\<close> (core/state). \<open>WorldState\<close> models state objects, the journal, snapshots and finalisation;
  the account trie, the storage tries and the code store are parameters (\<open>Ext\<close>). \<open>StateRefine\<close> relates
  a \<^verbatim>\<open>StateDB\<close> with its object cache to plain maps from addresses to accounts, and \<open>StateOps\<close> proves
  that every operation refines its map update and that \<^verbatim>\<open>RevertToSnapshot\<close> undoes every sequence of
  operations, nested frames included.

  \<^bold>\<open>Virtual machine\<close> (core/vm). \<open>EvmCore\<close> has memory, contracts and the jump destination analysis,
  \<open>EvmGas\<close> the gas and memory size functions, \<open>EvmCall\<close> the calls, contract creation and precompiled
  contracts, \<open>EvmInstr\<close> every instruction, \<open>Interp\<close> the instruction tables of the three rule sets and
  the main loop. \<open>JumpAnalysis\<close> proves the bitmap analysis equal to a scan of the code. \<open>EvmFrame\<close>,
  \<open>EvmOps\<close> and \<open>EvmStep\<close> carry one relation between the state before and after through every
  instruction; \<open>EvmSafety\<close> draws the conclusions: a failed call changes nothing, a static call changes
  nothing, gas never grows, value is never created, and the interpreter ends. The interpreter's fuel
  bounds the steps of a frame and the nesting of frames; more fuel than gas is always enough, because
  every instruction that does not end its frame costs gas.

  \<^bold>\<open>State transition\<close> (core/state_transition.go, core/gaspool.go). \<open>Transition\<close> models buying gas, the
  intrinsic gas, execution, refund and fee; \<open>TransitionSafety\<close> proves that a message that fails its
  checks leaves the state alone, that the gas accounts balance, that no value is created and that
  applying a message ends.

  \<^bold>\<open>RLP\<close> (rlp). \<open>Rlp\<close> is the encoder with its two buffers, \<open>RlpDecode\<close> the slice functions of raw.go
  and the stream decoder, with the Go types that reflection inspects as a datatype. \<open>RlpEncode\<close> proves
  the encoder equal to the textbook encoding, \<open>RlpStream\<close> says what each stream method consumes,
  \<open>RlpRound\<close> and \<open>RlpTotal\<close> prove the round trip in both directions and that decoding ends on every
  input: the fuel is twice the length of the input and one, because every value read consumes a byte.
  \<open>RlpRaw\<close> characterises \<^verbatim>\<open>Split\<close>.


  \<^bold>\<open>Merkle Patricia trie.\<close> \<open>TrieKeys\<close> models trie/encoding.go, \<open>TrieModel\<close> the nodes, the trie, the hasher, the
  proofs and the trie with hashed keys (trie/node.go, trie.go, hasher.go, proof.go, secure_trie.go). The
  database is a map from hashes to encodings, the hash function is an argument; where a theorem needs
  that it has no collisions, it says so for the encodings of the nodes involved only. A lookup that
  follows hashes takes fuel; 4 n + 4 calls are enough for a key of n bytes. \<open>PureTrie\<close> and
  \<open>PureTrieOps\<close> are the reference: tries without hashes and flags, with one minimal form for each
  map. \<open>TrieEncode\<close> says which reference trie a node stands for and that stored nodes decode to nodes
  that stand for the same trie, \<open>TrieRefine\<close> that lookup, insertion and deletion do what the reference
  operations do, \<open>TrieHash\<close> that hashing gives the hash of the reference encoding and storing puts every
  node into the database. \<open>TrieStore\<close> states the contract of a store as a locale, interpreted for the trie
  and for the trie with hashed keys. \<open>TrieProps\<close> has the properties: the trie is a map, its root hash
  depends on the contents only and binds them, and commits can be loaded again. \<open>TrieProof\<close> shows that a
  proof cannot lie and that the proofs that are made are accepted.
  \<open>Fallible\<close> holds results with an error value.
  \<^bold>\<open>Not modelled.\<close> The network protocols, the RPC server, the console, key storage and
  the command line are input and output around this core. Database back ends are represented by the
  maps they store. Signatures, SHA-256 and RIPEMD-160 are third-party code and parameters. Goroutines,
  locks and caches without observable effect are left out; where the code holds one lock for the whole
  of an operation the operation is one step. Reflection is represented by a datatype of types. Tracing
  and logging have no effect on the results. Generated code (ABI bindings, JSON marshalling) and
  the code under src/alecthomas, src/cmd, src/mobile and src/build are not modelled.
\<close>

end
